(* ===== verification/Prelude.thy ===== *)
theory Prelude
  imports
    Main
    "HOL-Library.AList"
    "HOL-Library.Word"
    "HOL-Library.Multiset"
    "HOL-Library.Char_ord"
    "HOL-Library.List_Lexorder"
    "HOL-Library.Code_Target_Nat"
begin

text \<open>
  Shared vocabulary of the development.

  \<^item> \<open>gomap\<close>: a Go \<open>map[K]V\<close> is an association list with distinct keys.  \<open>m[k] = v\<close> is
    \<^const>\<open>AList.update\<close>, \<open>delete(m, k)\<close> is \<^const>\<open>AList.delete\<close>, \<open>v, ok := m[k]\<close> is
    \<^const>\<open>map_of\<close>.  The contract of these operations is the locale \<open>map_store\<close>; the clients
    (the plan's indexes, the in-memory provider) use the lemmas proved in it.
  \<^item> \<open>range_order\<close>: \<open>for k, v := range m\<close> visits the entries in an order Go leaves open.  A
    definition that ranges over a map takes the order as an argument, and \<open>range_ok\<close> says
    that the order visits every entry exactly once.
  \<^item> \<open>goerror\<close>: the \<open>error\<close> values the program makes, with \<open>%w\<close> wrapping as a constructor.
  \<^item> \<open>wrap64\<close>: two's-complement wrap-around of \<open>int64\<close> (and \<open>time.Duration\<close>) arithmetic.
\<close>

named_theorems go_defs \<open>definitions of the small library functions, for unfolding\<close>
named_theorems gomap_simps \<open>rewriting of map operations\<close>


section \<open>Errors\<close>

datatype goerror =
    Errorf string                   \<comment> \<open>\<open>fmt.Errorf\<close> with a fixed text\<close>
  | Wrap string goerror             \<comment> \<open>\<open>fmt.Errorf("text: %w", err)\<close>\<close>
  | InvalidValue string string      \<comment> \<open>an error text with one offending value (\<open>%q\<close> or \<open>%s\<close>)\<close>
  | RcodeError string nat           \<comment> \<open>a DNS response code that is not success\<close>
  | ContextError string             \<comment> \<open>\<open>ctx.Err()\<close>\<close>
  | ExternalError string            \<comment> \<open>an error made outside this repository\<close>

type_synonym 'a result = "goerror + 'a"

fun is_err :: "'a result \<Rightarrow> bool" where
  "is_err (Inl e) = True"
| "is_err (Inr x) = False"

fun wrap_err :: "string \<Rightarrow> 'a result \<Rightarrow> 'a result" where
  "wrap_err ctx (Inl e) = Inl (Wrap ctx e)"
| "wrap_err ctx (Inr x) = Inr x"


section \<open>Fixed-width integers\<close>

text \<open>
  \<open>int64\<close> values are kept as \<^typ>\<open>int\<close> in the range \<open>in_int64\<close>; an operation that can
  leave the range is followed by \<open>wrap64\<close>.
\<close>

definition in_int64 :: "int \<Rightarrow> bool" where
  "in_int64 i \<longleftrightarrow> - (2 ^ 63) \<le> i \<and> i < 2 ^ 63"

definition wrap64 :: "int \<Rightarrow> int" where
  "wrap64 i = (i + 2 ^ 63) mod 2 ^ 64 - 2 ^ 63"

lemma wrap64_id [simp]: "in_int64 i \<Longrightarrow> wrap64 i = i"
  by (simp add: in_int64_def wrap64_def)

lemma wrap64_range: "in_int64 (wrap64 i)"
  by (simp add: in_int64_def wrap64_def)


section \<open>Go maps\<close>

type_synonym ('k, 'v) gomap = "('k \<times> 'v) list"
type_synonym ('k, 'v) range_order = "('k, 'v) gomap \<Rightarrow> ('k \<times> 'v) list"

definition gomap_ok :: "('k, 'v) gomap \<Rightarrow> bool" where
  "gomap_ok m \<longleftrightarrow> distinct (map fst m)"

definition range_ok :: "('k, 'v) range_order \<Rightarrow> bool" where
  "range_ok r \<longleftrightarrow> (\<forall>m. mset (r m) = mset m)"

lemma range_ok_id: "range_ok (\<lambda>m. m)"
  by (simp add: range_ok_def)

lemma range_ok_rev: "range_ok rev"
  by (simp add: range_ok_def)

lemma range_ok_set [simp]: "range_ok r \<Longrightarrow> set (r m) = set m"
  unfolding range_ok_def by (metis set_mset_mset)

lemma range_ok_mset [simp]: "range_ok r \<Longrightarrow> mset (r m) = mset m"
  by (simp add: range_ok_def)

lemma range_ok_length [simp]: "range_ok r \<Longrightarrow> length (r m) = length m"
  unfolding range_ok_def by (metis size_mset)

lemma range_ok_single: "range_ok r \<Longrightarrow> r [y] = [y]"
  unfolding range_ok_def by (metis mset_single_iff_right mset.simps(1,2))

lemma range_ok_pair: "range_ok r \<Longrightarrow> r [x, y] = [x, y] \<or> r [x, y] = [y, x]"
proof -
  assume r: "range_ok r"
  obtain u v where uv: "r [x, y] = [u, v]"
    using range_ok_length [OF r, of "[x, y]"] by (auto simp: length_Suc_conv)
  have "{#u, v#} = {#x, y#}" using range_ok_mset [OF r, of "[x, y]"] uv by simp
  then show ?thesis unfolding uv by (auto simp: add_eq_conv_ex)
qed

lemma range_ok_distinct: "range_ok r \<Longrightarrow> distinct (r m) \<longleftrightarrow> distinct m"
  unfolding range_ok_def by (metis mset_eq_imp_distinct_iff)

text \<open>The contract of a key-value store, and what follows from it for a loop that fills one.\<close>

locale map_store =
  fixes empty :: "'m"
    and update :: "'k \<Rightarrow> 'v \<Rightarrow> 'm \<Rightarrow> 'm"
    and delete :: "'k \<Rightarrow> 'm \<Rightarrow> 'm"
    and lookup :: "'m \<Rightarrow> 'k \<Rightarrow> 'v option"
    and entries :: "'m \<Rightarrow> ('k \<times> 'v) list"
    and invar :: "'m \<Rightarrow> bool"
  assumes lookup_empty: "lookup empty = Map.empty"
    and lookup_update: "lookup (update k v m) = (lookup m)(k \<mapsto> v)"
    and lookup_delete: "lookup (delete k m) = (lookup m)(k := None)"
    and invar_empty: "invar empty"
    and invar_update: "invar m \<Longrightarrow> invar (update k v m)"
    and invar_delete: "invar m \<Longrightarrow> invar (delete k m)"
    and entries_lookup: "invar m \<Longrightarrow> (k, v) \<in> set (entries m) \<longleftrightarrow> lookup m k = Some v"
begin

text \<open>A loop \<open>for _, x := range xs { m[key(x)] = x }\<close>: the last element of a key wins.\<close>

lemma lookup_fill:
  "lookup (fold (\<lambda>x. update (key x) (val x)) xs m) k =
     (case find (\<lambda>x. key x = k) (rev xs) of Some x \<Rightarrow> Some (val x) | None \<Rightarrow> lookup m k)"
proof (induction xs rule: rev_induct)
  case Nil
  show ?case by simp
next
  case (snoc x xs)
  then show ?case by (simp add: lookup_update)
qed

lemma invar_fill: "invar m \<Longrightarrow> invar (fold (\<lambda>x. update (key x) (val x)) xs m)"
  by (induction xs arbitrary: m) (simp_all add: invar_update)

lemma lookup_drain:
  "lookup (fold (\<lambda>x. delete (key x)) xs m) k = (if k \<in> key ` set xs then None else lookup m k)"
  by (induction xs arbitrary: m) (auto simp: lookup_delete)

lemma invar_drain: "invar m \<Longrightarrow> invar (fold (\<lambda>x. delete (key x)) xs m)"
  by (induction xs arbitrary: m) (simp_all add: invar_delete)

lemma entries_fill:
  "(k, v) \<in> set (entries (fold (\<lambda>x. update (key x) (val x)) xs empty)) \<longleftrightarrow>
     (\<exists>x. find (\<lambda>x. key x = k) (rev xs) = Some x \<and> v = val x)"
  by (auto simp: entries_lookup invar_fill invar_empty lookup_fill lookup_empty split: option.splits)

end

interpretation gomap: map_store "[]" AList.update AList.delete map_of "\<lambda>m. m" gomap_ok
proof unfold_locales
  fix k :: 'a and v :: 'b and m :: "('a, 'b) gomap"
  show "map_of ([] :: ('a, 'b) gomap) = Map.empty" by simp
  show "map_of (AList.update k v m) = (map_of m)(k \<mapsto> v)" by (simp add: update_conv')
  show "map_of (AList.delete k m) = (map_of m)(k := None)" by (simp add: delete_conv')
  show "gomap_ok ([] :: ('a, 'b) gomap)" by (simp add: gomap_ok_def)
  show "gomap_ok m \<Longrightarrow> gomap_ok (AList.update k v m)" by (simp add: gomap_ok_def distinct_update)
  show "gomap_ok m \<Longrightarrow> gomap_ok (AList.delete k m)" by (simp add: gomap_ok_def distinct_delete)
  show "gomap_ok m \<Longrightarrow> (k, v) \<in> set m \<longleftrightarrow> map_of m k = Some v"
    by (simp add: gomap_ok_def)
qed

lemmas gomap_laws [gomap_simps] = gomap.lookup_update gomap.lookup_delete

lemma gomap_ok_distinct: "gomap_ok m \<Longrightarrow> distinct m"
  by (simp add: gomap_ok_def distinct_map)


section \<open>Lists\<close>

lemma find_rev_Some: "find P (rev xs) = Some x \<Longrightarrow> x \<in> set xs \<and> P x"
  by (auto simp: find_Some_iff in_set_conv_nth) (metis in_set_conv_nth length_rev nth_mem set_rev)

lemma find_rev_None: "find P (rev xs) = None \<longleftrightarrow> (\<forall>x \<in> set xs. \<not> P x)"
  by (auto simp: find_None_iff)

lemma find_append: "find P (xs @ ys) = (case find P xs of None \<Rightarrow> find P ys | Some x \<Rightarrow> Some x)"
  by (induction xs) simp_all

lemma find_rev_unique:
  "x \<in> set xs \<Longrightarrow> P x \<Longrightarrow> (\<And>y. y \<in> set xs \<Longrightarrow> P y \<Longrightarrow> y = x) \<Longrightarrow> find P (rev xs) = Some x"
proof (cases "find P (rev xs)")
  case None
  then have "\<forall>y \<in> set xs. \<not> P y" by (simp only: find_rev_None)
  moreover assume "x \<in> set xs" "P x"
  ultimately show ?thesis by blast
next
  case (Some y)
  moreover assume "\<And>y. y \<in> set xs \<Longrightarrow> P y \<Longrightarrow> y = x"
  ultimately show ?thesis by (metis find_rev_Some)
qed

text \<open>An accumulating loop that only appends is a \<open>concat\<close>.\<close>

lemma fold_append_concat: "fold (\<lambda>x acc. acc @ f x) xs acc = acc @ concat (map f xs)"
  by (induction xs arbitrary: acc) simp_all

end
