(* ===== verification/GoStrings.thy ===== *)
theory GoStrings
  imports Prelude
begin

text \<open>
  The parts of Go's \<open>strings\<close>, \<open>strconv\<close>, \<open>fmt\<close> and \<open>regexp\<close> packages the program calls.
  A Go string is a sequence of bytes, here a \<^typ>\<open>string\<close> (\<^typ>\<open>char\<close> is a byte).

  The lemmas give the algebra the components use: prefixes and suffixes cancel against
  concatenation, splitting on a byte leaves pieces without that byte, decimal printing is
  injective and \<open>ParseInt\<close> inverts it, and the two regular expressions of the source have the
  character-level meaning their comments state.
\<close>


section \<open>Prefixes, suffixes, splitting\<close>

definition HasPrefix :: "string \<Rightarrow> string \<Rightarrow> bool" where
  "HasPrefix s p \<longleftrightarrow> length p \<le> length s \<and> take (length p) s = p"

definition HasSuffix :: "string \<Rightarrow> string \<Rightarrow> bool" where
  "HasSuffix s p \<longleftrightarrow> length p \<le> length s \<and> drop (length s - length p) s = p"

definition TrimPrefix :: "string \<Rightarrow> string \<Rightarrow> string" where
  "TrimPrefix s p = (if HasPrefix s p then drop (length p) s else s)"

definition TrimSuffix :: "string \<Rightarrow> string \<Rightarrow> string" where
  "TrimSuffix s p = (if HasSuffix s p then take (length s - length p) s else s)"

lemma HasPrefix_iff: "HasPrefix s p \<longleftrightarrow> (\<exists>r. s = p @ r)"
  unfolding HasPrefix_def by (metis append_eq_conv_conj append_take_drop_id le_add1 length_append)

lemma HasSuffix_iff: "HasSuffix s p \<longleftrightarrow> (\<exists>r. s = r @ p)"
proof
  assume "HasSuffix s p"
  then have "s = take (length s - length p) s @ p"
    unfolding HasSuffix_def by (metis append_take_drop_id)
  then show "\<exists>r. s = r @ p" by blast
qed (auto simp: HasSuffix_def)

lemma HasPrefix_append [simp]: "HasPrefix (p @ r) p"
  by (auto simp: HasPrefix_iff)

lemma HasSuffix_append [simp]: "HasSuffix (r @ p) p"
  by (auto simp: HasSuffix_iff)

lemma TrimPrefix_append [simp]: "TrimPrefix (p @ r) p = r"
  by (simp add: TrimPrefix_def)

lemma TrimSuffix_append [simp]: "TrimSuffix (r @ p) p = r"
  by (simp add: TrimSuffix_def)

lemma TrimPrefix_restore: "HasPrefix s p \<Longrightarrow> p @ TrimPrefix s p = s"
  by (auto simp: HasPrefix_iff)

lemma TrimSuffix_noop [simp]: "\<not> HasSuffix s p \<Longrightarrow> TrimSuffix s p = s"
  by (simp add: TrimSuffix_def)

lemma TrimSuffix_restore: "HasSuffix s p \<Longrightarrow> TrimSuffix s p @ p = s"
  by (auto simp: HasSuffix_iff)

lemma set_TrimSuffix: "set (TrimSuffix s p) \<subseteq> set s"
  by (auto simp: TrimSuffix_def dest: in_set_takeD)

text \<open>\<open>strings.Split(s, sep)\<close> for a one-byte separator.\<close>

fun SplitByte :: "char \<Rightarrow> string \<Rightarrow> string list" where
  "SplitByte c [] = [[]]"
| "SplitByte c (x # xs) =
     (if x = c then [] # SplitByte c xs
      else case SplitByte c xs of [] \<Rightarrow> [[x]] | p # ps \<Rightarrow> (x # p) # ps)"

text \<open>\<open>strings.Join(ss, sep)\<close>.\<close>

fun Join :: "string list \<Rightarrow> string \<Rightarrow> string" where
  "Join [] sep = []"
| "Join [s] sep = s"
| "Join (s # t # ts) sep = s @ sep @ Join (t # ts) sep"

text \<open>\<open>strings.Cut(s, sep)\<close> for a one-byte separator: before, after, found.\<close>

fun CutByte :: "string \<Rightarrow> char \<Rightarrow> string \<times> string \<times> bool" where
  "CutByte [] c = ([], [], False)"
| "CutByte (x # xs) c =
     (if x = c then ([], xs, True)
      else case CutByte xs c of (b, a, f) \<Rightarrow> (x # b, a, f))"

lemma SplitByte_nonempty [simp]: "SplitByte c s \<noteq> []"
  by (cases s) (auto split: list.splits)

lemma Join_SplitByte: "Join (SplitByte c s) [c] = s"
proof (induction s)
  case Nil
  show ?case by simp
next
  case (Cons x xs)
  obtain p ps where split: "SplitByte c xs = p # ps"
    by (meson SplitByte_nonempty list.exhaust)
  show ?case
  proof (cases "x = c")
    case True
    with Cons split show ?thesis by simp
  next
    case False
    with Cons split show ?thesis by (cases ps) simp_all
  qed
qed

lemma SplitByte_no_sep: "p \<in> set (SplitByte c s) \<Longrightarrow> c \<notin> set p"
  by (induction s arbitrary: p) (auto split: if_splits list.splits)

lemma set_Join: "set (Join ss sep) \<subseteq> \<Union> (set ` set ss) \<union> set sep"
  by (induction ss sep rule: Join.induct) auto

lemma set_via_SplitByte: "set s \<subseteq> \<Union> (set ` set (SplitByte c s)) \<union> {c}"
  using set_Join [of "SplitByte c s" "[c]"] by (simp add: Join_SplitByte)

lemma CutByte_found: "CutByte s c = (b, a, True) \<Longrightarrow> s = b @ c # a \<and> c \<notin> set b"
  by (induction s arbitrary: b) (auto split: if_splits prod.splits)

lemma CutByte_append: "c \<notin> set b \<Longrightarrow> CutByte (b @ c # a) c = (b, a, True)"
  by (induction b) auto


section \<open>White space\<close>

text \<open>
  \<open>strings.TrimSpace\<close> strips the runes with \<open>unicode.IsSpace\<close> from both ends.  The list holds
  their UTF-8 encodings: tab, newline, vertical tab, form feed, carriage return, space,
  U+0085, U+00A0, U+1680, U+2000 to U+200A, U+2028, U+2029, U+202F, U+205F, U+3000.  In each of
  them only the first byte can start a rune, so a string ends in such a rune exactly when it
  ends in these bytes.
\<close>

definition space_runes :: "string list" where
  "space_runes =
     map (map char_of)
       ([[9], [10], [11], [12], [13], [32], [194, 133], [194, 160], [225, 154, 128]]
        @ map (\<lambda>b. [226, 128, b]) [128, 129, 130, 131, 132, 133, 134, 135, 136, 137, 138,
             168, 169, 175]
        @ [[226, 129, 159], [227, 128, 128 :: nat]])"

definition leading_space :: "string \<Rightarrow> nat" where
  "leading_space s = (case find (HasPrefix s) space_runes of Some w \<Rightarrow> length w | None \<Rightarrow> 0)"

definition trailing_space :: "string \<Rightarrow> nat" where
  "trailing_space s = (case find (HasSuffix s) space_runes of Some w \<Rightarrow> length w | None \<Rightarrow> 0)"

fun TrimLeftSpace :: "string \<Rightarrow> string" where
  "TrimLeftSpace s =
     (let n = leading_space s in
      if n = 0 \<or> s = [] then s else TrimLeftSpace (drop n s))"

fun TrimRightSpace :: "string \<Rightarrow> string" where
  "TrimRightSpace s =
     (let n = trailing_space s in
      if n = 0 \<or> s = [] then s else TrimRightSpace (take (length s - n) s))"

declare TrimLeftSpace.simps [simp del] TrimRightSpace.simps [simp del]

definition TrimSpace :: "string \<Rightarrow> string" where
  "TrimSpace s = TrimRightSpace (TrimLeftSpace s)"

lemma TrimLeftSpace_id: "leading_space s = 0 \<Longrightarrow> TrimLeftSpace s = s"
  by (subst TrimLeftSpace.simps) simp

lemma TrimRightSpace_id: "trailing_space s = 0 \<Longrightarrow> TrimRightSpace s = s"
  by (subst TrimRightSpace.simps) simp

lemma TrimRightSpace_done: "TrimRightSpace s = [] \<or> trailing_space (TrimRightSpace s) = 0"
proof (induction s rule: TrimRightSpace.induct)
  case (1 s)
  then show ?case
    by (cases "trailing_space s = 0 \<or> s = []") (auto simp: TrimRightSpace.simps [of s] Let_def)
qed

lemma TrimLeftSpace_done: "TrimLeftSpace s = [] \<or> leading_space (TrimLeftSpace s) = 0"
proof (induction s rule: TrimLeftSpace.induct)
  case (1 s)
  then show ?case
    by (cases "leading_space s = 0 \<or> s = []") (auto simp: TrimLeftSpace.simps [of s] Let_def)
qed

lemma TrimRightSpace_prefix: "\<exists>r. s = TrimRightSpace s @ r"
proof (induction s rule: TrimRightSpace.induct)
  case (1 s)
  show ?case
  proof (cases "trailing_space s = 0 \<or> s = []")
    case True
    then show ?thesis by (auto simp: TrimRightSpace.simps [of s])
  next
    case False
    then obtain r where "take (length s - trailing_space s) s =
        TrimRightSpace (take (length s - trailing_space s) s) @ r"
      using "1" by (auto simp: Let_def)
    then show ?thesis
      using False by (subst TrimRightSpace.simps)
        (simp add: Let_def, metis append.assoc append_take_drop_id)
  qed
qed

text \<open>\<open>strings.ToLower\<close> on ASCII text: log levels and TSIG algorithm names are ASCII.\<close>

definition lower_byte :: "char \<Rightarrow> char" where
  "lower_byte c = (if 65 \<le> (of_char c :: nat) \<and> (of_char c :: nat) \<le> 90
                   then char_of ((of_char c :: nat) + 32) else c)"

definition ToLower :: "string \<Rightarrow> string" where
  "ToLower s = map lower_byte s"

lemma lower_byte_idem [simp]: "lower_byte (lower_byte c) = lower_byte c"
  by (auto simp: lower_byte_def)

lemma ToLower_idem [simp]: "ToLower (ToLower s) = ToLower s"
  by (simp add: ToLower_def)

lemma ToLower_append: "ToLower (s @ t) = ToLower s @ ToLower t"
  by (simp add: ToLower_def)


section \<open>Decimal numbers\<close>

definition is_digit :: "char \<Rightarrow> bool" where
  "is_digit c \<longleftrightarrow> 48 \<le> (of_char c :: nat) \<and> (of_char c :: nat) \<le> 57"

definition digit_val :: "char \<Rightarrow> nat" where
  "digit_val c = of_char c - 48"

definition digit_char :: "nat \<Rightarrow> char" where
  "digit_char d = char_of (48 + d)"

lemma digit_char [simp]: "d < 10 \<Longrightarrow> is_digit (digit_char d)" "d < 10 \<Longrightarrow> digit_val (digit_char d) = d"
  by (simp_all add: is_digit_def digit_val_def digit_char_def)

text \<open>\<open>%d\<close> of a non-negative number, and of an \<open>int64\<close>.\<close>

fun showNat :: "nat \<Rightarrow> string" where
  "showNat n = (if n < 10 then [digit_char n] else showNat (n div 10) @ [digit_char (n mod 10)])"

declare showNat.simps [simp del]

definition itoa :: "int \<Rightarrow> string" where
  "itoa i = (if i < 0 then CHR ''-'' # showNat (nat (- i)) else showNat (nat i))"

definition dec_val :: "nat \<Rightarrow> string \<Rightarrow> nat" where
  "dec_val acc s = foldl (\<lambda>a c. a * 10 + digit_val c) acc s"

lemma showNat_digits: "c \<in> set (showNat n) \<Longrightarrow> is_digit c"
proof (induction n rule: showNat.induct)
  case (1 n)
  then show ?case by (cases "n < 10") (auto simp: showNat.simps [of n])
qed

lemma dec_val_showNat: "dec_val 0 (showNat n) = n"
proof (induction n rule: showNat.induct)
  case (1 n)
  then show ?case by (cases "n < 10") (simp_all add: showNat.simps [of n] dec_val_def)
qed

lemma showNat_nonempty [simp]: "showNat n \<noteq> []"
  by (subst showNat.simps) simp

lemma showNat_inj: "showNat m = showNat n \<Longrightarrow> m = n"
  by (metis dec_val_showNat)

text \<open>\<open>strconv.ParseUint(s, 10, 64)\<close> after the sign, then \<open>strconv.ParseInt(s, 10, 64)\<close>.\<close>

datatype num_error = ErrSyntax | ErrRange

fun parseUintLoop :: "nat \<Rightarrow> string \<Rightarrow> num_error + nat" where
  "parseUintLoop n [] = Inr n"
| "parseUintLoop n (c # cs) =
     (if \<not> is_digit c then Inl ErrSyntax
      else if n * 10 + digit_val c \<ge> 2 ^ 64 then Inl ErrRange
      else parseUintLoop (n * 10 + digit_val c) cs)"

definition ParseUint :: "string \<Rightarrow> num_error + nat" where
  "ParseUint s = (if s = [] then Inl ErrSyntax else parseUintLoop 0 s)"

definition parse_sign :: "string \<Rightarrow> bool \<times> string" where
  "parse_sign s = (case s of
     c # cs \<Rightarrow> if c = CHR ''+'' then (False, cs) else if c = CHR ''-'' then (True, cs) else (False, s)
   | [] \<Rightarrow> (False, []))"

definition ParseInt :: "string \<Rightarrow> num_error + int" where
  "ParseInt s =
     (if s = [] then Inl ErrSyntax
      else case parse_sign s of (neg, ds) \<Rightarrow>
        (case ParseUint ds of
           Inl e \<Rightarrow> Inl e
         | Inr un \<Rightarrow>
             if \<not> neg \<and> un \<ge> 2 ^ 63 then Inl ErrRange
             else if neg \<and> un > 2 ^ 63 then Inl ErrRange
             else Inr (if neg then - int un else int un)))"

lemma dec_val_mono: "acc \<le> dec_val acc s"
proof (induction s arbitrary: acc)
  case Nil
  show ?case by (simp add: dec_val_def)
next
  case (Cons c s)
  have "acc \<le> acc * 10 + digit_val c" by simp
  also have "\<dots> \<le> dec_val (acc * 10 + digit_val c) s" by (rule Cons.IH)
  finally show ?case by (simp add: dec_val_def)
qed

lemma parseUintLoop_digits:
  "(\<And>c. c \<in> set s \<Longrightarrow> is_digit c) \<Longrightarrow> dec_val n s < 2 ^ 64 \<Longrightarrow> parseUintLoop n s = Inr (dec_val n s)"
proof (induction s arbitrary: n)
  case Nil
  show ?case by (simp add: dec_val_def)
next
  case (Cons c s)
  have step: "dec_val n (c # s) = dec_val (n * 10 + digit_val c) s" by (simp add: dec_val_def)
  with Cons.prems(2) dec_val_mono [of "n * 10 + digit_val c" s]
  have "n * 10 + digit_val c < 2 ^ 64" by simp
  then show ?case using Cons step by simp
qed

lemma parseUintLoop_bound: "parseUintLoop n s = Inr v \<Longrightarrow> n < 2 ^ 64 \<Longrightarrow> v < 2 ^ 64"
  by (induction s arbitrary: n) (auto split: if_splits)

lemma parse_sign_showNat [simp]:
  "parse_sign (showNat n) = (False, showNat n)"
  "parse_sign (CHR ''-'' # showNat n) = (True, showNat n)"
proof -
  obtain c cs where s: "showNat n = c # cs" by (meson showNat_nonempty list.exhaust)
  then have "is_digit c" using showNat_digits [of c n] by simp
  then have "c \<noteq> CHR ''+''" "c \<noteq> CHR ''-''" by (auto simp: is_digit_def)
  with s show "parse_sign (showNat n) = (False, showNat n)" by (simp add: parse_sign_def)
  show "parse_sign (CHR ''-'' # showNat n) = (True, showNat n)" by (simp add: parse_sign_def)
qed

lemma ParseUint_showNat: "n < 2 ^ 64 \<Longrightarrow> ParseUint (showNat n) = Inr n"
  using parseUintLoop_digits [of "showNat n" 0]
  by (simp add: ParseUint_def showNat_digits dec_val_showNat)

lemma ParseInt_itoa: "in_int64 i \<Longrightarrow> ParseInt (itoa i) = Inr i"
  by (auto simp: ParseInt_def itoa_def in_int64_def ParseUint_showNat)

lemma ParseInt_range: "ParseInt s = Inr i \<Longrightarrow> in_int64 i"
  by (auto simp: ParseInt_def in_int64_def split: if_splits prod.splits sum.splits)


section \<open>Regular expressions\<close>

text \<open>
  The fragment of \<open>regexp\<close> syntax the source uses, over ASCII classes: a class, a sequence,
  an option \<open>(\<dots>)?\<close>, a bounded repetition \<open>[c]{0,n}\<close> and \<open>[c]+\<close>.  \<open>rx_rest r s\<close> lists what
  may remain of \<open>s\<close> after a match of \<open>r\<close> at its start; an expression anchored by \<open>^\<close> and \<open>$\<close>
  matches when nothing remains.
\<close>

datatype regex =
    Class "char \<Rightarrow> bool"
  | Seq regex regex
  | Opt regex
  | RepMax nat "char \<Rightarrow> bool"
  | Plus "char \<Rightarrow> bool"

fun class_rest :: "(char \<Rightarrow> bool) \<Rightarrow> string \<Rightarrow> string list" where
  "class_rest p [] = []"
| "class_rest p (c # cs) = (if p c then [cs] else [])"

fun rep_rest :: "nat \<Rightarrow> (char \<Rightarrow> bool) \<Rightarrow> string \<Rightarrow> string list" where
  "rep_rest n p [] = [[]]"
| "rep_rest n p (c # cs) = (c # cs) # (if 0 < n \<and> p c then rep_rest (n - 1) p cs else [])"

fun plus_rest :: "(char \<Rightarrow> bool) \<Rightarrow> string \<Rightarrow> string list" where
  "plus_rest p [] = []"
| "plus_rest p (c # cs) = (if p c then cs # plus_rest p cs else [])"

fun rx_rest :: "regex \<Rightarrow> string \<Rightarrow> string list" where
  "rx_rest (Class p) s = class_rest p s"
| "rx_rest (Seq a b) s = concat (map (rx_rest b) (rx_rest a s))"
| "rx_rest (Opt a) s = s # rx_rest a s"
| "rx_rest (RepMax n p) s = rep_rest n p s"
| "rx_rest (Plus p) s = plus_rest p s"

definition MatchAnchored :: "regex \<Rightarrow> string \<Rightarrow> bool" where
  "MatchAnchored r s \<longleftrightarrow> [] \<in> set (rx_rest r s)"

lemma set_class_rest: "set (class_rest p s) = {t. \<exists>c. s = c # t \<and> p c}"
  by (cases s) auto

lemma set_rep_rest: "set (rep_rest n p s) = {t. \<exists>u. s = u @ t \<and> length u \<le> n \<and> (\<forall>c \<in> set u. p c)}"
proof (induction n p s rule: rep_rest.induct)
  case (2 n p c cs)
  have "(\<exists>u. c # cs = u @ t \<and> length u \<le> n \<and> (\<forall>x \<in> set u. p x)) \<longleftrightarrow>
      t = c # cs \<or> 0 < n \<and> p c \<and> (\<exists>u. cs = u @ t \<and> length u \<le> n - 1 \<and> (\<forall>x \<in> set u. p x))" for t
  proof
    assume "\<exists>u. c # cs = u @ t \<and> length u \<le> n \<and> (\<forall>x \<in> set u. p x)"
    then obtain u where u: "c # cs = u @ t" "length u \<le> n" "\<forall>x \<in> set u. p x" by blast
    then show "t = c # cs \<or> 0 < n \<and> p c \<and> (\<exists>u. cs = u @ t \<and> length u \<le> n - 1 \<and> (\<forall>x \<in> set u. p x))"
      by (cases u) auto
  next
    assume "t = c # cs \<or> 0 < n \<and> p c \<and> (\<exists>u. cs = u @ t \<and> length u \<le> n - 1 \<and> (\<forall>x \<in> set u. p x))"
    then show "\<exists>u. c # cs = u @ t \<and> length u \<le> n \<and> (\<forall>x \<in> set u. p x)"
    proof
      assume "0 < n \<and> p c \<and> (\<exists>u. cs = u @ t \<and> length u \<le> n - 1 \<and> (\<forall>x \<in> set u. p x))"
      then obtain u where "0 < n" "p c" "cs = u @ t" "length u \<le> n - 1" "\<forall>x \<in> set u. p x" by blast
      then show ?thesis by (intro exI [of _ "c # u"]) auto
    qed auto
  qed
  with 2 show ?case by auto
qed auto

lemma set_plus_rest: "set (plus_rest p s) = {t. \<exists>u. s = u @ t \<and> u \<noteq> [] \<and> (\<forall>c \<in> set u. p c)}"
proof (induction s)
  case (Cons c cs)
  have "(\<exists>u. c # cs = u @ t \<and> u \<noteq> [] \<and> (\<forall>x \<in> set u. p x)) \<longleftrightarrow>
      p c \<and> (t = cs \<or> (\<exists>u. cs = u @ t \<and> u \<noteq> [] \<and> (\<forall>x \<in> set u. p x)))" for t
  proof
    assume "\<exists>u. c # cs = u @ t \<and> u \<noteq> [] \<and> (\<forall>x \<in> set u. p x)"
    then obtain u where u: "c # cs = u @ t" "u \<noteq> []" "\<forall>x \<in> set u. p x" by blast
    then obtain v where "u = c # v" "cs = v @ t" by (cases u) auto
    with u show "p c \<and> (t = cs \<or> (\<exists>u. cs = u @ t \<and> u \<noteq> [] \<and> (\<forall>x \<in> set u. p x)))"
      by (cases v) auto
  next
    assume r: "p c \<and> (t = cs \<or> (\<exists>u. cs = u @ t \<and> u \<noteq> [] \<and> (\<forall>x \<in> set u. p x)))"
    then obtain v where "cs = v @ t" "\<forall>x \<in> set v. p x"
      by (metis append_Nil empty_iff list.set(1))
    with r show "\<exists>u. c # cs = u @ t \<and> u \<noteq> [] \<and> (\<forall>x \<in> set u. p x)"
      by (intro exI [of _ "c # v"]) auto
  qed
  with Cons show ?case by auto
qed auto

lemmas rx_rest_sets = set_class_rest set_rep_rest set_plus_rest

end
