(* ===== verification/GoNet.thy ===== *)
theory GoNet
  imports GoStrings
begin

text \<open>
  \<open>net.ParseIP\<close>, \<open>net.IP.To4\<close> and \<open>net.IP.String\<close> of Go's standard library, as the endpoint
  package, the Docker source and the RFC2136 provider call them.  An address is a list of bytes;
  the zero-length \<open>nil\<close> of a failed parse is \<^const>\<open>None\<close>.  The parsers follow
  \<open>net/netip\<close>: the first of \<open>.\<close>, \<open>:\<close> and \<open>%\<close> decides which grammar applies.

  Shown here: the dotted-decimal grammar is canonical.  Every IPv4 address prints to a text that
  parses back to it, and every accepted dotted text is the printed form of what it parses to.
\<close>

type_synonym byte = "8 word"
type_synonym ip = "byte list"

definition v4InV6Prefix :: ip where
  "v4InV6Prefix = replicate 10 0 @ [255, 255]"


section \<open>Parsing\<close>

text \<open>
  \<open>parseIPv4Fields val digLen fields s\<close>: the loop of \<open>netip.parseIPv4Fields\<close>.  A dot is refused
  at the start, at the end and after another dot, that is, when no digit was read since the last
  dot or nothing follows.
\<close>

fun parseIPv4Fields :: "nat \<Rightarrow> nat \<Rightarrow> byte list \<Rightarrow> string \<Rightarrow> byte list option" where
  "parseIPv4Fields val digLen fields [] =
     (if length fields < 3 then None else Some (fields @ [of_nat val]))"
| "parseIPv4Fields val digLen fields (c # cs) =
     (if is_digit c then
        (if digLen = 1 \<and> val = 0 then None
         else if val * 10 + digit_val c > 255 then None
         else parseIPv4Fields (val * 10 + digit_val c) (Suc digLen) fields cs)
      else if c = CHR ''.'' then
        (if digLen = 0 \<or> cs = [] then None
         else if length fields = 3 then None
         else parseIPv4Fields 0 0 (fields @ [of_nat val]) cs)
      else None)"

definition hex_val :: "char \<Rightarrow> nat option" where
  "hex_val c = (let n = of_char c :: nat in
     if 48 \<le> n \<and> n \<le> 57 then Some (n - 48)
     else if 97 \<le> n \<and> n \<le> 102 then Some (n - 87)
     else if 65 \<le> n \<and> n \<le> 70 then Some (n - 55)
     else None)"

text \<open>One hexadecimal group: digits read, value, what follows; a fifth digit is an error.\<close>

fun hexGroup :: "nat \<Rightarrow> nat \<Rightarrow> string \<Rightarrow> (nat \<times> nat \<times> string) option" where
  "hexGroup off acc [] = Some (off, acc, [])"
| "hexGroup off acc (c # cs) = (case hex_val c of
     None \<Rightarrow> Some (off, acc, c # cs)
   | Some d \<Rightarrow> if off > 3 then None else hexGroup (Suc off) (acc * 16 + d) cs)"

text \<open>
  The main loop of \<open>netip.parseIPv6\<close>: the first argument counts the 16-bit groups that still
  fit, the second is the position of \<open>::\<close>, the third the bytes read so far.
\<close>

fun parseIPv6Groups ::
  "nat \<Rightarrow> nat option \<Rightarrow> byte list \<Rightarrow> string \<Rightarrow> (byte list \<times> nat option \<times> string) option"
where
  "parseIPv6Groups 0 ellipsis ip s = Some (ip, ellipsis, s)"
| "parseIPv6Groups (Suc k) ellipsis ip s = (case hexGroup 0 0 s of
     None \<Rightarrow> None
   | Some (off, acc, rest) \<Rightarrow>
       if off = 0 then None
       else if rest \<noteq> [] \<and> hd rest = CHR ''.'' then
         (if ellipsis = None \<and> length ip \<noteq> 12 then None
          else if length ip + 4 > 16 then None
          else case parseIPv4Fields 0 0 [] s of
                 None \<Rightarrow> None
               | Some fs \<Rightarrow> Some (ip @ fs, ellipsis, []))
       else
         (let ip' = ip @ [of_nat (acc div 256), of_nat acc] in
          case rest of
            [] \<Rightarrow> Some (ip', ellipsis, [])
          | c # cs \<Rightarrow>
              if c \<noteq> CHR '':'' then None
              else if cs = [] then None
              else if hd cs = CHR '':'' then
                (if ellipsis \<noteq> None then None
                 else if tl cs = [] then Some (ip', Some (length ip'), [])
                 else parseIPv6Groups k (Some (length ip')) ip' (tl cs))
              else parseIPv6Groups k ellipsis ip' cs))"

text \<open>A zone (\<open>%eth0\<close>) makes \<open>net.ParseIP\<close> fail, so a text with \<open>%\<close> never parses.\<close>

definition parseIPv6 :: "string \<Rightarrow> ip option" where
  "parseIPv6 s =
     (if CHR ''%'' \<in> set s then None
      else
        (let (ellipsis, s1) = (if take 2 s = ''::'' then (Some 0, drop 2 s) else (None, s)) in
         if ellipsis = Some 0 \<and> s1 = [] then Some (replicate 16 0)
         else case parseIPv6Groups 8 ellipsis [] s1 of
           None \<Rightarrow> None
         | Some (ip, ellipsis', rest) \<Rightarrow>
             if rest \<noteq> [] then None
             else if length ip < 16 then
               (case ellipsis' of
                  None \<Rightarrow> None
                | Some e \<Rightarrow> Some (take e ip @ replicate (16 - length ip) 0 @ drop e ip))
             else if ellipsis' \<noteq> None then None
             else Some ip))"

fun addrKind :: "string \<Rightarrow> char option" where
  "addrKind [] = None"
| "addrKind (c # cs) = (if c = CHR ''.'' \<or> c = CHR '':'' \<or> c = CHR ''%'' then Some c else addrKind cs)"

definition ParseIP :: "string \<Rightarrow> ip option" where
  "ParseIP s = (case addrKind s of
     None \<Rightarrow> None
   | Some c \<Rightarrow>
       if c = CHR ''.'' then map_option (\<lambda>fs. v4InV6Prefix @ fs) (parseIPv4Fields 0 0 [] s)
       else if c = CHR '':'' then parseIPv6 s
       else None)"

definition To4 :: "ip \<Rightarrow> ip option" where
  "To4 ip =
     (if length ip = 4 then Some ip
      else if length ip = 16 \<and> take 12 ip = v4InV6Prefix then Some (drop 12 ip)
      else None)"


section \<open>Printing\<close>

definition hex_char :: "nat \<Rightarrow> char" where
  "hex_char d = (if d < 10 then char_of (48 + d) else char_of (87 + d))"

fun showHex :: "nat \<Rightarrow> string" where
  "showHex n = (if n < 16 then [hex_char n] else showHex (n div 16) @ [hex_char (n mod 16)])"

declare showHex.simps [simp del]

fun groups16 :: "ip \<Rightarrow> nat list" where
  "groups16 (a # b # bs) = (unat a * 256 + unat b) # groups16 bs"
| "groups16 _ = []"

text \<open>The first longest run of at least two zero groups, as a half-open interval.\<close>

definition zeroRun :: "nat list \<Rightarrow> nat \<times> nat" where
  "zeroRun gs =
     fold (\<lambda>i (zs, ze).
         let l = length (takeWhile (\<lambda>g. g = 0) (drop i gs))
         in if l \<ge> 2 \<and> l > ze - zs then (i, i + l) else (zs, ze))
       [0..<length gs] (255, 255)"

definition String6 :: "ip \<Rightarrow> string" where
  "String6 ip =
     (let gs = groups16 ip; (zs, ze) = zeroRun gs; pr = (\<lambda>g. Join (map showHex g) '':'') in
      if zs < length gs then pr (take zs gs) @ ''::'' @ pr (drop ze gs) else pr gs)"

definition String4 :: "ip \<Rightarrow> string" where
  "String4 ip = Join (map (\<lambda>b. showNat (unat b)) ip) ''.''"

definition IP_String :: "ip \<Rightarrow> string" where
  "IP_String ip =
     (if ip = [] then ''<nil>''
      else case To4 ip of
        Some p4 \<Rightarrow> String4 p4
      | None \<Rightarrow> if length ip = 16 then String6 ip
                else ''?'' @ concat (map (\<lambda>b. [hex_char (unat b div 16), hex_char (unat b mod 16)]) ip))"


section \<open>Lengths\<close>

lemma parseIPv4Fields_length:
  "parseIPv4Fields v d fs s = Some ip \<Longrightarrow> length fs \<le> 3 \<Longrightarrow> length ip = 4"
  by (induction v d fs s rule: parseIPv4Fields.induct) (auto split: if_splits)

lemma parseIPv6Groups_length:
  "parseIPv6Groups k ell ip s = Some (ip', ell', r) \<Longrightarrow> length ip + 2 * k \<le> 16 \<Longrightarrow> length ip' \<le> 16"
proof (induction k arbitrary: ell ip s)
  case (Suc k)
  from Suc.prems(1) obtain off acc rest where h: "hexGroup 0 0 s = Some (off, acc, rest)" "off \<noteq> 0"
    by (auto split: option.splits if_splits)
  let ?ip = "ip @ [of_nat (acc div 256), of_nat acc]"
  show ?case
  proof (cases "rest \<noteq> [] \<and> hd rest = CHR ''.''")
    case True
    then have "length ip + 4 \<le> 16" "\<exists>fs. parseIPv4Fields 0 0 [] s = Some fs \<and> ip' = ip @ fs"
      using Suc.prems(1) h by (auto split: option.splits if_splits)
    then show ?thesis by (auto dest: parseIPv4Fields_length)
  next
    case False
    with h Suc.prems(1)
    have "ip' = ?ip \<or> (\<exists>e t. parseIPv6Groups k e ?ip t = Some (ip', ell', r))"
      by (auto simp: Let_def split: if_splits list.splits)
    then show ?thesis using Suc.prems(2) by (auto dest: Suc.IH)
  qed
qed simp

lemma parseIPv6_length:
  assumes "parseIPv6 s = Some ip"
  shows "length ip = 16"
proof -
  have expand: "length (take e b @ replicate (16 - length b) (0 :: byte) @ drop e b) = 16"
    if "length b < 16" for e and b :: ip
    using that by simp
  from assms show ?thesis
    by (auto simp: parseIPv6_def Let_def expand split: if_splits option.splits prod.splits
        dest!: parseIPv6Groups_length [where ip = "[]"])
qed

lemma ParseIP_length: "ParseIP s = Some ip \<Longrightarrow> length ip = 16"
  by (auto simp: ParseIP_def v4InV6Prefix_def dest: parseIPv6_length parseIPv4Fields_length
      split: option.splits if_splits)

lemma To4_length: "To4 ip = Some b \<Longrightarrow> length b = 4"
  by (auto simp: To4_def split: if_splits)

lemma To4_mapped [simp]: "length b = 4 \<Longrightarrow> To4 (v4InV6Prefix @ b) = Some b"
  by (simp add: To4_def v4InV6Prefix_def)

lemma To4_id [simp]: "length b = 4 \<Longrightarrow> To4 b = Some b"
  by (simp add: To4_def)

lemma To4_unmap: "To4 ip = Some b \<Longrightarrow> length ip = 16 \<Longrightarrow> ip = v4InV6Prefix @ b"
  by (auto simp: To4_def split: if_splits) (metis append_take_drop_id)

lemma IP_String_v4: "length b = 4 \<Longrightarrow> IP_String b = String4 b"
  by (auto simp: IP_String_def)

lemma IP_String_mapped: "length b = 4 \<Longrightarrow> IP_String (v4InV6Prefix @ b) = String4 b"
  by (auto simp: IP_String_def v4InV6Prefix_def To4_def)



section \<open>Dotted decimals are canonical\<close>

lemma showNat_small:
  "n < 10 \<Longrightarrow> showNat n = [digit_char n]"
  "10 \<le> n \<Longrightarrow> n < 100 \<Longrightarrow> showNat n = [digit_char (n div 10), digit_char (n mod 10)]"
  "100 \<le> n \<Longrightarrow> n < 1000 \<Longrightarrow>
     showNat n = [digit_char (n div 100), digit_char (n div 10 mod 10), digit_char (n mod 10)]"
proof -
  show "n < 10 \<Longrightarrow> showNat n = [digit_char n]" by (simp add: showNat.simps [of n])
  show "10 \<le> n \<Longrightarrow> n < 100 \<Longrightarrow> showNat n = [digit_char (n div 10), digit_char (n mod 10)]"
    by (simp add: showNat.simps [of n] showNat.simps [of "n div 10"])
  assume n: "100 \<le> n" "n < 1000"
  then have "\<not> n < 10" "\<not> n div 10 < 10" "n div 100 < 10" "n div 10 div 10 = n div 100" by auto
  then show "showNat n = [digit_char (n div 100), digit_char (n div 10 mod 10), digit_char (n mod 10)]"
    by (simp add: showNat.simps [of n] showNat.simps [of "n div 10"] showNat.simps [of "n div 100"])
qed

text \<open>Reading the printed form of a byte.\<close>

lemma parseIPv4Fields_showNat:
  assumes "n < 256"
  shows "parseIPv4Fields 0 0 fs (showNat n @ rest) = parseIPv4Fields n (length (showNat n)) fs rest"
proof -
  consider "n < 10" | "10 \<le> n" "n < 100" | "100 \<le> n" "n < 256" using assms by linarith
  then show ?thesis
  proof cases
    case 1
    then show ?thesis by (simp add: showNat_small)
  next
    case 2
    then have d: "0 < n div 10" "n div 10 < 10" "\<not> 255 < n div 10" "n div 10 * 10 + n mod 10 = n"
      by auto
    with 2 show ?thesis by (auto simp: showNat_small)
  next
    case 3
    have "n div 100 = n div 10 div 10" by (simp flip: div_mult2_eq)
    then have e: "n div 100 * 10 + n div 10 mod 10 = n div 10" by simp
    have "(n div 100 * 10 + n div 10 mod 10) * 10 + n mod 10 = n" unfolding e by simp
    moreover have "0 < n div 100" "n div 100 < 10" "\<not> 255 < n div 100" using 3 by auto
    moreover have "n div 100 * 10 + n div 10 mod 10 \<le> 255" using 3 by auto
    ultimately show ?thesis using 3 by (simp add: showNat_small)
  qed
qed

lemma not_digit_dot [simp]: "\<not> is_digit CHR ''.''"
  by (simp add: is_digit_def)

lemma parseIPv4Fields_String4:
  assumes "length b = 4"
  shows "parseIPv4Fields 0 0 [] (String4 b) = Some b"
proof -
  obtain w x y z where b: "b = [w, x, y, z]"
    using assms by (auto simp: numeral_eq_Suc length_Suc_conv)
  have u: "unat v < 256" for v :: byte using unsigned_less [of v] by simp
  note field = parseIPv4Fields_showNat [OF u]
  have last: "parseIPv4Fields 0 0 fs (showNat (unat v)) = parseIPv4Fields (unat v) (length (showNat (unat v))) fs []"
    for fs and v :: byte
    using field [where rest = "[]"] by simp
  show ?thesis by (simp add: b String4_def field last)
qed

lemma digit_not_kind [simp]: "is_digit c \<Longrightarrow> c \<noteq> CHR ''.'' \<and> c \<noteq> CHR '':'' \<and> c \<noteq> CHR ''%''"
  by (auto simp: is_digit_def)

lemma addrKind_digits: "\<forall>c \<in> set ds. is_digit c \<Longrightarrow> addrKind (ds @ s) = addrKind s"
  by (induction ds) simp_all

lemma addrKind_String4: "length b = 4 \<Longrightarrow> addrKind (String4 b) = Some CHR ''.''"
  by (auto simp: numeral_eq_Suc length_Suc_conv String4_def addrKind_digits showNat_digits)

theorem ParseIP_String4: "length b = 4 \<Longrightarrow> ParseIP (String4 b) = Some (v4InV6Prefix @ b)"
  by (simp add: ParseIP_def addrKind_String4 parseIPv4Fields_String4)

text \<open>A digit string without a leading zero is what \<^const>\<open>showNat\<close> prints for its value.\<close>

definition plain_digits :: "string \<Rightarrow> bool" where
  "plain_digits ds \<longleftrightarrow> (\<forall>c \<in> set ds. is_digit c) \<and> (length ds > 1 \<longrightarrow> digit_val (hd ds) \<noteq> 0)"

lemma digit_char_val: "is_digit c \<Longrightarrow> digit_char (digit_val c) = c"
  by (auto simp: is_digit_def digit_char_def digit_val_def)

lemma digit_val_less: "is_digit c \<Longrightarrow> digit_val c < 10"
  by (auto simp: is_digit_def digit_val_def)

lemma dec_val_snoc: "dec_val a (ds @ [c]) = dec_val a ds * 10 + digit_val c"
  by (simp add: dec_val_def)

lemma plain_digits_pos: "plain_digits ds \<Longrightarrow> length ds > 1 \<Longrightarrow> dec_val 0 ds > 0"
proof (cases ds)
  case (Cons c cs)
  assume "plain_digits ds" "length ds > 1"
  with Cons have "digit_val c > 0" by (simp add: plain_digits_def)
  also have "digit_val c \<le> dec_val (digit_val c) cs" by (rule dec_val_mono)
  finally show ?thesis using Cons by (simp add: dec_val_def)
qed (simp add: plain_digits_def)

lemma showNat_dec_val: "plain_digits ds \<Longrightarrow> ds \<noteq> [] \<Longrightarrow> showNat (dec_val 0 ds) = ds"
proof (induction ds rule: rev_induct)
  case (snoc c ds)
  then have c: "is_digit c" by (simp add: plain_digits_def)
  show ?case
  proof (cases "ds = []")
    case True
    with c show ?thesis
      by (simp add: dec_val_def showNat_small digit_val_less digit_char_val)
  next
    case False
    with snoc.prems have pd: "plain_digits ds" by (cases ds) (auto simp: plain_digits_def)
    moreover have "dec_val 0 ds > 0"
    proof (cases "length ds > 1")
      case True
      with pd show ?thesis by (rule plain_digits_pos)
    next
      case single: False
      with False obtain d where "ds = [d]" by (cases ds) auto
      with snoc.prems show ?thesis by (simp add: plain_digits_def dec_val_def)
    qed
    moreover have "showNat (dec_val 0 ds) = ds" using snoc.IH pd False by simp
    ultimately show ?thesis
      using c digit_val_less [OF c]
      by (subst showNat.simps) (simp add: dec_val_snoc digit_char_val)
  qed
qed simp

lemma String4_Cons:
  "String4 (b # bs) = (if bs = [] then showNat (unat b) else showNat (unat b) @ ''.'' @ String4 bs)"
  by (cases bs) (simp_all add: String4_def)

lemma parseIPv4Fields_canonical:
  "parseIPv4Fields v n fs s = Some ip \<Longrightarrow> v = dec_val 0 ds \<Longrightarrow> n = length ds \<Longrightarrow> plain_digits ds \<Longrightarrow>
    v \<le> 255 \<Longrightarrow> ds \<noteq> [] \<or> s \<noteq> [] \<Longrightarrow> \<exists>tl. ip = fs @ tl \<and> tl \<noteq> [] \<and> String4 tl = ds @ s"
proof (induction v n fs s arbitrary: ds rule: parseIPv4Fields.induct)
  case (1 v n fs)
  then have "unat (of_nat v :: byte) = v" by (simp add: unat_of_nat)
  with 1 show ?case by (auto simp: String4_def showNat_dec_val split: if_splits)
next
  case (2 v n fs c cs)
  show ?case
  proof (cases "is_digit c")
    case True
    with "2.prems" have ok: "\<not> (n = 1 \<and> v = 0)" "v * 10 + digit_val c \<le> 255"
      and rec: "parseIPv4Fields (v * 10 + digit_val c) (Suc n) fs cs = Some ip"
      by (auto split: if_splits)
    have "plain_digits (ds @ [c])"
      using "2.prems"(2-4) ok(1) True
      by (cases ds) (auto simp: plain_digits_def dec_val_def)
    then have "\<exists>tl. ip = fs @ tl \<and> tl \<noteq> [] \<and> String4 tl = (ds @ [c]) @ cs"
      using "2.IH"(1)[OF True ok(1) _ rec, of "ds @ [c]"] ok(2) "2.prems"(2,3)
      by (simp add: dec_val_snoc)
    then show ?thesis by simp
  next
    case False
    with "2.prems" have dot: "c = CHR ''.''" "n \<noteq> 0" "cs \<noteq> []" "length fs \<noteq> 3"
      and rec: "parseIPv4Fields 0 0 (fs @ [of_nat v]) cs = Some ip"
      by (auto split: if_splits)
    then obtain tl where tl: "ip = (fs @ [of_nat v]) @ tl" "tl \<noteq> []" "String4 tl = cs"
      using "2.IH"(2)[OF False dot(1) _ _ rec, of "[]"] by (auto simp: dec_val_def plain_digits_def)
    have "unat (of_nat v :: byte) = v" using "2.prems"(5) by (simp add: unat_of_nat)
    moreover have "showNat v = ds" using "2.prems"(2-4) dot(2) by (auto simp: showNat_dec_val)
    ultimately show ?thesis using tl dot(1) by (auto simp: String4_Cons)
  qed
qed

theorem ParseIP_dotted_canonical:
  assumes "ParseIP s = Some ip" and "addrKind s = Some CHR ''.''"
  shows "\<exists>b. ip = v4InV6Prefix @ b \<and> length b = 4 \<and> String4 b = s"
proof -
  from assms obtain b where b: "parseIPv4Fields 0 0 [] s = Some b" "ip = v4InV6Prefix @ b"
    by (auto simp: ParseIP_def)
  have "s \<noteq> []" using assms(2) by auto
  then have "String4 b = s"
    using parseIPv4Fields_canonical [OF b(1), of "[]"] by (auto simp: dec_val_def plain_digits_def)
  with b show ?thesis using parseIPv4Fields_length [OF b(1)] by simp
qed

end
