(* ===== verification/Endpoint.thy ===== *)
theory Endpoint
  imports GoNet
begin

text \<open>
  \<open>pkg/endpoint/endpoint.go\<close>: the \<open>Endpoint\<close> record, its constructor, its printed form and the
  inference of a record type from a target.  \<open>Labels\<close> is a Go map; the \<open>nil\<close> map the callers
  pass is \<^const>\<open>None\<close>.

  Shown here: a constructed endpoint never has TTL 0, and inference gives \<open>A\<close> exactly to the
  targets with a 4-byte form and \<open>AAAA\<close> to the other addresses.
\<close>

definition RecordTypeA :: string where [simp]: "RecordTypeA = ''A''"
definition RecordTypeAAAA :: string where [simp]: "RecordTypeAAAA = ''AAAA''"
definition RecordTypeCNAME :: string where [simp]: "RecordTypeCNAME = ''CNAME''"
definition RecordTypeTXT :: string where [simp]: "RecordTypeTXT = ''TXT''"

definition DefaultTTL :: int where [simp]: "DefaultTTL = 300"

record endpoint =
  DNSName :: string
  Targets :: "string list"
  RecordType :: string
  TTL :: int
  Labels :: "(string, string) gomap"

definition endpoint_New ::
  "string \<Rightarrow> string list \<Rightarrow> string \<Rightarrow> int \<Rightarrow> (string, string) gomap option \<Rightarrow> endpoint"
where
  "endpoint_New dnsName targets recordType ttl labels =
     (let ttl = (if ttl = 0 then DefaultTTL else ttl);
          labels = (case labels of None \<Rightarrow> [] | Some m \<Rightarrow> m)
      in \<lparr>DNSName = dnsName, Targets = targets, RecordType = recordType, TTL = ttl, Labels = labels\<rparr>)"

definition endpoint_String :: "endpoint \<Rightarrow> string" where
  "endpoint_String e =
     DNSName e @ '' '' @ RecordType e @ '' '' @ Join (Targets e) '','' @ '' (TTL '' @ itoa (TTL e) @ '')''"

definition InferRecordType :: "string \<Rightarrow> string" where
  "InferRecordType target = (case ParseIP target of
     None \<Rightarrow> RecordTypeCNAME
   | Some ip \<Rightarrow> if To4 ip \<noteq> None then RecordTypeA else RecordTypeAAAA)"

lemma endpoint_New_sel [simp]:
  "DNSName (endpoint_New n ts rt ttl ls) = n"
  "Targets (endpoint_New n ts rt ttl ls) = ts"
  "RecordType (endpoint_New n ts rt ttl ls) = rt"
  "TTL (endpoint_New n ts rt ttl ls) = (if ttl = 0 then 300 else ttl)"
  "Labels (endpoint_New n ts rt ttl None) = []"
  by (simp_all add: endpoint_New_def Let_def)

lemma endpoint_New_TTL_nonzero: "TTL (endpoint_New n ts rt ttl ls) \<noteq> 0"
  by simp

lemma InferRecordType_range: "InferRecordType t \<in> {''A'', ''AAAA'', ''CNAME''}"
  by (simp add: InferRecordType_def split: option.splits)

lemma InferRecordType_A: "InferRecordType t = ''A'' \<longleftrightarrow> (\<exists>ip. ParseIP t = Some ip \<and> To4 ip \<noteq> None)"
  by (simp add: InferRecordType_def split: option.splits)

lemma InferRecordType_AAAA: "InferRecordType t = ''AAAA'' \<longleftrightarrow> (\<exists>ip. ParseIP t = Some ip \<and> To4 ip = None)"
  by (simp add: InferRecordType_def split: option.splits)

lemma InferRecordType_CNAME: "InferRecordType t = ''CNAME'' \<longleftrightarrow> ParseIP t = None"
  by (simp add: InferRecordType_def split: option.splits)

end
