(* ===== verification/Plan.thy ===== *)
theory Plan
  imports Endpoint
begin

text \<open>
  \<open>pkg/plan\<close>: the diff engine.  \<open>Calculate\<close> compares the desired endpoints with the current ones
  and returns the changes that bring DNS to the desired state, touching only names whose
  ownership TXT record carries this plan's owner ID.

  The two \<open>for ... range\<close> loops over Go maps take their iteration orders \<open>rd\<close> and \<open>rc\<close> as
  arguments.  The first group of lemmas gives each loop a closed form, the second describes the
  owned set and the indexes, and the properties at the end state what a change set contains.
\<close>


section \<open>Changes\<close>

record changes =
  Create :: "endpoint list"
  UpdateOld :: "endpoint list"
  UpdateNew :: "endpoint list"
  Delete :: "endpoint list"

definition no_changes :: changes where
  "no_changes = \<lparr>Create = [], UpdateOld = [], UpdateNew = [], Delete = []\<rparr>"

definition IsEmpty :: "changes \<Rightarrow> bool" where
  "IsEmpty c \<longleftrightarrow>
     length (Create c) = 0 \<and> length (UpdateOld c) = 0 \<and> length (UpdateNew c) = 0 \<and> length (Delete c) = 0"

lemma no_changes_sel [simp]:
  "Create no_changes = []" "UpdateOld no_changes = []" "UpdateNew no_changes = []" "Delete no_changes = []"
  by (simp_all add: no_changes_def)

lemma IsEmpty_iff: "IsEmpty c \<longleftrightarrow> Create c = [] \<and> UpdateOld c = [] \<and> UpdateNew c = [] \<and> Delete c = []"
  by (simp add: IsEmpty_def)


section \<open>Ownership records\<close>

definition ownerPrefix :: string where
  "ownerPrefix = ''external-dns-docker-owner.''"

definition DefaultOwnerID :: string where
  "DefaultOwnerID = ''external-dns-docker''"

definition ownershipTTL :: int where [simp]: "ownershipTTL = 300"

definition ownershipValue :: "string \<Rightarrow> string" where
  "ownershipValue ownerID = ''heritage=external-dns-docker,external-dns-docker/owner='' @ ownerID"

definition ownershipName :: "string \<Rightarrow> string" where
  "ownershipName dnsName = ownerPrefix @ dnsName"

record plan =
  ownerID :: string

definition plan_New :: "string \<Rightarrow> plan" where
  "plan_New oid = \<lparr>ownerID = (if oid = [] then DefaultOwnerID else oid)\<rparr>"

definition ownershipTXTFor :: "plan \<Rightarrow> string \<Rightarrow> endpoint" where
  "ownershipTXTFor p dnsName =
     endpoint_New (ownershipName dnsName) [ownershipValue (ownerID p)] RecordTypeTXT ownershipTTL None"

definition isOwnershipTXT :: "endpoint \<Rightarrow> bool" where
  "isOwnershipTXT ep \<longleftrightarrow> RecordType ep = RecordTypeTXT \<and> HasPrefix (DNSName ep) ownerPrefix"

text \<open>The inner loop of \<open>buildOwnedSet\<close>, with its \<open>break\<close>.\<close>

fun markOwned :: "string \<Rightarrow> string \<Rightarrow> string list \<Rightarrow> (string, bool) gomap \<Rightarrow> (string, bool) gomap" where
  "markOwned want managedName [] owned = owned"
| "markOwned want managedName (v # vs) owned =
     (if v = want then AList.update managedName True owned else markOwned want managedName vs owned)"

definition buildOwnedStep :: "string \<Rightarrow> endpoint \<Rightarrow> (string, bool) gomap \<Rightarrow> (string, bool) gomap" where
  "buildOwnedStep want ep owned =
     (if RecordType ep \<noteq> RecordTypeTXT then owned
      else if \<not> HasPrefix (DNSName ep) ownerPrefix then owned
      else markOwned want (TrimPrefix (DNSName ep) ownerPrefix) (Targets ep) owned)"

definition buildOwnedSet :: "plan \<Rightarrow> endpoint list \<Rightarrow> (string, bool) gomap" where
  "buildOwnedSet p current = fold (buildOwnedStep (ownershipValue (ownerID p))) current []"

text \<open>\<open>owned[name]\<close> of a \<open>map[string]bool\<close>: \<open>false\<close> where the key is missing.\<close>

definition ownedAt :: "(string, bool) gomap \<Rightarrow> string \<Rightarrow> bool" where
  "ownedAt owned n = (case map_of owned n of Some b \<Rightarrow> b | None \<Rightarrow> False)"

definition filterOwnershipTXTs :: "endpoint list \<Rightarrow> endpoint list" where
  "filterOwnershipTXTs eps =
     filter (\<lambda>ep. \<not> (RecordType ep = RecordTypeTXT \<and> HasPrefix (DNSName ep) ownerPrefix)) eps"


section \<open>Indexing and comparing\<close>

definition epKey :: "endpoint \<Rightarrow> string" where
  "epKey ep = DNSName ep @ ''|'' @ RecordType ep"

definition indexEndpoints :: "endpoint list \<Rightarrow> (string, endpoint) gomap" where
  "indexEndpoints eps = fold (\<lambda>ep. AList.update (epKey ep) ep) eps []"

definition sortedCopy :: "string list \<Rightarrow> string list" where
  "sortedCopy s = sort s"

fun sameElements :: "string list \<Rightarrow> string list \<Rightarrow> bool" where
  "sameElements (a # as) (b # bs) = (if a \<noteq> b then False else sameElements as bs)"
| "sameElements _ _ = True"

definition endpointsEqual :: "endpoint \<Rightarrow> endpoint \<Rightarrow> bool" where
  "endpointsEqual a b =
     (if TTL a \<noteq> TTL b then False
      else if length (Targets a) \<noteq> length (Targets b) then False
      else sameElements (sortedCopy (Targets a)) (sortedCopy (Targets b)))"


section \<open>Calculate\<close>

definition walkDesired ::
  "plan \<Rightarrow> (string, bool) gomap \<Rightarrow> (string, endpoint) gomap \<Rightarrow> string \<times> endpoint \<Rightarrow> changes \<Rightarrow> changes"
where
  "walkDesired p owned currentIdx kw c = (case kw of (key, want) \<Rightarrow>
     (case map_of currentIdx key of
        None \<Rightarrow> c\<lparr>Create := Create c @ [want, ownershipTXTFor p (DNSName want)]\<rparr>
      | Some have \<Rightarrow>
          if \<not> ownedAt owned (DNSName want) then c
          else if \<not> endpointsEqual have want then
            c\<lparr>UpdateOld := UpdateOld c @ [have], UpdateNew := UpdateNew c @ [want]\<rparr>
          else c))"

definition walkCurrent ::
  "plan \<Rightarrow> (string, bool) gomap \<Rightarrow> (string, endpoint) gomap \<Rightarrow> string \<times> endpoint \<Rightarrow> changes \<Rightarrow> changes"
where
  "walkCurrent p owned desiredIdx kh c = (case kh of (key, have) \<Rightarrow>
     (case map_of desiredIdx key of
        Some _ \<Rightarrow> c
      | None \<Rightarrow>
          if \<not> ownedAt owned (DNSName have) then c
          else c\<lparr>Delete := Delete c @ [have, ownershipTXTFor p (DNSName have)]\<rparr>))"

definition Calculate ::
  "(string, endpoint) range_order \<Rightarrow> (string, endpoint) range_order \<Rightarrow>
   plan \<Rightarrow> endpoint list \<Rightarrow> endpoint list \<Rightarrow> changes"
where
  "Calculate rd rc p desired current =
     (let owned = buildOwnedSet p current;
          currentIdx = indexEndpoints (filterOwnershipTXTs current);
          desiredIdx = indexEndpoints desired;
          c = no_changes;
          c = fold (walkDesired p owned currentIdx) (rd desiredIdx) c
      in fold (walkCurrent p owned desiredIdx) (rc currentIdx) c)"


section \<open>Comparing targets is comparing multisets\<close>

lemma sameElements_eq: "length xs = length ys \<Longrightarrow> sameElements xs ys \<longleftrightarrow> xs = ys"
  by (induction xs ys rule: list_induct2) auto

lemma endpointsEqual_iff:
  "endpointsEqual a b \<longleftrightarrow> TTL a = TTL b \<and> mset (Targets a) = mset (Targets b)"
proof -
  have "sort (Targets a) = sort (Targets b) \<longleftrightarrow> mset (Targets a) = mset (Targets b)"
    by (metis mset_sort properties_for_sort sorted_sort)
  then show ?thesis
    by (auto simp: endpointsEqual_def sortedCopy_def sameElements_eq dest: mset_eq_length)
qed

lemma endpointsEqual_refl [simp]: "endpointsEqual a a"
  by (simp add: endpointsEqual_iff)


section \<open>The owned set and the indexes\<close>

text \<open>The specification of ownership: an ownership TXT record for the name with our value.\<close>

definition owns :: "plan \<Rightarrow> endpoint list \<Rightarrow> string \<Rightarrow> bool" where
  "owns p current n \<longleftrightarrow>
     (\<exists>ep \<in> set current. RecordType ep = ''TXT'' \<and> DNSName ep = ownershipName n
        \<and> ownershipValue (ownerID p) \<in> set (Targets ep))"

lemma ownedAt_markOwned:
  "ownedAt (markOwned want m vs owned) n \<longleftrightarrow> n = m \<and> want \<in> set vs \<or> ownedAt owned n"
  by (induction vs) (auto simp: ownedAt_def gomap_simps split: option.splits)

lemma ownedAt_step:
  "ownedAt (buildOwnedStep want ep owned) n \<longleftrightarrow>
     RecordType ep = ''TXT'' \<and> DNSName ep = ownershipName n \<and> want \<in> set (Targets ep) \<or> ownedAt owned n"
  by (auto simp: buildOwnedStep_def ownedAt_markOwned ownershipName_def TrimPrefix_restore)

lemma ownedAt_fold:
  "ownedAt (fold (buildOwnedStep want) eps owned) n \<longleftrightarrow>
     (\<exists>ep \<in> set eps. RecordType ep = ''TXT'' \<and> DNSName ep = ownershipName n \<and> want \<in> set (Targets ep))
     \<or> ownedAt owned n"
  by (induction eps arbitrary: owned) (auto simp: ownedAt_step)

lemma ownedAt_buildOwnedSet [simp]: "ownedAt (buildOwnedSet p current) n \<longleftrightarrow> owns p current n"
  unfolding buildOwnedSet_def ownedAt_fold owns_def by (auto simp: ownedAt_def)

lemma filterOwnershipTXTs_eq: "filterOwnershipTXTs eps = filter (\<lambda>ep. \<not> isOwnershipTXT ep) eps"
  by (simp add: filterOwnershipTXTs_def isOwnershipTXT_def)

lemma map_of_index: "map_of (indexEndpoints eps) k = find (\<lambda>ep. epKey ep = k) (rev eps)"
  unfolding indexEndpoints_def
  using gomap.lookup_fill [of epKey "\<lambda>ep. ep" eps "[]" k]
  by (cases "find (\<lambda>ep. epKey ep = k) (rev eps)") simp_all

lemma index_ok [simp]: "gomap_ok (indexEndpoints eps)"
  unfolding indexEndpoints_def by (rule gomap.invar_fill) (rule gomap.invar_empty)

lemma index_mem: "(k, e) \<in> set (indexEndpoints eps) \<longleftrightarrow> find (\<lambda>ep. epKey ep = k) (rev eps) = Some e"
  using gomap.entries_lookup [OF index_ok, of k e eps] by (simp add: map_of_index)

lemma index_memD: "(k, e) \<in> set (indexEndpoints eps) \<Longrightarrow> e \<in> set eps \<and> k = epKey e"
  by (auto simp: index_mem dest: find_rev_Some)

lemma index_Some: "map_of (indexEndpoints eps) k = Some e \<Longrightarrow> e \<in> set eps \<and> k = epKey e"
  by (auto simp: map_of_index dest: find_rev_Some)

lemma index_None: "map_of (indexEndpoints eps) k = None \<longleftrightarrow> k \<notin> epKey ` set eps"
  by (auto simp: map_of_index find_rev_None)

text \<open>When no two endpoints share a key the index holds them all.\<close>

lemma index_unique:
  "inj_on epKey (set eps) \<Longrightarrow> (k, e) \<in> set (indexEndpoints eps) \<longleftrightarrow> e \<in> set eps \<and> k = epKey e"
  by (auto simp: index_mem dest: find_rev_Some intro!: find_rev_unique elim: inj_onD)

lemma epKey_inj:
  assumes "epKey a = epKey b" and "CHR ''|'' \<notin> set (RecordType a)" and "CHR ''|'' \<notin> set (RecordType b)"
  shows "DNSName a = DNSName b \<and> RecordType a = RecordType b"
proof -
  have rev_key: "CutByte (rev (epKey e)) CHR ''|'' = (rev (RecordType e), rev (DNSName e), True)"
    if "CHR ''|'' \<notin> set (RecordType e)" for e
    using that CutByte_append [of "CHR ''|''" "rev (RecordType e)" "rev (DNSName e)"]
    by (simp add: epKey_def)
  show ?thesis using rev_key [OF assms(2)] rev_key [OF assms(3)] assms(1) by simp
qed


section \<open>Closed forms of the two loops\<close>

definition createsOf :: "plan \<Rightarrow> (string, endpoint) gomap \<Rightarrow> string \<times> endpoint \<Rightarrow> endpoint list" where
  "createsOf p ci kw =
     (if map_of ci (fst kw) = None then [snd kw, ownershipTXTFor p (DNSName (snd kw))] else [])"

definition updatesOf ::
  "(string, bool) gomap \<Rightarrow> (string, endpoint) gomap \<Rightarrow> string \<times> endpoint \<Rightarrow> (endpoint \<times> endpoint) list"
where
  "updatesOf owned ci kw = (case map_of ci (fst kw) of
     None \<Rightarrow> []
   | Some h \<Rightarrow> if ownedAt owned (DNSName (snd kw)) \<and> \<not> endpointsEqual h (snd kw) then [(h, snd kw)] else [])"

definition deletesOf ::
  "plan \<Rightarrow> (string, bool) gomap \<Rightarrow> (string, endpoint) gomap \<Rightarrow> string \<times> endpoint \<Rightarrow> endpoint list"
where
  "deletesOf p owned di kh =
     (if map_of di (fst kh) = None \<and> ownedAt owned (DNSName (snd kh))
      then [snd kh, ownershipTXTFor p (DNSName (snd kh))] else [])"

lemma fold_walkDesired:
  "fold (walkDesired p owned ci) xs c =
     c\<lparr>Create := Create c @ concat (map (createsOf p ci) xs),
       UpdateOld := UpdateOld c @ map fst (concat (map (updatesOf owned ci) xs)),
       UpdateNew := UpdateNew c @ map snd (concat (map (updatesOf owned ci) xs))\<rparr>"
proof (induction xs arbitrary: c)
  case (Cons kw xs)
  then show ?case
    by (cases kw) (simp add: walkDesired_def createsOf_def updatesOf_def split: option.splits)
qed simp

lemma fold_walkCurrent:
  "fold (walkCurrent p owned di) xs c = c\<lparr>Delete := Delete c @ concat (map (deletesOf p owned di) xs)\<rparr>"
proof (induction xs arbitrary: c)
  case (Cons kh xs)
  then show ?case
    by (cases kh) (auto simp: walkCurrent_def deletesOf_def split: option.splits)
qed simp

lemma Calculate_sel:
  "Create (Calculate rd rc p desired current) =
     concat (map (createsOf p (indexEndpoints (filterOwnershipTXTs current))) (rd (indexEndpoints desired)))"
  "UpdateOld (Calculate rd rc p desired current) =
     map fst (concat (map (updatesOf (buildOwnedSet p current) (indexEndpoints (filterOwnershipTXTs current)))
       (rd (indexEndpoints desired))))"
  "UpdateNew (Calculate rd rc p desired current) =
     map snd (concat (map (updatesOf (buildOwnedSet p current) (indexEndpoints (filterOwnershipTXTs current)))
       (rd (indexEndpoints desired))))"
  "Delete (Calculate rd rc p desired current) =
     concat (map (deletesOf p (buildOwnedSet p current) (indexEndpoints desired))
       (rc (indexEndpoints (filterOwnershipTXTs current))))"
  by (simp_all add: Calculate_def Let_def fold_walkDesired fold_walkCurrent)

text \<open>The endpoint that stands for its key: the last one of the list with that key.\<close>

definition effective :: "endpoint list \<Rightarrow> endpoint \<Rightarrow> bool" where
  "effective eps e \<longleftrightarrow> find (\<lambda>x. epKey x = epKey e) (rev eps) = Some e"

abbreviation records :: "endpoint list \<Rightarrow> endpoint list" where
  "records \<equiv> filterOwnershipTXTs"

lemma effective_mem: "effective eps e \<Longrightarrow> e \<in> set eps"
  by (auto simp: effective_def dest: find_rev_Some)

lemma index_mem_effective: "(k, e) \<in> set (indexEndpoints eps) \<longleftrightarrow> effective eps e \<and> k = epKey e"
  by (auto simp: index_mem effective_def dest: find_rev_Some)

lemma map_of_index_effective: "map_of (indexEndpoints eps) k = Some e \<longleftrightarrow> effective eps e \<and> k = epKey e"
  by (auto simp: map_of_index effective_def dest: find_rev_Some)

lemma set_index: "set (indexEndpoints eps) = (\<lambda>e. (epKey e, e)) ` {e. effective eps e}"
  using index_mem_effective by fastforce

lemma Some_map_of_index: "Some e = map_of (indexEndpoints eps) k \<longleftrightarrow> effective eps e \<and> k = epKey e"
  using map_of_index_effective by metis

lemma effective_unique: "effective eps a \<Longrightarrow> effective eps b \<Longrightarrow> epKey a = epKey b \<Longrightarrow> a = b"
  by (simp add: effective_def)

lemma effective_exists: "k \<in> epKey ` set eps \<Longrightarrow> \<exists>e. effective eps e \<and> epKey e = k"
  using index_None [of eps k] map_of_index_effective [of eps k] by fastforce

lemma effective_inj: "inj_on epKey (set eps) \<Longrightarrow> effective eps e \<longleftrightarrow> e \<in> set eps"
  using index_unique [of eps "epKey e" e] by (auto simp: index_mem_effective)


section \<open>What a change set contains\<close>

lemma mem_Create:
  "range_ok rd \<Longrightarrow> e \<in> set (Create (Calculate rd rc p desired current)) \<longleftrightarrow>
     (\<exists>w. effective desired w \<and> epKey w \<notin> epKey ` set (records current)
        \<and> (e = w \<or> e = ownershipTXTFor p (DNSName w)))"
  by (simp add: Calculate_sel set_index index_None [symmetric]) (auto simp: createsOf_def split: if_splits)

lemma mem_Updates:
  "range_ok rd \<Longrightarrow>
   (h, w) \<in> set (zip (UpdateOld (Calculate rd rc p desired current)) (UpdateNew (Calculate rd rc p desired current)))
   \<longleftrightarrow> effective desired w \<and> effective (records current) h \<and> epKey h = epKey w
       \<and> owns p current (DNSName w) \<and> \<not> endpointsEqual h w"
  by (auto simp: Calculate_sel updatesOf_def zip_map_fst_snd set_index Some_map_of_index
      split: if_splits option.splits)

lemma mem_Delete:
  "range_ok rc \<Longrightarrow> e \<in> set (Delete (Calculate rd rc p desired current)) \<longleftrightarrow>
     (\<exists>h. effective (records current) h \<and> epKey h \<notin> epKey ` set desired \<and> owns p current (DNSName h)
        \<and> (e = h \<or> e = ownershipTXTFor p (DNSName h)))"
  by (simp add: Calculate_sel set_index index_None [symmetric]) (auto simp: deletesOf_def split: if_splits)

lemma length_Updates:
  "length (UpdateOld (Calculate rd rc p desired current)) = length (UpdateNew (Calculate rd rc p desired current))"
  by (simp add: Calculate_sel)

lemma mem_UpdateOld:
  "range_ok rd \<Longrightarrow> h \<in> set (UpdateOld (Calculate rd rc p desired current)) \<longleftrightarrow>
     (\<exists>w. effective desired w \<and> effective (records current) h \<and> epKey h = epKey w
       \<and> owns p current (DNSName w) \<and> \<not> endpointsEqual h w)"
  using mem_Updates [of rd h _ rc p desired current]
  by (metis in_set_impl_in_set_zip1 length_Updates set_zip_leftD)

lemma mem_UpdateNew:
  "range_ok rd \<Longrightarrow> w \<in> set (UpdateNew (Calculate rd rc p desired current)) \<longleftrightarrow>
     (\<exists>h. effective desired w \<and> effective (records current) h \<and> epKey h = epKey w
       \<and> owns p current (DNSName w) \<and> \<not> endpointsEqual h w)"
  using mem_Updates [of rd _ w rc p desired current]
  by (metis in_set_impl_in_set_zip2 length_Updates set_zip_rightD)

lemmas mem_changes = mem_Create mem_UpdateOld mem_UpdateNew mem_Delete


section \<open>Example data for the witnesses\<close>

definition ex_A :: "string \<Rightarrow> string \<Rightarrow> endpoint" where
  "ex_A n t = endpoint_New n [t] RecordTypeA 300 None"

definition ex_plan :: plan where "ex_plan = plan_New []"

definition ex_desired :: "endpoint list" where
  "ex_desired = [ex_A ''new.ex'' ''1.1.1.1'', ex_A ''same.ex'' ''2.2.2.2'', ex_A ''chg.ex'' ''9.9.9.9'']"

definition ex_current :: "endpoint list" where
  "ex_current =
     [ex_A ''same.ex'' ''2.2.2.2'', ownershipTXTFor ex_plan ''same.ex'',
      ex_A ''chg.ex'' ''3.3.3.3'', ownershipTXTFor ex_plan ''chg.ex'',
      ex_A ''gone.ex'' ''4.4.4.4'', ownershipTXTFor ex_plan ''gone.ex'',
      ex_A ''manual.ex'' ''5.5.5.5'']"

lemmas ex_defs = ex_A_def ex_plan_def ex_desired_def ex_current_def

lemma ex_changes:
  "Calculate (\<lambda>m. m) rev ex_plan ex_desired ex_current =
     \<lparr>Create = [ex_A ''new.ex'' ''1.1.1.1'', ownershipTXTFor ex_plan ''new.ex''],
      UpdateOld = [ex_A ''chg.ex'' ''3.3.3.3''], UpdateNew = [ex_A ''chg.ex'' ''9.9.9.9''],
      Delete = [ex_A ''gone.ex'' ''4.4.4.4'', ownershipTXTFor ex_plan ''gone.ex'']\<rparr>"
  by (simp add: Calculate_def Let_def ex_defs indexEndpoints_def epKey_def buildOwnedSet_def buildOwnedStep_def
      filterOwnershipTXTs_def ownershipTXTFor_def ownershipName_def ownerPrefix_def HasPrefix_def TrimPrefix_def
      walkDesired_def walkCurrent_def ownedAt_def endpointsEqual_def sortedCopy_def plan_New_def no_changes_def)


section \<open>Properties\<close>

text \<open>Record types without the key separator; then the map key determines name and type.\<close>

definition plain_types :: "endpoint list \<Rightarrow> bool" where
  "plain_types eps \<longleftrightarrow> (\<forall>e \<in> set eps. CHR ''|'' \<notin> set (RecordType e))"

lemma plain_types_key:
  "plain_types as \<Longrightarrow> plain_types bs \<Longrightarrow> a \<in> set as \<Longrightarrow> b \<in> set bs \<Longrightarrow> epKey a = epKey b \<Longrightarrow>
     DNSName a = DNSName b \<and> RecordType a = RecordType b"
  unfolding plain_types_def by (metis epKey_inj)

lemma effective_records: "effective (records eps) e \<Longrightarrow> e \<in> set eps \<and> \<not> isOwnershipTXT e"
  by (auto simp: filterOwnershipTXTs_eq dest!: effective_mem)

text \<open>
  The key \<open>DNSName|RecordType\<close> determines the name when the separator is absent from the record types, or absent
  from the names.
\<close>

definition separable :: "endpoint list \<Rightarrow> endpoint list \<Rightarrow> bool" where
  "separable desired current \<longleftrightarrow>
     (\<forall>e \<in> set desired \<union> set current. CHR ''|'' \<notin> set (RecordType e))
   \<or> (\<forall>e \<in> set desired \<union> set current. CHR ''|'' \<notin> set (DNSName e))"

lemma epKey_name:
  assumes "epKey a = epKey b" "CHR ''|'' \<notin> set (DNSName a)" "CHR ''|'' \<notin> set (DNSName b)"
  shows "DNSName a = DNSName b"
proof -
  have first: "CHR ''|'' \<notin> set xs \<Longrightarrow> takeWhile (\<lambda>x. x \<noteq> CHR ''|'') (xs @ CHR ''|'' # ys) = xs" for xs ys
    by (induction xs) auto
  have "takeWhile (\<lambda>x. x \<noteq> CHR ''|'') (epKey e) = DNSName e" if "CHR ''|'' \<notin> set (DNSName e)" for e
    using first [OF that] by (simp add: epKey_def)
  then show ?thesis using assms by metis
qed

lemma separable_name:
  "separable desired current \<Longrightarrow> w \<in> set desired \<Longrightarrow> h \<in> set current \<Longrightarrow> epKey h = epKey w \<Longrightarrow> DNSName h = DNSName w"
  unfolding separable_def using epKey_inj [of h w] epKey_name [of h w] by blast

text \<open>
  C4. Ownership safety of the diff engine, whatever the map iteration orders.  A record that a change set deletes is
  a current record whose name has an ownership TXT record with this plan's owner ID, or the ownership
  record of such a name.  A record that it replaces is a current record with the key
  \<open>DNSName|RecordType\<close> of a desired record whose name is so owned; when the key separator occurs in no record type, or
  in no name, the replaced record has that name, so records of unowned names are never modified or deleted.
  (Without that condition two different names can share a key, and the replaced record need not be owned:
  see \<open>ambiguous_key_takes_unowned\<close> in \<open>PlanLimits\<close>.)
\<close>

theorem calculate_touches_only_owned:
  assumes "range_ok rd" and "range_ok rc"
  shows "(\<forall>e \<in> set (UpdateOld (Calculate rd rc p desired current)).
            e \<in> set current \<and> \<not> isOwnershipTXT e
            \<and> (\<exists>w \<in> set desired. epKey w = epKey e \<and> owns p current (DNSName w))
            \<and> (separable desired current \<longrightarrow> owns p current (DNSName e)))
       \<and> (\<forall>e \<in> set (UpdateNew (Calculate rd rc p desired current)).
            e \<in> set desired \<and> owns p current (DNSName e))
       \<and> (\<forall>e \<in> set (Delete (Calculate rd rc p desired current)).
            (\<exists>n. owns p current n \<and>
               (e = ownershipTXTFor p n \<or> e \<in> set current \<and> \<not> isOwnershipTXT e \<and> DNSName e = n)))"
proof -
  have old: "e \<in> set current \<and> \<not> isOwnershipTXT e \<and> (\<exists>w \<in> set desired. epKey w = epKey e \<and> owns p current (DNSName w))
      \<and> (separable desired current \<longrightarrow> owns p current (DNSName e))"
    if e: "e \<in> set (UpdateOld (Calculate rd rc p desired current))" for e
  proof -
    obtain w where w: "effective desired w" "effective (records current) e" "epKey e = epKey w" "owns p current (DNSName w)"
      using e unfolding mem_UpdateOld [OF assms(1)] by blast
    then show ?thesis using effective_mem [OF w(1)] effective_records [OF w(2)] separable_name [of desired current w e] by auto
  qed
  show ?thesis
    using assms old by (fastforce simp: mem_UpdateNew mem_Delete dest: effective_mem effective_records)
qed

theorem calculate_touches_only_owned_witness:
  "UpdateOld (Calculate (\<lambda>m. m) rev ex_plan ex_desired ex_current) = [ex_A ''chg.ex'' ''3.3.3.3'']
   \<and> owns ex_plan ex_current (DNSName (ex_A ''chg.ex'' ''3.3.3.3''))"
proof -
  have "separable ex_desired ex_current"
    by (simp add: separable_def ex_defs ownershipTXTFor_def)
  with calculate_touches_only_owned [OF range_ok_id range_ok_rev, of ex_plan ex_desired ex_current]
  show ?thesis by (simp add: ex_changes)
qed

text \<open>
  C5. Functional specification of \<open>Calculate\<close>: what is created, updated and deleted, as sets.  A
  desired record (the last one of its key) is created, with its ownership companion, exactly when
  no current record has its key; it replaces the current record of its key exactly when its name
  is owned and the two differ; a current record is deleted, with its companion, exactly when its
  key is not desired and its name is owned.
\<close>

theorem calculate_spec:
  assumes "range_ok rd" and "range_ok rc"
  shows "set (Create (Calculate rd rc p desired current)) =
           (\<Union>w \<in> {w. effective desired w \<and> epKey w \<notin> epKey ` set (filterOwnershipTXTs current)}.
              {w, ownershipTXTFor p (DNSName w)})
       \<and> set (zip (UpdateOld (Calculate rd rc p desired current)) (UpdateNew (Calculate rd rc p desired current))) =
           {(h, w). effective desired w \<and> effective (filterOwnershipTXTs current) h \<and> epKey h = epKey w
              \<and> owns p current (DNSName w) \<and> (TTL h \<noteq> TTL w \<or> mset (Targets h) \<noteq> mset (Targets w))}
       \<and> length (UpdateOld (Calculate rd rc p desired current)) =
           length (UpdateNew (Calculate rd rc p desired current))
       \<and> set (Delete (Calculate rd rc p desired current)) =
           (\<Union>h \<in> {h. effective (filterOwnershipTXTs current) h \<and> epKey h \<notin> epKey ` set desired
                      \<and> owns p current (DNSName h)}.
              {h, ownershipTXTFor p (DNSName h)})"
  using assms by (auto simp: mem_changes mem_Updates length_Updates endpointsEqual_iff)

theorem calculate_spec_witness:
  "ownershipTXTFor ex_plan ''new.ex'' \<in>
     (\<Union>w \<in> {w. effective ex_desired w \<and> epKey w \<notin> epKey ` set (filterOwnershipTXTs ex_current)}.
        {w, ownershipTXTFor ex_plan (DNSName w)})"
proof -
  have "ownershipTXTFor ex_plan ''new.ex'' \<in> set (Create (Calculate (\<lambda>m. m) rev ex_plan ex_desired ex_current))"
    by (simp add: ex_changes)
  then show ?thesis
    unfolding calculate_spec [OF range_ok_id range_ok_rev, THEN conjunct1] .
qed

text \<open>
  C18. The change set does not depend on Go's random map iteration order: two runs of \<open>Calculate\<close>
  on the same input give the same operations, at most in another order, and the same pairing of
  old and new records.
\<close>

theorem calculate_order_independent:
  assumes "range_ok rd" and "range_ok rc" and "range_ok rd'" and "range_ok rc'"
  shows "mset (Create (Calculate rd rc p desired current)) = mset (Create (Calculate rd' rc' p desired current))
       \<and> mset (zip (UpdateOld (Calculate rd rc p desired current)) (UpdateNew (Calculate rd rc p desired current))) =
         mset (zip (UpdateOld (Calculate rd' rc' p desired current)) (UpdateNew (Calculate rd' rc' p desired current)))
       \<and> mset (Delete (Calculate rd rc p desired current)) = mset (Delete (Calculate rd' rc' p desired current))"
proof -
  have perm: "mset (concat (map f xs)) = mset (concat (map f ys))" if "mset xs = mset ys" for f :: "'x \<Rightarrow> 'y list" and xs ys
    using that by (simp add: mset_concat flip: sum_mset_sum_list)
  show ?thesis
    using assms by (auto simp: Calculate_sel zip_map_fst_snd intro: perm)
qed

theorem calculate_order_independent_witness:
  "mset (Create (Calculate (\<lambda>m. m) rev ex_plan ex_desired ex_current)) =
     mset (Create (Calculate rev (\<lambda>m. m) ex_plan ex_desired ex_current))"
  by (rule calculate_order_independent [OF range_ok_id range_ok_rev range_ok_rev range_ok_id, THEN conjunct1])

text \<open>
  The fixed points of reconciliation: every desired record has a current record of its key which
  is either not ours or equal, and every current record of ours is desired.
\<close>

definition converged :: "plan \<Rightarrow> endpoint list \<Rightarrow> endpoint list \<Rightarrow> bool" where
  "converged p desired current \<longleftrightarrow>
     (\<forall>w. effective desired w \<longrightarrow>
        (\<exists>h. effective (filterOwnershipTXTs current) h \<and> epKey h = epKey w
           \<and> (owns p current (DNSName w) \<longrightarrow> TTL h = TTL w \<and> mset (Targets h) = mset (Targets w))))
   \<and> (\<forall>h. effective (filterOwnershipTXTs current) h \<and> owns p current (DNSName h) \<longrightarrow>
        epKey h \<in> epKey ` set desired)"

lemma empty_by_mem: "xs = [] \<longleftrightarrow> (\<forall>x. x \<notin> set xs)"
  by (cases xs) auto

lemma Create_empty:
  "range_ok rd \<Longrightarrow> Create (Calculate rd rc p desired current) = [] \<longleftrightarrow>
     (\<forall>w. effective desired w \<longrightarrow> (\<exists>h. effective (records current) h \<and> epKey h = epKey w))"
  unfolding empty_by_mem by (simp add: mem_Create) (metis effective_exists effective_mem image_eqI)

lemma Updates_empty:
  "range_ok rd \<Longrightarrow> UpdateOld (Calculate rd rc p desired current) = [] \<longleftrightarrow>
     (\<forall>w h. effective desired w \<and> effective (records current) h \<and> epKey h = epKey w
        \<and> owns p current (DNSName w) \<longrightarrow> endpointsEqual h w)"
  unfolding empty_by_mem by (simp add: mem_UpdateOld) metis

lemma Delete_empty:
  "range_ok rc \<Longrightarrow> Delete (Calculate rd rc p desired current) = [] \<longleftrightarrow>
     (\<forall>h. effective (records current) h \<and> owns p current (DNSName h) \<longrightarrow> epKey h \<in> epKey ` set desired)"
  unfolding empty_by_mem by (simp add: mem_Delete) metis

lemma converged_iff_empty:
  assumes "range_ok rd" and "range_ok rc"
  shows "converged p desired current \<longleftrightarrow> IsEmpty (Calculate rd rc p desired current)"
proof -
  have new: "UpdateNew (Calculate rd rc p desired current) = [] \<longleftrightarrow>
      UpdateOld (Calculate rd rc p desired current) = []"
    by (metis length_0_conv length_Updates)
  have split: "(\<exists>h. effective (records current) h \<and> epKey h = epKey w \<and> (b \<longrightarrow> endpointsEqual h w)) \<longleftrightarrow>
      (\<exists>h. effective (records current) h \<and> epKey h = epKey w) \<and>
      (\<forall>h. effective (records current) h \<and> epKey h = epKey w \<and> b \<longrightarrow> endpointsEqual h w)" for w b
    by (metis effective_unique)
  show ?thesis
    unfolding IsEmpty_iff new Create_empty [OF assms(1)] Updates_empty [OF assms(1)]
      Delete_empty [OF assms(2)] converged_def endpointsEqual_iff [symmetric] split
    by auto
qed

text \<open>
  C6. \<open>Calculate\<close> returns an empty change set exactly at the fixed points: the daemon plans work
  if and only if a desired record is missing or an owned record is stale or no longer desired.
\<close>

theorem calculate_empty_iff_converged:
  assumes "range_ok rd" and "range_ok rc"
  shows "IsEmpty (Calculate rd rc p desired current) \<longleftrightarrow> converged p desired current"
  using converged_iff_empty [OF assms] by simp

theorem calculate_empty_iff_converged_witness:
  "\<not> converged ex_plan ex_desired ex_current"
  using calculate_empty_iff_converged [OF range_ok_id range_ok_rev, of ex_plan ex_desired ex_current]
  by (simp add: ex_changes IsEmpty_def)

lemma updatesOf_keys:
  "map epKey (map snd (concat (map (updatesOf owned ci) xs))) =
     map (\<lambda>kw. epKey (snd kw)) (filter (\<lambda>kw. updatesOf owned ci kw \<noteq> []) xs)"
  by (induction xs) (auto simp: updatesOf_def split: option.splits)

lemma index_keys: "(k, e) \<in> set (indexEndpoints eps) \<Longrightarrow> epKey e = k"
  by (auto dest: index_memD)

lemma distinct_index_keys:
  assumes "range_ok rd"
  shows "distinct (map (\<lambda>kw. epKey (snd kw)) (rd (indexEndpoints eps)))"
proof -
  have "map (\<lambda>kw. epKey (snd kw)) (rd (indexEndpoints eps)) = map fst (rd (indexEndpoints eps))"
    using assms by (auto dest: index_keys)
  moreover have "mset (map fst (rd (indexEndpoints eps))) = mset (map fst (indexEndpoints eps))"
    using assms by simp
  moreover have "distinct (map fst (indexEndpoints eps))"
    using index_ok [of eps] by (simp add: gomap_ok_def)
  ultimately show ?thesis by (metis mset_eq_imp_distinct_iff)
qed

lemma distinct_UpdateNew_keys:
  "range_ok rd \<Longrightarrow> distinct (map epKey (UpdateNew (Calculate rd rc p desired current)))"
  unfolding Calculate_sel updatesOf_keys by (intro distinct_map_filter distinct_index_keys)

lemma UpdateOld_keys:
  assumes "range_ok rd"
  shows "map epKey (UpdateOld (Calculate rd rc p desired current)) =
         map epKey (UpdateNew (Calculate rd rc p desired current))"
proof (rule nth_equalityI)
  let ?c = "Calculate rd rc p desired current"
  show "length (map epKey (UpdateOld ?c)) = length (map epKey (UpdateNew ?c))"
    by (simp add: length_Updates)
  fix i assume "i < length (map epKey (UpdateOld ?c))"
  then have "(UpdateOld ?c ! i, UpdateNew ?c ! i) \<in> set (zip (UpdateOld ?c) (UpdateNew ?c))"
    by (auto simp: set_zip length_Updates)
  then have "epKey (UpdateOld ?c ! i) = epKey (UpdateNew ?c ! i)"
    by (simp add: mem_Updates [OF assms])
  then show "map epKey (UpdateOld ?c) ! i = map epKey (UpdateNew ?c) ! i"
    using \<open>i < _\<close> by (simp add: length_Updates)
qed

text \<open>
  A change set performs at most one operation per map key: the updates pair records of the same
  key and no key is updated twice; a key that is updated is neither created nor deleted; a created
  record has no current record of its key and a deleted one no desired record of its key.
\<close>

lemma calculate_one_operation_per_key:
  assumes "range_ok rd" and "range_ok rc"
  shows "map epKey (UpdateOld (Calculate rd rc p desired current)) =
           map epKey (UpdateNew (Calculate rd rc p desired current))
       \<and> distinct (map epKey (UpdateNew (Calculate rd rc p desired current)))
       \<and> (\<forall>e \<in> set (Create (Calculate rd rc p desired current)).
            \<not> isOwnershipTXT e \<longrightarrow> epKey e \<notin> epKey ` set (filterOwnershipTXTs current)
              \<and> epKey e \<notin> epKey ` set (UpdateNew (Calculate rd rc p desired current)))
       \<and> (\<forall>e \<in> set (Delete (Calculate rd rc p desired current)).
            \<not> isOwnershipTXT e \<longrightarrow> epKey e \<notin> epKey ` set desired
              \<and> epKey e \<notin> epKey ` set (UpdateNew (Calculate rd rc p desired current)))"
proof -
  have comp: "isOwnershipTXT (ownershipTXTFor p n)" for n
    by (simp add: isOwnershipTXT_def ownershipTXTFor_def ownershipName_def)
  have new: "e \<in> set desired \<and> epKey e \<in> epKey ` set (records current)"
    if "e \<in> set (UpdateNew (Calculate rd rc p desired current))" for e
    using that assms(1) by (auto simp: mem_UpdateNew dest: effective_mem) (metis effective_mem image_eqI)
  show ?thesis
    using assms comp new UpdateOld_keys distinct_UpdateNew_keys
    by (auto simp: mem_Create mem_Delete)
qed

lemma calculate_one_operation_per_key_example:
  "distinct (map epKey (UpdateNew (Calculate (\<lambda>m. m) rev ex_plan ex_desired ex_current)))"
  using calculate_one_operation_per_key [OF range_ok_id range_ok_rev] by blast

end
