(* ===== verification/Provider.thy ===== *)
theory Provider
  imports Plan
begin

text \<open>
  \<open>pkg/provider/provider.go\<close>: the \<open>Provider\<close> interface as a table of its two methods over the
  provider's state, and its contract.  A zone is the map from keys to endpoints that \<open>Records\<close>
  lists; \<open>apply_spec\<close> is the abstract effect of a change set on it.  The locale
  \<open>zone_provider\<close> states what a client may rely on, and the client's lemma proved in it is
  convergence: after one successful round the next plan is empty.
\<close>

record 'p provider =
  Records :: "'p \<Rightarrow> endpoint list result \<times> 'p"
  ApplyChanges :: "'p \<Rightarrow> changes \<Rightarrow> goerror option \<times> 'p"

type_synonym zone = "string \<Rightarrow> endpoint option"


section \<open>The abstract effect of a change set\<close>

definition apply_spec :: "changes \<Rightarrow> zone \<Rightarrow> zone" where
  "apply_spec c z k =
     (case find (\<lambda>e. epKey e = k) (rev (Create c)) of
        Some e \<Rightarrow> Some e
      | None \<Rightarrow>
          (case find (\<lambda>e. epKey e = k) (rev (UpdateNew c)) of
             Some e \<Rightarrow> Some e
           | None \<Rightarrow> if k \<in> epKey ` set (UpdateOld c) \<or> k \<in> epKey ` set (Delete c) then None else z k))"

text \<open>
  A change set whose operations commute: updates keep their key, and no key is created and
  updated, updated and deleted, or created and deleted.
\<close>

definition conflict_free :: "changes \<Rightarrow> bool" where
  "conflict_free c \<longleftrightarrow>
     map epKey (UpdateOld c) = map epKey (UpdateNew c)
   \<and> (\<forall>a \<in> set (Create c). \<forall>b \<in> set (UpdateNew c). epKey a \<noteq> epKey b)
   \<and> (\<forall>a \<in> set (Delete c). \<forall>b \<in> set (UpdateNew c). epKey a \<noteq> epKey b)
   \<and> (\<forall>a \<in> set (Create c). \<forall>b \<in> set (Delete c). epKey a \<noteq> epKey b)"

definition zone_list :: "zone \<Rightarrow> endpoint list \<Rightarrow> bool" where
  "zone_list z eps \<longleftrightarrow> set eps = ran z \<and> (\<forall>k e. z k = Some e \<longrightarrow> epKey e = k)"

lemma zone_list_mem: "zone_list z eps \<Longrightarrow> e \<in> set eps \<longleftrightarrow> z (epKey e) = Some e"
  by (auto simp: zone_list_def ran_def)

lemma zone_list_inj: "zone_list z eps \<Longrightarrow> inj_on epKey (set eps)"
  by (intro inj_onI) (simp add: zone_list_mem)

lemma zone_list_records:
  "zone_list z eps \<Longrightarrow> effective (records eps) e \<longleftrightarrow> z (epKey e) = Some e \<and> \<not> isOwnershipTXT e"
proof -
  assume z: "zone_list z eps"
  have "inj_on epKey (set (records eps))"
    by (rule inj_on_subset [OF zone_list_inj [OF z]]) (auto simp: filterOwnershipTXTs_eq)
  then show ?thesis
    by (simp add: effective_inj filterOwnershipTXTs_eq zone_list_mem [OF z])
qed

lemma apply_spec_Some:
  assumes "inj_on epKey (set (Create c))" and "inj_on epKey (set (UpdateNew c))" and "conflict_free c"
  shows "apply_spec c z k = Some e \<longleftrightarrow>
     epKey e = k \<and> (e \<in> set (Create c) \<or> e \<in> set (UpdateNew c))
     \<or> k \<notin> epKey ` (set (Create c) \<union> set (UpdateNew c) \<union> set (Delete c)) \<and> z k = Some e"
proof -
  have lookup: "find (\<lambda>e. epKey e = k) (rev xs) = Some e \<longleftrightarrow> e \<in> set xs \<and> epKey e = k"
    if "inj_on epKey (set xs)" for xs
    using that by (auto dest: find_rev_Some intro!: find_rev_unique elim: inj_onD)
  have old: "epKey ` set (UpdateOld c) = epKey ` set (UpdateNew c)"
    using assms(3) by (metis conflict_free_def list.set_map)
  show ?thesis
  proof (cases "find (\<lambda>e. epKey e = k) (rev (Create c))")
    case None
    then have c: "k \<notin> epKey ` set (Create c)" by (auto simp: find_rev_None)
    show ?thesis
    proof (cases "find (\<lambda>e. epKey e = k) (rev (UpdateNew c))")
      case none: None
      then have u: "k \<notin> epKey ` set (UpdateNew c)" by (auto simp: find_rev_None)
      then have "epKey e = k \<Longrightarrow> e \<notin> set (Create c) \<and> e \<notin> set (UpdateNew c)" using c by blast
      with None none c u old show ?thesis by (auto simp: apply_spec_def)
    next
      case (Some b)
      then have b: "b \<in> set (UpdateNew c)" "epKey b = k" by (auto dest: find_rev_Some)
      moreover have "epKey e = k \<Longrightarrow> e \<notin> set (Create c)" using c by blast
      ultimately show ?thesis using None Some lookup [OF assms(2)] by (auto simp: apply_spec_def)
    qed
  next
    case (Some a)
    then have "a \<in> set (Create c)" "epKey a = k" by (auto dest: find_rev_Some)
    moreover have "e \<in> set (UpdateNew c) \<Longrightarrow> epKey e \<noteq> k"
      using calculation assms(3) by (metis conflict_free_def)
    ultimately show ?thesis
      using Some lookup [OF assms(1)] by (auto simp: apply_spec_def)
  qed
qed

lemma apply_spec_keys:
  "(\<And>k e. z k = Some e \<Longrightarrow> epKey e = k) \<Longrightarrow> apply_spec c z k = Some e \<Longrightarrow> epKey e = k"
  by (auto simp: apply_spec_def dest: find_rev_Some split: option.splits if_splits)


section \<open>One round converges\<close>

text \<open>
  The inputs for which a round is expected to settle: record types have no key separator, no
  desired record is itself an ownership record, and a name carries one record type among the
  desired and the current records.
\<close>

definition tidy :: "endpoint list \<Rightarrow> endpoint list \<Rightarrow> bool" where
  "tidy desired current \<longleftrightarrow>
     plain_types desired \<and> plain_types current \<and> (\<forall>w \<in> set desired. \<not> isOwnershipTXT w)
   \<and> (\<forall>a \<in> set desired \<union> set (filterOwnershipTXTs current).
        \<forall>b \<in> set desired \<union> set (filterOwnershipTXTs current).
          DNSName a = DNSName b \<longrightarrow> RecordType a = RecordType b)"

lemma companion_sel [simp]:
  "DNSName (ownershipTXTFor p n) = ownershipName n" "RecordType (ownershipTXTFor p n) = ''TXT''"
  "Targets (ownershipTXTFor p n) = [ownershipValue (ownerID p)]" "isOwnershipTXT (ownershipTXTFor p n)"
  by (simp_all add: ownershipTXTFor_def isOwnershipTXT_def ownershipName_def)

lemma ownershipName_inj [simp]: "ownershipName a = ownershipName b \<longleftrightarrow> a = b"
  by (simp add: ownershipName_def)

lemma companion_key: "epKey (ownershipTXTFor p a) = epKey (ownershipTXTFor q b) \<longleftrightarrow> a = b"
  by (simp add: epKey_def ownershipName_def)

lemma not_companion_key:
  assumes "CHR ''|'' \<notin> set (RecordType e)" and "\<not> isOwnershipTXT e"
  shows "epKey e \<noteq> epKey (ownershipTXTFor p n)"
proof
  assume "epKey e = epKey (ownershipTXTFor p n)"
  then have "DNSName e = ownershipName n \<and> RecordType e = ''TXT''"
    using assms(1) epKey_inj [of e "ownershipTXTFor p n"] by simp
  with assms(2) show False by (simp add: isOwnershipTXT_def ownershipName_def)
qed

lemma tidyD:
  assumes "tidy desired current"
  shows "w \<in> set desired \<Longrightarrow> \<not> isOwnershipTXT w"
    and "w \<in> set desired \<Longrightarrow> CHR ''|'' \<notin> set (RecordType w)"
    and "h \<in> set current \<Longrightarrow> CHR ''|'' \<notin> set (RecordType h)"
    and "w \<in> set desired \<Longrightarrow> h \<in> set (records current) \<Longrightarrow> DNSName w = DNSName h \<longleftrightarrow> epKey w = epKey h"
    and "w \<in> set desired \<Longrightarrow> w' \<in> set desired \<Longrightarrow> DNSName w = DNSName w' \<longleftrightarrow> epKey w = epKey w'"
proof -
  show "w \<in> set desired \<Longrightarrow> \<not> isOwnershipTXT w" "w \<in> set desired \<Longrightarrow> CHR ''|'' \<notin> set (RecordType w)"
    "h \<in> set current \<Longrightarrow> CHR ''|'' \<notin> set (RecordType h)"
    using assms by (auto simp: tidy_def plain_types_def)
  have key: "DNSName a = DNSName b \<longleftrightarrow> epKey a = epKey b"
    if "a \<in> set desired \<union> set (records current)" "b \<in> set desired \<union> set (records current)" for a b
  proof -
    have "set (records current) \<subseteq> set current" by (auto simp: filterOwnershipTXTs_eq)
    then have "CHR ''|'' \<notin> set (RecordType a)" "CHR ''|'' \<notin> set (RecordType b)"
      using that assms unfolding tidy_def plain_types_def by blast+
    moreover have "DNSName a = DNSName b \<longrightarrow> RecordType a = RecordType b"
      using that assms unfolding tidy_def by blast
    moreover have "epKey a = epKey b" if "DNSName a = DNSName b" "RecordType a = RecordType b"
      using that by (simp add: epKey_def)
    ultimately show ?thesis using epKey_inj [of a b] by blast
  qed
  show "w \<in> set desired \<Longrightarrow> h \<in> set (records current) \<Longrightarrow> DNSName w = DNSName h \<longleftrightarrow> epKey w = epKey h"
    "w \<in> set desired \<Longrightarrow> w' \<in> set desired \<Longrightarrow> DNSName w = DNSName w' \<longleftrightarrow> epKey w = epKey w'"
    by (simp_all add: key)
qed

text \<open>On such inputs the plan has no conflicting operations.\<close>

lemma tidy_Create_inj:
  assumes "tidy desired current" and "range_ok rd"
  shows "inj_on epKey (set (Create (Calculate rd rc p desired current)))"
proof (rule inj_onI)
  fix a b
  assume "a \<in> set (Create (Calculate rd rc p desired current))" "b \<in> set (Create (Calculate rd rc p desired current))"
    and key: "epKey a = epKey b"
  then obtain v w where v: "effective desired v" "a = v \<or> a = ownershipTXTFor p (DNSName v)"
    and w: "effective desired w" "b = w \<or> b = ownershipTXTFor p (DNSName w)"
    using assms(2) by (auto simp: mem_Create)
  have "epKey v \<noteq> epKey (ownershipTXTFor p n)" "epKey w \<noteq> epKey (ownershipTXTFor p n)" for n
    using v(1) w(1) effective_mem not_companion_key tidyD(1,2) [OF assms(1)] by metis+
  with key v w show "a = b" by (metis companion_key effective_unique)
qed

lemma tidy_conflict_free:
  assumes tidy: "tidy desired current" and r: "range_ok rd" "range_ok rc"
  shows "conflict_free (Calculate rd rc p desired current)"
proof -
  have desired_key: "epKey w \<noteq> epKey (ownershipTXTFor p n)" if "effective desired w" for w n
    using that effective_mem not_companion_key tidyD(1,2) [OF tidy] by metis
  have current_key: "epKey h \<noteq> epKey (ownershipTXTFor p n)" if "effective (records current) h" for h n
    using that effective_records not_companion_key tidyD(3) [OF tidy] by metis
  have name_key: "DNSName w = DNSName h \<longleftrightarrow> epKey w = epKey h"
    if "effective desired w" "effective (records current) h" for w h
    using that tidyD(4) [OF tidy] effective_mem by metis
  have rec: "epKey h \<in> epKey ` set (records current)" if "effective (records current) h" for h
    using that effective_mem by blast
  have des: "epKey w \<in> epKey ` set desired" if "effective desired w" for w
    using that effective_mem by blast
  have cu: "epKey a \<noteq> epKey b" if "a \<in> set (Create (Calculate rd rc p desired current))"
    "b \<in> set (UpdateNew (Calculate rd rc p desired current))" for a b
    using that unfolding mem_Create [OF r(1)] mem_UpdateNew [OF r(1)]
    by (metis desired_key rec)
  have du: "epKey a \<noteq> epKey b" if "a \<in> set (Delete (Calculate rd rc p desired current))"
    "b \<in> set (UpdateNew (Calculate rd rc p desired current))" for a b
    using that unfolding mem_Delete [OF r(2)] mem_UpdateNew [OF r(1)]
    by (metis desired_key des)
  have cd: "epKey a \<noteq> epKey b" if "a \<in> set (Create (Calculate rd rc p desired current))"
    "b \<in> set (Delete (Calculate rd rc p desired current))" for a b
    using that unfolding mem_Create [OF r(1)] mem_Delete [OF r(2)]
    by (metis desired_key current_key name_key companion_key des)
  show ?thesis
    unfolding conflict_free_def using UpdateOld_keys [OF r(1)] cu du cd by blast
qed

lemma owns_after:
  assumes tidy: "tidy desired cur" and r: "range_ok rd" "range_ok rc"
    and z: "zone_list z cur" and z': "zone_list (apply_spec (Calculate rd rc p desired cur) z) cur2"
    and "owns p cur2 n"
  shows "owns p cur n \<or> (\<exists>w. effective desired w \<and> epKey w \<notin> epKey ` set (records cur) \<and> DNSName w = n)"
proof -
  let ?c = "Calculate rd rc p desired cur"
  from \<open>owns p cur2 n\<close> obtain e where e: "e \<in> set cur2" "RecordType e = ''TXT''" "DNSName e = ownershipName n"
      "ownershipValue (ownerID p) \<in> set (Targets e)"
    by (auto simp: owns_def)
  then have own: "isOwnershipTXT e" by (simp add: isOwnershipTXT_def ownershipName_def)
  have "apply_spec ?c z (epKey e) = Some e" using e(1) zone_list_mem [OF z'] by simp
  then consider "e \<in> set (Create ?c)" | "e \<in> set (UpdateNew ?c)" | "z (epKey e) = Some e"
    unfolding apply_spec_def by (auto dest: find_rev_Some split: option.splits if_splits)
  then show ?thesis
  proof cases
    case 1
    then obtain w where "effective desired w" "epKey w \<notin> epKey ` set (records cur)"
        "e = w \<or> e = ownershipTXTFor p (DNSName w)"
      by (auto simp: mem_Create [OF r(1)])
    then show ?thesis using own e(3) tidyD(1) [OF tidy] effective_mem by fastforce
  next
    case 2
    then show ?thesis using own tidyD(1) [OF tidy] by (auto simp: mem_UpdateNew [OF r(1)] dest: effective_mem)
  next
    case 3
    then show ?thesis using e zone_list_mem [OF z] by (auto simp: owns_def)
  qed
qed

lemma plan_lookup:
  fixes p
  assumes "tidy desired cur" and "range_ok rd" and "range_ok rc"
  defines "c \<equiv> Calculate rd rc p desired cur"
  shows "apply_spec c z k = Some e \<longleftrightarrow>
     epKey e = k \<and> (e \<in> set (Create c) \<or> e \<in> set (UpdateNew c))
     \<or> k \<notin> epKey ` (set (Create c) \<union> set (UpdateNew c) \<union> set (Delete c)) \<and> z k = Some e"
proof -
  have "inj_on epKey (set (UpdateNew c))"
    using distinct_UpdateNew_keys [OF assms(2)] by (simp add: c_def distinct_map)
  then show ?thesis
    using apply_spec_Some tidy_Create_inj tidy_conflict_free assms by metis
qed

text \<open>A desired record that needs no operation keeps its current record.\<close>

lemma settled_key:
  assumes tidy: "tidy desired cur" and r: "range_ok rd" "range_ok rc"
    and w: "effective desired w" and h: "effective (records cur) h" "epKey h = epKey w"
    and new: "w \<notin> set (UpdateNew (Calculate rd rc p desired cur))"
  defines "c \<equiv> Calculate rd rc p desired cur"
  shows "epKey w \<notin> epKey ` (set (Create c) \<union> set (UpdateNew c) \<union> set (Delete c))"
proof -
  have mem: "w \<in> set desired" using w effective_mem by blast
  have comp: "epKey w \<noteq> epKey (ownershipTXTFor p n)" for n
    using not_companion_key tidyD(1,2) [OF tidy mem] by blast
  have "epKey w \<in> epKey ` set (records cur)" using h effective_mem by (metis image_eqI)
  then have "epKey w \<noteq> epKey e" if "e \<in> set (Create c)" for e
    using that comp unfolding c_def mem_Create [OF r(1)] by metis
  moreover have "epKey w \<noteq> epKey e" if "e \<in> set (UpdateNew c)" for e
    using that w new effective_unique unfolding c_def by (metis mem_UpdateNew [OF r(1)])
  moreover have "epKey w \<noteq> epKey e" if "e \<in> set (Delete c)" for e
    using that mem comp unfolding c_def mem_Delete [OF r(2)] by (metis image_eqI)
  ultimately show ?thesis by blast
qed

lemma round_desired:
  assumes tidy: "tidy desired cur" and r: "range_ok rd" "range_ok rc"
    and z: "zone_list z cur" and z': "zone_list (apply_spec (Calculate rd rc p desired cur) z) cur2"
    and w: "effective desired w"
  shows "\<exists>h. effective (records cur2) h \<and> epKey h = epKey w \<and> (owns p cur2 (DNSName w) \<longrightarrow> endpointsEqual h w)"
proof (cases "w \<in> set (Create (Calculate rd rc p desired cur)) \<or> w \<in> set (UpdateNew (Calculate rd rc p desired cur))")
  case True
  then have "apply_spec (Calculate rd rc p desired cur) z (epKey w) = Some w"
    by (simp add: plan_lookup [OF tidy r])
  moreover have "\<not> isOwnershipTXT w" using w effective_mem tidyD(1) [OF tidy] by blast
  ultimately show ?thesis using zone_list_records [OF z'] by auto
next
  case False
  then have "epKey w \<in> epKey ` set (records cur)" using w unfolding mem_Create [OF r(1)] by blast
  then obtain h where h: "effective (records cur) h" "epKey h = epKey w" using effective_exists by blast
  have eq: "endpointsEqual h w" if "owns p cur (DNSName w)"
    using False w h that by (auto simp: mem_UpdateNew [OF r(1)])
  have "apply_spec (Calculate rd rc p desired cur) z (epKey w) = Some h"
    using settled_key [OF tidy r w h] False h zone_list_records [OF z] by (auto simp: plan_lookup [OF tidy r])
  moreover have "owns p cur (DNSName w)" if own: "owns p cur2 (DNSName w)"
  proof (rule ccontr)
    assume "\<not> owns p cur (DNSName w)"
    then obtain v where v: "effective desired v" "epKey v \<notin> epKey ` set (records cur)" "DNSName v = DNSName w"
      using owns_after [OF tidy r z z' own] by blast
    then have "epKey v = epKey w" using tidyD(5) [OF tidy] effective_mem w by metis
    with v(2) \<open>epKey w \<in> _\<close> show False by simp
  qed
  ultimately show ?thesis using h eq zone_list_records [OF z] zone_list_records [OF z'] by metis
qed

lemma round_owned:
  assumes tidy: "tidy desired cur" and r: "range_ok rd" "range_ok rc"
    and z: "zone_list z cur" and z': "zone_list (apply_spec (Calculate rd rc p desired cur) z) cur2"
    and h: "effective (records cur2) h" and own: "owns p cur2 (DNSName h)"
  shows "epKey h \<in> epKey ` set desired"
proof (rule ccontr)
  let ?c = "Calculate rd rc p desired cur"
  assume nd: "epKey h \<notin> epKey ` set desired"
  have "apply_spec ?c z (epKey h) = Some h" and notown: "\<not> isOwnershipTXT h"
    using h zone_list_records [OF z'] by auto
  moreover have "h \<notin> set (Create ?c)" "h \<notin> set (UpdateNew ?c)"
    using nd notown by (auto simp: mem_Create [OF r(1)] mem_UpdateNew [OF r(1)] dest: effective_mem)
  ultimately have old: "effective (records cur) h" "h \<notin> set (Delete ?c)"
    using zone_list_records [OF z] by (auto simp: plan_lookup [OF tidy r])
  then have "\<not> owns p cur (DNSName h)" using nd unfolding mem_Delete [OF r(2)] by blast
  then obtain w where w: "effective desired w" "DNSName w = DNSName h"
    using owns_after [OF tidy r z z' own] by blast
  then have "epKey w = epKey h" using tidyD(4) [OF tidy] effective_mem old(1) by blast
  with nd w(1) effective_mem show False by (metis image_eqI)
qed

lemma round_converges:
  assumes "tidy desired cur" and "range_ok rd" "range_ok rc"
    and "zone_list z cur" and "zone_list (apply_spec (Calculate rd rc p desired cur) z) cur2"
  shows "converged p desired cur2"
  unfolding converged_def endpointsEqual_iff [symmetric]
  using round_desired [OF assms] round_owned [OF assms] by blast


text \<open>
  What it means that the desired records are published: each is listed, with its TTL and targets, and its name carries
  the ownership record.  A fixed point alone does not say so, because a record that is not ours may stand in the way.
\<close>

definition published :: "plan \<Rightarrow> endpoint list \<Rightarrow> endpoint list \<Rightarrow> bool" where
  "published p desired current \<longleftrightarrow>
     (\<forall>w. effective desired w \<longrightarrow> owns p current (DNSName w) \<and> (\<exists>h \<in> set current. epKey h = epKey w \<and> endpointsEqual h w))"

text \<open>No desired key is taken by a record of somebody else.\<close>

definition unclaimed :: "plan \<Rightarrow> endpoint list \<Rightarrow> endpoint list \<Rightarrow> bool" where
  "unclaimed p desired current \<longleftrightarrow>
     (\<forall>w \<in> set desired. \<forall>h \<in> set (records current). epKey h = epKey w \<longrightarrow> owns p current (DNSName w))"

lemma created_owned:
  assumes tidy: "tidy desired cur" and r: "range_ok rd" "range_ok rc"
    and z': "zone_list (apply_spec (Calculate rd rc p desired cur) z) cur2"
    and w: "effective desired w" "epKey w \<notin> epKey ` set (records cur)"
  shows "owns p cur2 (DNSName w)"
proof -
  let ?t = "ownershipTXTFor p (DNSName w)"
  have "?t \<in> set (Create (Calculate rd rc p desired cur))" using w by (auto simp: mem_Create [OF r(1)])
  then have "apply_spec (Calculate rd rc p desired cur) z (epKey ?t) = Some ?t" by (simp add: plan_lookup [OF tidy r])
  then have "?t \<in> set cur2" using zone_list_mem [OF z'] by simp
  then show ?thesis by (auto simp: owns_def intro: bexI [of _ ?t])
qed

text \<open>The ownership record of a name that stays desired is left alone.\<close>

lemma companion_kept:
  assumes tidy: "tidy desired cur" and r: "range_ok rd" "range_ok rc"
    and z: "zone_list z cur" and z': "zone_list (apply_spec (Calculate rd rc p desired cur) z) cur2"
    and w: "effective desired w" "epKey w \<in> epKey ` set (records cur)" and own: "owns p cur (DNSName w)"
  shows "owns p cur2 (DNSName w)"
proof -
  let ?c = "Calculate rd rc p desired cur"
  obtain t where t: "t \<in> set cur" "RecordType t = ''TXT''" "DNSName t = ownershipName (DNSName w)"
      "ownershipValue (ownerID p) \<in> set (Targets t)"
    using own by (auto simp: owns_def)
  have key: "epKey t = epKey (ownershipTXTFor p (DNSName w))" using t(2,3) by (simp add: epKey_def)
  have mem: "w \<in> set desired" using w(1) effective_mem by blast
  have des: "epKey v \<noteq> epKey t" if "effective desired v" for v
    using not_companion_key [of v] tidyD(1,2) [OF tidy] effective_mem [OF that] key by metis
  have "epKey t \<noteq> epKey e" if e: "e \<in> set (Create ?c)" for e
  proof -
    obtain v where v: "effective desired v" "epKey v \<notin> epKey ` set (records cur)" "e = v \<or> e = ownershipTXTFor p (DNSName v)"
      using e unfolding mem_Create [OF r(1)] by blast
    have "DNSName v \<noteq> DNSName w" using v(2) w(2) tidyD(5) [OF tidy effective_mem [OF v(1)] mem] by auto
    then show ?thesis using v des key companion_key [of p "DNSName w" p "DNSName v"] by metis
  qed
  moreover have "epKey t \<noteq> epKey e" if "e \<in> set (UpdateNew ?c)" for e
    using that des unfolding mem_UpdateNew [OF r(1)] by metis
  moreover have "epKey t \<noteq> epKey e" if e: "e \<in> set (Delete ?c)" for e
  proof -
    obtain h where h: "effective (records cur) h" "epKey h \<notin> epKey ` set desired" "e = h \<or> e = ownershipTXTFor p (DNSName h)"
      using e unfolding mem_Delete [OF r(2)] by blast
    have "DNSName h \<noteq> DNSName w" using h(2) mem tidyD(4) [OF tidy mem effective_mem [OF h(1)]] by (metis image_eqI)
    moreover have "epKey h \<noteq> epKey t"
      using not_companion_key [of h] effective_records [OF h(1)] tidyD(3) [OF tidy] key by metis
    ultimately show ?thesis using h(3) key companion_key [of p "DNSName w" p "DNSName h"] by metis
  qed
  ultimately have "epKey t \<notin> epKey ` (set (Create ?c) \<union> set (UpdateNew ?c) \<union> set (Delete ?c))" by blast
  then have "apply_spec ?c z (epKey t) = Some t" using t(1) zone_list_mem [OF z] by (simp add: plan_lookup [OF tidy r])
  then show ?thesis using t zone_list_mem [OF z'] unfolding owns_def by blast
qed

lemma round_publishes:
  assumes "tidy desired cur" and "range_ok rd" "range_ok rc"
    and "zone_list z cur" and "zone_list (apply_spec (Calculate rd rc p desired cur) z) cur2" and free: "unclaimed p desired cur"
  shows "published p desired cur2"
  unfolding published_def
proof (intro allI impI)
  fix w assume w: "effective desired w"
  have own: "owns p cur2 (DNSName w)"
  proof (cases "epKey w \<in> epKey ` set (records cur)")
    case True
    then have "owns p cur (DNSName w)" using free effective_mem [OF w] unfolding unclaimed_def by (metis imageE)
    then show ?thesis using companion_kept [OF assms(1-5) w True] by blast
  next
    case False
    then show ?thesis using created_owned [OF assms(1-3,5) w] by blast
  qed
  moreover obtain h where "effective (records cur2) h" "epKey h = epKey w" "endpointsEqual h w"
    using round_desired [OF assms(1-5) w] own by blast
  ultimately show "owns p cur2 (DNSName w) \<and> (\<exists>h \<in> set cur2. epKey h = epKey w \<and> endpointsEqual h w)"
    using effective_records by blast
qed

lemma apply_spec_empty: "IsEmpty ch \<Longrightarrow> apply_spec ch zm = zm"
  by (rule ext) (simp add: apply_spec_def IsEmpty_iff)


section \<open>The contract\<close>

text \<open>
  \<open>accepts\<close> is what a provider needs of a change set to carry it out in full: nothing for the
  in-memory store, records that convert and keys that are new for DNS.
\<close>

locale zone_provider =
  fixes prov :: "'p provider"
    and zone_of :: "'p \<Rightarrow> zone"
    and invar :: "'p \<Rightarrow> bool"
    and accepts :: "'p \<Rightarrow> changes \<Rightarrow> bool"
  assumes records_law: "invar s \<Longrightarrow> \<exists>eps. Records prov s = (Inr eps, s) \<and> zone_list (zone_of s) eps"
    and apply_law: "invar s \<Longrightarrow> conflict_free c \<Longrightarrow> accepts s c \<Longrightarrow>
      \<exists>s'. ApplyChanges prov s c = (None, s') \<and> invar s' \<and> zone_of s' = apply_spec c (zone_of s)"
begin

text \<open>
  A round on tidy inputs succeeds, and whatever is listed afterwards needs no change; where nobody else's record was in
  the way, it has what is desired.
\<close>

lemma round_settles:
  assumes "invar s" and "Records prov s = (Inr cur, s1)" and "tidy desired cur"
    and r: "range_ok rd" "range_ok rc" and "accepts s (Calculate rd rc p desired cur)"
  shows "\<exists>s2 cur2. ApplyChanges prov s1 (Calculate rd rc p desired cur) = (None, s2)
           \<and> invar s2 \<and> Records prov s2 = (Inr cur2, s2) \<and> converged p desired cur2
           \<and> (unclaimed p desired cur \<longrightarrow> published p desired cur2)"
proof -
  from records_law [OF assms(1)] assms(2) have cur: "s1 = s" "zone_list (zone_of s) cur" by auto
  from apply_law [OF assms(1) tidy_conflict_free [OF assms(3) r] assms(6)]
  obtain s2 where s2: "ApplyChanges prov s (Calculate rd rc p desired cur) = (None, s2)" "invar s2"
    "zone_of s2 = apply_spec (Calculate rd rc p desired cur) (zone_of s)"
    by blast
  from records_law [OF s2(2)] obtain cur2 where
    cur2: "Records prov s2 = (Inr cur2, s2)" "zone_list (zone_of s2) cur2" by blast
  have "converged p desired cur2"
    using round_converges [OF assms(3) r cur(2)] cur2(2) s2(3) by simp
  moreover have "published p desired cur2" if "unclaimed p desired cur"
    using round_publishes [OF assms(3) r cur(2) _ that] cur2(2) s2(3) by simp
  ultimately show ?thesis using s2 cur2 cur(1) by blast
qed

text \<open>When the plan is empty, nothing has to be written for that.\<close>

lemma empty_round_publishes:
  assumes "invar s" and "Records prov s = (Inr cur, s1)" and "tidy desired cur"
    and "range_ok rd" "range_ok rc" and "IsEmpty (Calculate rd rc p desired cur)" and "unclaimed p desired cur"
  shows "published p desired cur"
proof -
  have "zone_list (zone_of s) cur" using records_law [OF assms(1)] assms(2) by auto
  then show ?thesis
    using round_publishes [OF assms(3-5) _ _ assms(7), of "zone_of s" cur] by (simp add: apply_spec_empty [OF assms(6)])
qed

end

end
