(* ===== verification/FakeProvider.thy ===== *)
theory FakeProvider
  imports Provider
begin

text \<open>
  \<open>pkg/provider/fake/fake.go\<close>: the in-memory provider.  Its mutex makes every method atomic, so
  each method is one function on the state.  \<open>Records\<close> ranges over the map, in the order \<open>rng\<close>.

  Shown here: the store satisfies the provider contract \<open>zone_provider\<close> for every iteration
  order, and, where a change set both creates and deletes a key, the deletion wins.
\<close>

record ChangeRecord =
  crCreate :: "endpoint list"
  crUpdateOld :: "endpoint list"
  crUpdateNew :: "endpoint list"
  crDelete :: "endpoint list"

record fake_provider =
  fpRecords :: "(string, endpoint) gomap"
  fpHistory :: "ChangeRecord list"

definition fake_key :: "endpoint \<Rightarrow> string" where
  "fake_key ep = DNSName ep @ ''|'' @ RecordType ep"

definition fake_New :: "endpoint list \<Rightarrow> fake_provider" where
  "fake_New initial =
     \<lparr>fpRecords = fold (\<lambda>ep. AList.update (fake_key ep) ep) initial [], fpHistory = []\<rparr>"

definition fake_Records ::
  "(string, endpoint) range_order \<Rightarrow> fake_provider \<Rightarrow> endpoint list result \<times> fake_provider"
where
  "fake_Records rng p = (Inr (map snd (rng (fpRecords p))), p)"

text \<open>The update loop: remove the old key, then store the new record if there is one.\<close>

fun fake_updates ::
  "endpoint list \<Rightarrow> endpoint list \<Rightarrow> (string, endpoint) gomap \<Rightarrow> (string, endpoint) gomap"
where
  "fake_updates [] news m = m"
| "fake_updates (old # olds) [] m = fake_updates olds [] (AList.delete (fake_key old) m)"
| "fake_updates (old # olds) (new # news) m =
     fake_updates olds news (AList.update (fake_key new) new (AList.delete (fake_key old) m))"

definition fake_ApplyChanges :: "fake_provider \<Rightarrow> changes \<Rightarrow> goerror option \<times> fake_provider" where
  "fake_ApplyChanges p c =
     (let m = fold (\<lambda>ep. AList.update (fake_key ep) ep) (Create c) (fpRecords p);
          m = fake_updates (UpdateOld c) (UpdateNew c) m;
          m = fold (\<lambda>ep. AList.delete (fake_key ep)) (Delete c) m
      in (None,
          p\<lparr>fpRecords := m,
            fpHistory := fpHistory p @
              [\<lparr>crCreate = Create c, crUpdateOld = UpdateOld c, crUpdateNew = UpdateNew c,
                crDelete = Delete c\<rparr>]\<rparr>))"

definition fake_History :: "fake_provider \<Rightarrow> ChangeRecord list" where
  "fake_History p = fpHistory p"

definition fake_RecordCount :: "fake_provider \<Rightarrow> nat" where
  "fake_RecordCount p = length (fpRecords p)"

definition fake_methods :: "(string, endpoint) range_order \<Rightarrow> fake_provider provider" where
  "fake_methods rng = \<lparr>Records = fake_Records rng, ApplyChanges = fake_ApplyChanges\<rparr>"


section \<open>The contract holds\<close>

definition fake_invar :: "fake_provider \<Rightarrow> bool" where
  "fake_invar p \<longleftrightarrow> gomap_ok (fpRecords p) \<and> (\<forall>(k, e) \<in> set (fpRecords p). k = epKey e)"

definition fake_zone :: "fake_provider \<Rightarrow> zone" where
  "fake_zone p = map_of (fpRecords p)"

lemma fake_key_epKey [simp]: "fake_key = epKey"
  by (simp add: fun_eq_iff fake_key_def epKey_def)

lemma fake_updates_lookup:
  "map epKey olds = map epKey news \<Longrightarrow>
   map_of (fake_updates olds news m) k =
     (case find (\<lambda>e. epKey e = k) (rev news) of Some e \<Rightarrow> Some e | None \<Rightarrow> map_of m k)"
proof (induction olds news m rule: fake_updates.induct)
  case (3 old olds new news m)
  then show ?case by (cases "find (\<lambda>e. epKey e = k) (rev news)") (simp_all add: gomap_simps find_append)
qed simp_all

lemma fake_updates_ok: "gomap_ok m \<Longrightarrow> gomap_ok (fake_updates olds news m)"
  by (induction olds news m rule: fake_updates.induct) (simp_all add: gomap.invar_update gomap.invar_delete)

lemma fake_apply_lookup:
  assumes "conflict_free c"
  shows "map_of (fpRecords (snd (fake_ApplyChanges p c))) k = apply_spec c (fake_zone p) k"
proof -
  let ?in = "\<lambda>xs. find (\<lambda>e. epKey e = k) (rev xs)"
  have keys: "map epKey (UpdateOld c) = map epKey (UpdateNew c)"
    and disj: "\<And>a b. a \<in> set (Create c) \<Longrightarrow> b \<in> set (UpdateNew c) \<Longrightarrow> epKey a \<noteq> epKey b"
      "\<And>a b. a \<in> set (Delete c) \<Longrightarrow> b \<in> set (UpdateNew c) \<Longrightarrow> epKey a \<noteq> epKey b"
      "\<And>a b. a \<in> set (Create c) \<Longrightarrow> b \<in> set (Delete c) \<Longrightarrow> epKey a \<noteq> epKey b"
    using assms by (auto simp: conflict_free_def)
  then have old: "epKey ` set (UpdateOld c) = epKey ` set (UpdateNew c)" by (metis list.set_map)
  have run: "map_of (fpRecords (snd (fake_ApplyChanges p c))) k =
      (if k \<in> epKey ` set (Delete c) then None
       else case ?in (UpdateNew c) of Some e \<Rightarrow> Some e
         | None \<Rightarrow> (case ?in (Create c) of Some e \<Rightarrow> Some e | None \<Rightarrow> fake_zone p k))"
    by (simp add: fake_ApplyChanges_def Let_def gomap.lookup_drain fake_updates_lookup [OF keys]
        gomap.lookup_fill [where val = "\<lambda>e. e"] fake_zone_def cong: option.case_cong)
  show ?thesis
  proof (cases "?in (Create c)")
    case None
    show ?thesis
    proof (cases "?in (UpdateNew c)")
      case none: None
      then have "k \<notin> epKey ` set (UpdateOld c)" unfolding old by (auto simp: find_rev_None)
      with None none run show ?thesis by (simp add: apply_spec_def)
    next
      case (Some b)
      then have "b \<in> set (UpdateNew c)" "epKey b = k" by (auto dest: find_rev_Some)
      then have "k \<notin> epKey ` set (Delete c)" using disj(2) by (metis imageE)
      with None Some run show ?thesis by (simp add: apply_spec_def)
    qed
  next
    case (Some e)
    then have e: "e \<in> set (Create c)" "epKey e = k" by (auto dest: find_rev_Some)
    have "\<forall>b \<in> set (UpdateNew c). epKey b \<noteq> k" using disj(1) [OF e(1)] e(2) by metis
    moreover have "\<forall>b \<in> set (Delete c). epKey b \<noteq> k" using disj(3) [OF e(1)] e(2) by metis
    ultimately have "?in (UpdateNew c) = None" "k \<notin> epKey ` set (Delete c)"
      by (auto simp: find_rev_None)
    with Some run show ?thesis by (simp add: apply_spec_def)
  qed
qed

lemma fake_apply_ok: "gomap_ok (fpRecords p) \<Longrightarrow> gomap_ok (fpRecords (snd (fake_ApplyChanges p c)))"
  by (simp add: fake_ApplyChanges_def Let_def gomap.invar_drain fake_updates_ok gomap.invar_fill)

lemma fake_invar_lookup:
  "fake_invar p \<longleftrightarrow> gomap_ok (fpRecords p) \<and> (\<forall>k e. fake_zone p k = Some e \<longrightarrow> epKey e = k)"
proof (cases "gomap_ok (fpRecords p)")
  case True
  then have "(\<forall>(k, e) \<in> set (fpRecords p). k = epKey e) \<longleftrightarrow> (\<forall>k e. fake_zone p k = Some e \<longrightarrow> k = epKey e)"
    by (simp add: fake_zone_def gomap_ok_def Ball_def)
  with True show ?thesis unfolding fake_invar_def by metis
qed (simp add: fake_invar_def)

lemma fake_zone_list:
  assumes "fake_invar p" and "range_ok rng"
  shows "zone_list (fake_zone p) (map snd (rng (fpRecords p)))"
proof -
  have "ran (map_of (fpRecords p)) = snd ` set (fpRecords p)"
    using assms(1) by (simp add: fake_invar_def gomap_ok_def ran_distinct)
  then show ?thesis
    using assms by (auto simp: zone_list_def fake_invar_lookup fake_zone_def)
qed

lemma fake_is_zone_provider:
  assumes "range_ok rng"
  shows "zone_provider (fake_methods rng) fake_zone fake_invar (\<lambda>_ _. True)"
proof unfold_locales
  fix s
  assume "fake_invar s"
  then show "\<exists>eps. Records (fake_methods rng) s = (Inr eps, s) \<and> zone_list (fake_zone s) eps"
    using fake_zone_list [OF _ assms] by (simp add: fake_methods_def fake_Records_def)
next
  fix s c
  assume inv: "fake_invar s" and c: "conflict_free c"
  have z: "fake_zone (snd (fake_ApplyChanges s c)) = apply_spec c (fake_zone s)"
    using fake_apply_lookup [OF c] by (simp add: fun_eq_iff fake_zone_def)
  then have "fake_invar (snd (fake_ApplyChanges s c))"
    using inv apply_spec_keys [of "fake_zone s" c] fake_apply_ok unfolding fake_invar_lookup by metis
  moreover have "fst (fake_ApplyChanges s c) = None" by (simp add: fake_ApplyChanges_def Let_def)
  ultimately show "\<exists>s'. ApplyChanges (fake_methods rng) s c = (None, s') \<and> fake_invar s'
      \<and> fake_zone s' = apply_spec c (fake_zone s)"
    using z by (intro exI [of _ "snd (fake_ApplyChanges s c)"]) (simp add: fake_methods_def prod_eq_iff)
qed

interpretation fake: zone_provider "fake_methods rev" fake_zone fake_invar "\<lambda>_ _. True"
  by (rule fake_is_zone_provider [OF range_ok_rev])

lemma fake_New_invar: "fake_invar (fake_New eps)"
proof -
  have "fpRecords (fake_New eps) = indexEndpoints eps"
    by (simp add: fake_New_def indexEndpoints_def)
  then show ?thesis by (auto simp: fake_invar_def dest: index_keys)
qed

end
