(* ===== verification/Source.thy ===== *)
theory Source
  imports Plan
begin

text \<open>
  \<open>pkg/source/source.go\<close>: the \<open>Source\<close> interface as a table of methods over the source's state,
  with handlers of an abstract type, and the contract a reconciler can rely on: every endpoint
  has a non-empty name without the key separator, exactly one target and a positive TTL.  The
  client's lemma is that the plan's map key then identifies name and record type.
\<close>

record ('h, 's) source =
  Endpoints :: "'s \<Rightarrow> endpoint list result \<times> 's"
  AddEventHandler :: "'h \<Rightarrow> 's \<Rightarrow> 's"

definition sound_endpoint :: "endpoint \<Rightarrow> bool" where
  "sound_endpoint e \<longleftrightarrow>
     DNSName e \<noteq> [] \<and> CHR ''|'' \<notin> set (DNSName e) \<and> length (Targets e) = 1 \<and> 0 < TTL e"

lemma sound_key:
  assumes "sound_endpoint a" and "sound_endpoint b" and "epKey a = epKey b"
  shows "DNSName a = DNSName b \<and> RecordType a = RecordType b"
proof -
  have "CutByte (epKey e) CHR ''|'' = (DNSName e, RecordType e, True)" if "sound_endpoint e" for e
    using that CutByte_append [of "CHR ''|''" "DNSName e" "RecordType e"]
    by (simp add: sound_endpoint_def epKey_def)
  with assms show ?thesis by (metis prod.inject)
qed

locale endpoint_source =
  fixes src :: "('h, 's) source"
  assumes endpoints_sound: "Endpoints src s = (Inr eps, s') \<Longrightarrow> e \<in> set eps \<Longrightarrow> sound_endpoint e"
begin

text \<open>Two endpoints of a source that share a map key describe the same name and type.\<close>

lemma source_key_unique:
  "Endpoints src s = (Inr eps, s') \<Longrightarrow> a \<in> set eps \<Longrightarrow> b \<in> set eps \<Longrightarrow> epKey a = epKey b \<Longrightarrow>
     DNSName a = DNSName b \<and> RecordType a = RecordType b"
  using endpoints_sound sound_key by blast

text \<open>What is indexed for a key has the name and the type the key was made from.\<close>

lemma source_index_sound:
  "Endpoints src s = (Inr eps, s') \<Longrightarrow> w \<in> set eps \<Longrightarrow>
     \<exists>e. map_of (indexEndpoints eps) (epKey w) = Some e \<and> sound_endpoint e
       \<and> DNSName e = DNSName w \<and> RecordType e = RecordType w"
  using effective_exists [of "epKey w" eps] endpoints_sound source_key_unique
  by (metis effective_mem image_eqI map_of_index_effective)

end

end
