(* ===== verification/FakeSource.thy ===== *)
theory FakeSource
  imports Source
begin

text \<open>
  \<open>pkg/source/fake/fake.go\<close>: a source with a fixed endpoint list and handlers that
  \<open>TriggerEvent\<close> calls.  The mutex makes each method atomic; \<open>TriggerEvent\<close> copies the handler
  list under the lock and calls the copies after releasing it, so its result is the sequence of
  handlers to call.
\<close>

record 'h fake_source =
  fsEndpoints :: "endpoint list"
  fsHandlers :: "'h list"

definition fakesrc_New :: "endpoint list \<Rightarrow> 'h fake_source" where
  "fakesrc_New eps = \<lparr>fsEndpoints = eps, fsHandlers = []\<rparr>"

definition fakesrc_Endpoints :: "'h fake_source \<Rightarrow> endpoint list result \<times> 'h fake_source" where
  "fakesrc_Endpoints s = (Inr (fsEndpoints s), s)"

definition fakesrc_AddEventHandler :: "'h \<Rightarrow> 'h fake_source \<Rightarrow> 'h fake_source" where
  "fakesrc_AddEventHandler h s = s\<lparr>fsHandlers := fsHandlers s @ [h]\<rparr>"

definition fakesrc_TriggerEvent :: "'h fake_source \<Rightarrow> 'h list" where
  "fakesrc_TriggerEvent s = fsHandlers s"

definition fakesrc_SetEndpoints :: "endpoint list \<Rightarrow> 'h fake_source \<Rightarrow> 'h fake_source" where
  "fakesrc_SetEndpoints eps s = s\<lparr>fsEndpoints := eps\<rparr>"

definition fakesrc_methods :: "('h, 'h fake_source) source" where
  "fakesrc_methods = \<lparr>Endpoints = fakesrc_Endpoints, AddEventHandler = fakesrc_AddEventHandler\<rparr>"

lemmas fakesrc_defs = fakesrc_New_def fakesrc_Endpoints_def fakesrc_AddEventHandler_def
  fakesrc_TriggerEvent_def fakesrc_SetEndpoints_def fakesrc_methods_def

text \<open>Handlers are called in registration order, and replacing the endpoints keeps them.\<close>

lemma fakesrc_trigger_order:
  "fakesrc_TriggerEvent (fakesrc_SetEndpoints eps (fold fakesrc_AddEventHandler hs (fakesrc_New es))) = hs"
proof -
  have "fsHandlers (fold fakesrc_AddEventHandler hs s) = fsHandlers s @ hs" for s
    by (induction hs arbitrary: s) (simp_all add: fakesrc_defs)
  then show ?thesis by (simp add: fakesrc_defs)
qed

end
