(* ===== verification/PlanLimits.thy ===== *)
theory PlanLimits
  imports FakeProvider
begin

text \<open>
  Where the diff engine's ownership model falls short of its intent.  Ownership is kept per name, in
  one TXT record, while records are compared per name and type.  The two properties here follow
  a name with records of two types over several cycles; the zones between the cycles are the
  ones the in-memory provider reaches.  The last lemma is about the key \<open>DNSName|RecordType\<close>, which two
  different names can share.
\<close>

lemma key_by_type: "DNSName a = DNSName b \<Longrightarrow> RecordType a \<noteq> RecordType b \<Longrightarrow> epKey a \<noteq> epKey b"
  by (simp add: epKey_def)

lemma unmarked_not_owned: "\<forall>e \<in> set cur. \<not> isOwnershipTXT e \<Longrightarrow> \<not> owns p cur n"
  by (auto simp: owns_def isOwnershipTXT_def ownershipName_def)

text \<open>The plan when one of two records of an owned name is not desired.\<close>

lemma drop_one_of_two:
  assumes r: "range_ok rd" "range_ok rc" and ab: "DNSName a = DNSName b" "RecordType a \<noteq> RecordType b"
    and no: "\<not> isOwnershipTXT a" "\<not> isOwnershipTXT b" and cur: "set cur = {a, b, ownershipTXTFor p (DNSName b)}"
  shows "Create (Calculate rd rc p [a] cur) = []" "UpdateOld (Calculate rd rc p [a] cur) = []"
    "UpdateNew (Calculate rd rc p [a] cur) = []"
    "set (Delete (Calculate rd rc p [a] cur)) = {b, ownershipTXTFor p (DNSName b)}"
proof -
  have key: "epKey a \<noteq> epKey b" using ab by (rule key_by_type)
  have recs: "set (records cur) = {a, b}" using no cur by (auto simp: filterOwnershipTXTs_eq)
  then have eff: "effective (records cur) e \<longleftrightarrow> e = a \<or> e = b" for e
    using effective_inj [of "records cur" e] key by (auto simp: inj_on_def)
  have one: "effective [a] w \<longleftrightarrow> w = a" for w using effective_inj [of "[a]" w] by simp
  have own: "owns p cur (DNSName b)" using cur by (auto simp: owns_def)
  show "Create (Calculate rd rc p [a] cur) = []"
    by (simp add: empty_by_mem mem_Create [OF r(1)] one recs)
  show old: "UpdateOld (Calculate rd rc p [a] cur) = []"
    using key by (auto simp: empty_by_mem mem_UpdateOld [OF r(1)] one eff)
  then show "UpdateNew (Calculate rd rc p [a] cur) = []" by (metis length_0_conv length_Updates)
  show "set (Delete (Calculate rd rc p [a] cur)) = {b, ownershipTXTFor p (DNSName b)}"
    using key own unfolding set_eq_iff mem_Delete [OF r(2)] eff by (auto intro: exI [of _ b])
qed

text \<open>
  C37. Two record types at one name share one ownership record, and dropping one of them orphans the
  other: when A and AAAA records of an owned name exist and only the first is still desired, the
  plan deletes the second together with the name's ownership record.  What is left of the name is no
  longer owned: when its container goes away too, no plan ever deletes it.
\<close>

theorem shared_ownership_orphans:
  assumes "range_ok rd" "range_ok rc" "range_ok rd'" "range_ok rc'"
    and "DNSName a = DNSName b" "RecordType a \<noteq> RecordType b" "\<not> isOwnershipTXT a" "\<not> isOwnershipTXT b"
    and "CHR ''|'' \<notin> set (RecordType a)" and "cur = [a, b, ownershipTXTFor p (DNSName b)]"
  shows "set (Delete (Calculate rd rc p [a] cur)) = {b, ownershipTXTFor p (DNSName b)}
    \<and> fake_zone (snd (fake_ApplyChanges (fake_New cur) (Calculate rd rc p [a] cur))) = [epKey a \<mapsto> a]
    \<and> IsEmpty (Calculate rd' rc' p [] [a])"
proof -
  let ?ch = "Calculate rd rc p [a] cur" and ?txt = "ownershipTXTFor p (DNSName b)"
  have cur: "set cur = {a, b, ?txt}" by (simp add: assms(10))
  note ch = drop_one_of_two [OF assms(1,2,5-8) cur]
  have key: "epKey a \<noteq> epKey b" "epKey a \<noteq> epKey ?txt"
    using key_by_type assms(5,6) not_companion_key assms(7,9) by auto
  have "map_of (fpRecords (fake_New cur)) = [epKey a \<mapsto> a, epKey b \<mapsto> b, epKey ?txt \<mapsto> ?txt]"
    using key(1) by (simp add: fake_New_def assms(10) gomap_simps fun_upd_twist)
  then have "map_of (fpRecords (snd (fake_ApplyChanges (fake_New cur) ?ch))) k = [epKey a \<mapsto> a] k" for k
    using key by (auto simp: fake_ApplyChanges_def Let_def gomap.lookup_drain ch)
  then have "fake_zone (snd (fake_ApplyChanges (fake_New cur) ?ch)) = [epKey a \<mapsto> a]"
    by (auto simp: fake_zone_def)
  moreover have "converged p [] [a]"
    using unmarked_not_owned [of "[a]" p] assms(7) by (simp add: converged_def effective_def)
  ultimately show ?thesis using ch converged_iff_empty [OF assms(3,4)] by blast
qed

definition ex_AAAA :: "string \<Rightarrow> string \<Rightarrow> endpoint" where
  "ex_AAAA n t = endpoint_New n [t] RecordTypeAAAA 300 None"

theorem shared_ownership_orphans_witness:
  "set (Delete (Calculate (\<lambda>m. m) rev ex_plan [ex_A ''n.ex'' ''1.1.1.1'']
      [ex_A ''n.ex'' ''1.1.1.1'', ex_AAAA ''n.ex'' ''::1'', ownershipTXTFor ex_plan ''n.ex'']))
     = {ex_AAAA ''n.ex'' ''::1'', ownershipTXTFor ex_plan ''n.ex''}
   \<and> IsEmpty (Calculate rev (\<lambda>m. m) ex_plan [] [ex_A ''n.ex'' ''1.1.1.1''])"
  using shared_ownership_orphans [OF range_ok_id range_ok_rev range_ok_rev range_ok_id,
      of "ex_A ''n.ex'' ''1.1.1.1''" "ex_AAAA ''n.ex'' ''::1''" _ ex_plan]
  by (simp add: ex_A_def ex_AAAA_def isOwnershipTXT_def)

text \<open>
  C38. A record of another type that somebody else made is taken over and deleted.  When a name has a
  foreign record and no ownership record, a desired record of a different type is created there
  together with an ownership record for the name; on the next cycle the foreign record counts as
  owned and is deleted, although it was never created by the daemon, and the ownership record
  just written is deleted with it.
\<close>

theorem foreign_record_taken_over:
  assumes "range_ok rd" "range_ok rc" "range_ok rd'" "range_ok rc'" "range_ok rng"
    and "DNSName a = DNSName m" "RecordType a \<noteq> RecordType m" "\<not> isOwnershipTXT a" "\<not> isOwnershipTXT m"
    and "CHR ''|'' \<notin> set (RecordType a)" "CHR ''|'' \<notin> set (RecordType m)"
    and "s1 = snd (fake_ApplyChanges (fake_New [m]) (Calculate rd rc p [a] [m]))"
    and "cur = map snd (rng (fpRecords s1))"
  shows "\<not> owns p [m] (DNSName m)
    \<and> set (Delete (Calculate rd' rc' p [a] cur)) = {m, ownershipTXTFor p (DNSName m)}
    \<and> Create (Calculate rd' rc' p [a] cur) = []"
proof -
  let ?txt = "ownershipTXTFor p (DNSName m)"
  have key: "epKey a \<noteq> epKey m" "epKey a \<noteq> epKey ?txt" "epKey m \<noteq> epKey ?txt"
    using key_by_type assms(6,7) not_companion_key assms(8-11) by auto
  have unowned: "\<not> owns p [m] n" for n using unmarked_not_owned [of "[m]" p] assms(9) by simp
  have one: "effective [x] w \<longleftrightarrow> w = x" for x w using effective_inj [of "[x]" w] by simp
  have recs: "records [m] = [m]" using assms(9) by (simp add: filterOwnershipTXTs_eq)
  have idx: "indexEndpoints [x] = [(epKey x, x)]" for x by (simp add: indexEndpoints_def)
  have "Calculate rd rc p [a] [m] = \<lparr>Create = [a, ?txt], UpdateOld = [], UpdateNew = [], Delete = []\<rparr>"
    using key assms(6) unowned
    by (intro changes.equality) (simp_all add: Calculate_sel recs idx range_ok_single [OF assms(1)]
        range_ok_single [OF assms(2)] createsOf_def updatesOf_def deletesOf_def)
  then have "fpRecords s1 = [(epKey m, m), (epKey a, a), (epKey ?txt, ?txt)]"
    using key by (simp add: assms(12) fake_New_def fake_ApplyChanges_def Let_def)
  then have "set cur = {a, m, ?txt}" using assms(5) by (auto simp: assms(13))
  from drop_one_of_two [OF assms(3,4,6-9) this] unowned show ?thesis by simp
qed

theorem foreign_record_taken_over_witness:
  "let a = ex_A ''n.ex'' ''1.1.1.1''; m = ex_AAAA ''n.ex'' ''::1'';
       s1 = snd (fake_ApplyChanges (fake_New [m]) (Calculate (\<lambda>m. m) rev ex_plan [a] [m]))
   in m \<in> set (Delete (Calculate rev (\<lambda>m. m) ex_plan [a] (map snd (rev (fpRecords s1)))))"
  using foreign_record_taken_over [OF range_ok_id range_ok_rev range_ok_rev range_ok_id range_ok_rev _ _ _ _ _ _ refl refl,
      of "ex_A ''n.ex'' ''1.1.1.1''" "ex_AAAA ''n.ex'' ''::1''" ex_plan]
  by (simp add: ex_A_def ex_AAAA_def isOwnershipTXT_def Let_def)

text \<open>
  A record type with the key separator, which the label of a container may carry, makes the key of an owned name
  equal to the key of another name: the plan then replaces a record that is not owned.
\<close>

lemma ambiguous_key_takes_unowned:
  assumes r: "range_ok rd" "range_ok rc" and w: "DNSName w = n" "RecordType w = m @ ''|'' @ t"
    and h: "DNSName h = n @ ''|'' @ m" "RecordType h = t" "\<not> isOwnershipTXT h" and ne: "\<not> endpointsEqual h w"
  shows "\<not> owns p [h, ownershipTXTFor p n] (DNSName h)
    \<and> UpdateOld (Calculate rd rc p [w] [h, ownershipTXTFor p n]) = [h]"
proof -
  let ?cur = "[h, ownershipTXTFor p n]"
  have recs: "records ?cur = [h]" using h(3) by (simp add: filterOwnershipTXTs_eq)
  have one: "indexEndpoints [x] = [(epKey x, x)]" for x by (simp add: indexEndpoints_def)
  have key: "epKey h = epKey w" using w h(1,2) by (simp add: epKey_def)
  have own: "owns p ?cur (DNSName w)" using w(1) by (simp add: owns_def)
  have "UpdateOld (Calculate rd rc p [w] ?cur) = [h]"
    unfolding Calculate_sel recs one range_ok_single [OF r(1)] using key own ne by (simp add: updatesOf_def)
  moreover have "\<not> owns p ?cur (DNSName h)"
    using h(1,3) by (auto simp: owns_def isOwnershipTXT_def ownershipName_def HasPrefix_iff)
  ultimately show ?thesis by blast
qed

text \<open>For instance the label \<open>foo.ex|A\<close> of a container named \<open>a.ex\<close> and a record at the name \<open>a.ex|foo.ex\<close>.\<close>

lemma ambiguous_key_example:
  "UpdateOld (Calculate (\<lambda>m. m) rev ex_plan [endpoint_New ''a.ex'' [''10.0.0.1''] ''foo.ex|A'' 300 None]
     [ex_A ''a.ex|foo.ex'' ''10.9.9.9'', ownershipTXTFor ex_plan ''a.ex'']) = [ex_A ''a.ex|foo.ex'' ''10.9.9.9'']"
proof -
  let ?w = "endpoint_New ''a.ex'' [''10.0.0.1''] ''foo.ex|A'' 300 None" and ?h = "ex_A ''a.ex|foo.ex'' ''10.9.9.9''"
  have "\<not> isOwnershipTXT ?h" "\<not> endpointsEqual ?h ?w"
    by (simp_all add: ex_A_def isOwnershipTXT_def endpointsEqual_iff)
  then show ?thesis
    using ambiguous_key_takes_unowned [OF range_ok_id range_ok_rev, of ?w "''a.ex''" "''foo.ex''" "''A''" ?h ex_plan]
    by (simp add: ex_A_def)
qed

end
