(* ===== verification/Rfc2136.thy ===== *)
theory Rfc2136
  imports Provider
begin

text \<open>
  \<open>pkg/provider/rfc2136/rfc2136.go\<close>: the provider that reads a zone with AXFR and writes it with
  RFC 2136 UPDATE messages.

  The DNS library is not part of the repository.  Its constants and \<open>Fqdn\<close> are the record
  \<open>dns_lib\<close>, its two transports the record \<open>network\<close> over a state \<open>'n\<close> of the outside world; both
  are arguments.  A \<open>*dns.Msg\<close> is the list of library calls made on it, in order, so what reaches
  the server is exactly what the code asked the library to put there.  \<open>fqdn_law\<close> is the only law
  of the library that is used: \<open>Fqdn\<close> appends a dot unless the name ends in one (for names
  without escapes).

  Shown here: which endpoints convert to resource records and that conversion and reading back are
  inverse on canonical ones, the exact message of a change set, and every error path.
\<close>


section \<open>The DNS library\<close>

record dns_lib =
  Fqdn :: "string \<Rightarrow> string"
  TypeA :: "16 word"
  TypeAAAA :: "16 word"
  TypeCNAME :: "16 word"
  TypeTXT :: "16 word"
  TypeSOA :: "16 word"
  TypeNone :: "16 word"
  ClassINET :: "16 word"
  HmacSHA256 :: string
  RcodeSuccess :: nat
  RcodeToString :: "nat \<Rightarrow> string"

definition fqdn_law :: "dns_lib \<Rightarrow> bool" where
  "fqdn_law lib \<longleftrightarrow>
     (\<forall>s. CHR 0x5C \<notin> set s \<longrightarrow> Fqdn lib s = (if HasSuffix s ''.'' then s else s @ ''.''))"

record RR_Header =
  hdrName :: string
  Rrtype :: "16 word"
  Class :: "16 word"
  hdrTtl :: "32 word"

datatype RR =
    RR_A (Header: RR_Header) ip
  | RR_AAAA (Header: RR_Header) ip
  | RR_CNAME (Header: RR_Header) string
  | RR_TXT (Header: RR_Header) "string list"
  | RR_Other (Header: RR_Header)

datatype msg_call =
    SetQuestion string "16 word"
  | SetAxfr string
  | SetUpdate string
  | RemoveRRs "RR list"
  | InsertRRs "RR list"
  | SetTsig string string int int

type_synonym msg = "msg_call list"

text \<open>
  What the \<open>select\<close> of \<open>Records\<close> receives, turn by turn: an envelope with records or an error, the
  closed channel, or the context's end.  The type has finite values only: a transfer neither
  ended nor cancelled is a call that has not returned.
\<close>

datatype axfr_stream =
    Closed
  | Cancelled goerror
  | Envelope "RR list result" axfr_stream

record ('t, 'e, 'n) network =
  In :: "'t \<Rightarrow> msg \<Rightarrow> string \<Rightarrow> 'n \<Rightarrow> axfr_stream result \<times> 'n"
  ExchangeContext :: "'e \<Rightarrow> msg \<Rightarrow> string \<Rightarrow> 'n \<Rightarrow> nat result \<times> 'n"
  NowUnix :: "'n \<Rightarrow> int"


section \<open>Configuration\<close>

definition defaultTimeout :: int where "defaultTimeout = 10000000000"

record rfc_config =
  Host :: string
  Port :: int
  Zone :: string
  TSIGKeyName :: string
  TSIGSecret :: string
  TSIGSecretAlg :: string
  MinTTL :: int
  Timeout :: int

record ('t, 'e) rfc_provider =
  cfg :: rfc_config
  server :: string
  tsigAlg :: string
  newTransferer :: 't
  exchanger :: 'e

record dns_Transfer =
  trTsigSecret :: "(string, string) gomap"
  ReadTimeout :: int

record dns_Client =
  clNet :: string
  clTsigSecret :: "(string, string) gomap"
  clTimeout :: int

definition normaliseTSIGAlg :: "dns_lib \<Rightarrow> string \<Rightarrow> string" where
  "normaliseTSIGAlg lib alg =
     (if alg = [] then HmacSHA256 lib
      else ToLower (if \<not> HasSuffix alg ''.'' then alg @ ''.'' else alg))"

definition rfc2136_New :: "dns_lib \<Rightarrow> rfc_config \<Rightarrow> (dns_Transfer, dns_Client) rfc_provider" where
  "rfc2136_New lib c =
     (let c = (if Port c = 0 then c\<lparr>Port := 53\<rparr> else c);
          c = (if Timeout c \<le> 0 then c\<lparr>Timeout := defaultTimeout\<rparr> else c);
          alg = normaliseTSIGAlg lib (TSIGSecretAlg c);
          server = Host c @ '':'' @ itoa (Port c);
          secret = [(Fqdn lib (TSIGKeyName c), TSIGSecret c)]
      in \<lparr>cfg = c, server = server, tsigAlg = alg,
          newTransferer = \<lparr>trTsigSecret = secret, ReadTimeout = Timeout c\<rparr>,
          exchanger = \<lparr>clNet = ''tcp'', clTsigSecret = secret, clTimeout = Timeout c\<rparr>\<rparr>)"

definition newWithDeps :: "dns_lib \<Rightarrow> rfc_config \<Rightarrow> 't \<Rightarrow> 'e \<Rightarrow> ('t, 'e) rfc_provider" where
  "newWithDeps lib c t e =
     (let c = (if Port c = 0 then c\<lparr>Port := 53\<rparr> else c)
      in \<lparr>cfg = c, server = Host c @ '':'' @ itoa (Port c),
          tsigAlg = normaliseTSIGAlg lib (TSIGSecretAlg c), newTransferer = t, exchanger = e\<rparr>)"


section \<open>Conversion\<close>

definition rrType :: "dns_lib \<Rightarrow> string \<Rightarrow> 16 word" where
  "rrType lib rt =
     (if rt = RecordTypeA then TypeA lib
      else if rt = RecordTypeAAAA then TypeAAAA lib
      else if rt = RecordTypeCNAME then TypeCNAME lib
      else if rt = RecordTypeTXT then TypeTXT lib
      else TypeNone lib)"

definition effectiveTTL :: "rfc_config \<Rightarrow> int \<Rightarrow> int" where
  "effectiveTTL c ttl = (if MinTTL c > 0 \<and> ttl < MinTTL c then MinTTL c else ttl)"

fun rrToEndpoint :: "RR \<Rightarrow> endpoint option" where
  "rrToEndpoint (RR_A h a) =
     Some (endpoint_New (TrimSuffix (hdrName h) ''.'') [IP_String a] RecordTypeA (uint (hdrTtl h)) None)"
| "rrToEndpoint (RR_AAAA h a) =
     Some (endpoint_New (TrimSuffix (hdrName h) ''.'') [IP_String a] RecordTypeAAAA (uint (hdrTtl h)) None)"
| "rrToEndpoint (RR_CNAME h t) =
     Some (endpoint_New (TrimSuffix (hdrName h) ''.'') [TrimSuffix t ''.''] RecordTypeCNAME (uint (hdrTtl h)) None)"
| "rrToEndpoint (RR_TXT h ts) =
     Some (endpoint_New (TrimSuffix (hdrName h) ''.'') ts RecordTypeTXT (uint (hdrTtl h)) None)"
| "rrToEndpoint (RR_Other h) = None"

text \<open>The header and the body of the loop over the targets; \<open>uint32(ttl)\<close> truncates.\<close>

definition rrHeader :: "dns_lib \<Rightarrow> rfc_config \<Rightarrow> endpoint \<Rightarrow> RR_Header" where
  "rrHeader lib c ep =
     \<lparr>hdrName = Fqdn lib (DNSName ep), Rrtype = rrType lib (RecordType ep), Class = ClassINET lib,
      hdrTtl = word_of_int (effectiveTTL c (TTL ep))\<rparr>"

definition targetToRR :: "dns_lib \<Rightarrow> rfc_config \<Rightarrow> endpoint \<Rightarrow> string \<Rightarrow> RR result" where
  "targetToRR lib c ep target =
     (if RecordType ep = RecordTypeA then
        (case Option.bind (ParseIP target) To4 of
           None \<Rightarrow> Inl (InvalidValue ''invalid IPv4 address for A record'' target)
         | Some ip \<Rightarrow> Inr (RR_A (rrHeader lib c ep) ip))
      else if RecordType ep = RecordTypeAAAA then
        (case ParseIP target of
           None \<Rightarrow> Inl (InvalidValue ''invalid IPv6 address for AAAA record'' target)
         | Some ip \<Rightarrow> Inr (RR_AAAA (rrHeader lib c ep) ip))
      else if RecordType ep = RecordTypeCNAME then
        Inr (RR_CNAME (rrHeader lib c ep) (Fqdn lib target))
      else if RecordType ep = RecordTypeTXT then
        Inr (RR_TXT (rrHeader lib c ep) [target])
      else Inl (InvalidValue ''unsupported record type'' (RecordType ep)))"

fun targetsToRRs :: "dns_lib \<Rightarrow> rfc_config \<Rightarrow> endpoint \<Rightarrow> string list \<Rightarrow> RR list \<Rightarrow> RR list result" where
  "targetsToRRs lib c ep [] rrs = Inr rrs"
| "targetsToRRs lib c ep (t # ts) rrs =
     (case targetToRR lib c ep t of
        Inl e \<Rightarrow> Inl e
      | Inr rr \<Rightarrow> targetsToRRs lib c ep ts (rrs @ [rr]))"

definition endpointToRRs :: "dns_lib \<Rightarrow> rfc_config \<Rightarrow> endpoint \<Rightarrow> RR list result" where
  "endpointToRRs lib c ep = targetsToRRs lib c ep (Targets ep) []"


section \<open>Operations\<close>

definition signMsg :: "dns_lib \<Rightarrow> ('t, 'e) rfc_provider \<Rightarrow> int \<Rightarrow> msg \<Rightarrow> msg" where
  "signMsg lib p now m =
     (if TSIGKeyName (cfg p) \<noteq> [] then m @ [SetTsig (Fqdn lib (TSIGKeyName (cfg p))) (tsigAlg p) 300 now] else m)"

definition Preflight ::
  "dns_lib \<Rightarrow> ('t, 'e, 'n) network \<Rightarrow> ('t, 'e) rfc_provider \<Rightarrow> 'n \<Rightarrow> goerror option \<times> 'n"
where
  "Preflight lib net p n =
     (let m = signMsg lib p (NowUnix net n) [SetQuestion (Fqdn lib (Zone (cfg p))) (TypeSOA lib)]
      in case ExchangeContext net (exchanger p) m (server p) n of
           (Inl e, n') \<Rightarrow> (Some (Wrap (''preflight SOA query to '' @ server p @ '' failed'') e), n')
         | (Inr rcode, n') \<Rightarrow>
             if rcode \<noteq> RcodeSuccess lib then
               (Some (RcodeError (''preflight SOA query failed: rcode '' @ RcodeToString lib rcode) rcode), n')
             else (None, n'))"

fun appendRRs :: "RR list \<Rightarrow> endpoint list \<Rightarrow> endpoint list" where
  "appendRRs [] eps = eps"
| "appendRRs (rr # rrs) eps =
     (case rrToEndpoint rr of None \<Rightarrow> appendRRs rrs eps | Some ep \<Rightarrow> appendRRs rrs (eps @ [ep]))"

fun readEnvelopes :: "string \<Rightarrow> axfr_stream \<Rightarrow> endpoint list \<Rightarrow> endpoint list result" where
  "readEnvelopes zone Closed eps = Inr eps"
| "readEnvelopes zone (Cancelled e) eps = Inl e"
| "readEnvelopes zone (Envelope (Inl e) s) eps = Inl (Wrap (''axfr '' @ zone) e)"
| "readEnvelopes zone (Envelope (Inr rrs) s) eps = readEnvelopes zone s (appendRRs rrs eps)"

definition rfc2136_Records ::
  "dns_lib \<Rightarrow> ('t, 'e, 'n) network \<Rightarrow> ('t, 'e) rfc_provider \<Rightarrow> 'n \<Rightarrow> endpoint list result \<times> 'n"
where
  "rfc2136_Records lib net p n =
     (let m = signMsg lib p (NowUnix net n) [SetAxfr (Fqdn lib (Zone (cfg p)))]
      in case In net (newTransferer p) m (server p) n of
           (Inl e, n') \<Rightarrow> (Inl (Wrap (''axfr '' @ Zone (cfg p)) e), n')
         | (Inr env, n') \<Rightarrow> (readEnvelopes (Zone (cfg p)) env [], n'))"

datatype rfc_warning =
    SkipDelete string goerror
  | SkipUpdateRemove string goerror
  | SkipUpdateInsert string goerror
  | SkipCreate string goerror

definition deleteStep ::
  "dns_lib \<Rightarrow> rfc_config \<Rightarrow> endpoint \<Rightarrow> rfc_warning list \<times> msg \<Rightarrow> rfc_warning list \<times> msg"
where
  "deleteStep lib c ep wm = (case wm of (ws, m) \<Rightarrow>
     (case endpointToRRs lib c ep of
        Inl e \<Rightarrow> (ws @ [SkipDelete (DNSName ep) e], m)
      | Inr rrs \<Rightarrow> (ws, m @ [RemoveRRs rrs])))"

definition updateStep ::
  "dns_lib \<Rightarrow> rfc_config \<Rightarrow> endpoint list \<Rightarrow> nat \<times> endpoint \<Rightarrow> rfc_warning list \<times> msg \<Rightarrow> rfc_warning list \<times> msg"
where
  "updateStep lib c news io wm = (case io of (i, old) \<Rightarrow> case wm of (ws, m) \<Rightarrow>
     (case endpointToRRs lib c old of
        Inl e \<Rightarrow> (ws @ [SkipUpdateRemove (DNSName old) e], m)
      | Inr rrs \<Rightarrow>
          let m = m @ [RemoveRRs rrs] in
          if i < length news then
            (case endpointToRRs lib c (news ! i) of
               Inl e \<Rightarrow> (ws @ [SkipUpdateInsert (DNSName (news ! i)) e], m)
             | Inr newRRs \<Rightarrow> (ws, m @ [InsertRRs newRRs]))
          else (ws, m)))"

definition createStep ::
  "dns_lib \<Rightarrow> rfc_config \<Rightarrow> endpoint \<Rightarrow> rfc_warning list \<times> msg \<Rightarrow> rfc_warning list \<times> msg"
where
  "createStep lib c ep wm = (case wm of (ws, m) \<Rightarrow>
     (case endpointToRRs lib c ep of
        Inl e \<Rightarrow> (ws @ [SkipCreate (DNSName ep) e], m)
      | Inr rrs \<Rightarrow> (ws, m @ [InsertRRs rrs])))"

definition buildUpdate :: "dns_lib \<Rightarrow> rfc_config \<Rightarrow> changes \<Rightarrow> rfc_warning list \<times> msg" where
  "buildUpdate lib c ch =
     (let wm = ([], [SetUpdate (Fqdn lib (Zone c))]);
          wm = fold (deleteStep lib c) (Delete ch) wm;
          wm = fold (updateStep lib c (UpdateNew ch)) (List.enumerate 0 (UpdateOld ch)) wm
      in fold (createStep lib c) (Create ch) wm)"

definition rfc2136_ApplyChanges ::
  "dns_lib \<Rightarrow> ('t, 'e, 'n) network \<Rightarrow> ('t, 'e) rfc_provider \<Rightarrow> 'n \<Rightarrow> changes \<Rightarrow>
   rfc_warning list \<times> goerror option \<times> 'n"
where
  "rfc2136_ApplyChanges lib net p n ch =
     (if IsEmpty ch then ([], None, n)
      else
        (let (ws, m) = buildUpdate lib (cfg p) ch;
             m = signMsg lib p (NowUnix net n) m
         in case ExchangeContext net (exchanger p) m (server p) n of
              (Inl e, n') \<Rightarrow> (ws, Some (Wrap ''dns update exchange'' e), n')
            | (Inr rcode, n') \<Rightarrow>
                if rcode \<noteq> RcodeSuccess lib then
                  (ws, Some (RcodeError (''dns update failed: rcode '' @ RcodeToString lib rcode) rcode), n')
                else (ws, None, n')))"

definition rfc2136_methods ::
  "dns_lib \<Rightarrow> ('t, 'e, 'n) network \<Rightarrow> ('t, 'e) rfc_provider \<Rightarrow> 'n provider"
where
  "rfc2136_methods lib net p =
     \<lparr>Records = rfc2136_Records lib net p,
      ApplyChanges = (\<lambda>n ch. snd (rfc2136_ApplyChanges lib net p n ch))\<rparr>"


section \<open>Which endpoints convert\<close>

text \<open>The text of a target as \<open>rrToEndpoint\<close> gives it back.\<close>

definition canonTarget :: "string \<Rightarrow> string \<Rightarrow> string" where
  "canonTarget rt t =
     (if rt = RecordTypeA \<or> rt = RecordTypeAAAA then (case ParseIP t of None \<Rightarrow> t | Some ip \<Rightarrow> IP_String ip)
      else if rt = RecordTypeCNAME then TrimSuffix t ''.''
      else t)"

definition target_ok :: "string \<Rightarrow> string \<Rightarrow> bool" where
  "target_ok rt t \<longleftrightarrow>
     rt = RecordTypeA \<and> Option.bind (ParseIP t) To4 \<noteq> None
   \<or> rt = RecordTypeAAAA \<and> ParseIP t \<noteq> None
   \<or> rt = RecordTypeCNAME \<or> rt = RecordTypeTXT"

text \<open>What the endpoint's RR for target \<open>t\<close> reads back as.\<close>

definition readBack :: "rfc_config \<Rightarrow> endpoint \<Rightarrow> string \<Rightarrow> endpoint" where
  "readBack c ep t =
     endpoint_New (TrimSuffix (DNSName ep) ''.'') [canonTarget (RecordType ep) t] (RecordType ep)
       (effectiveTTL c (TTL ep) mod 2 ^ 32) None"

definition no_escape :: "endpoint \<Rightarrow> bool" where
  "no_escape ep \<longleftrightarrow> CHR 0x5C \<notin> set (DNSName ep)
     \<and> (RecordType ep = RecordTypeCNAME \<longrightarrow> (\<forall>t \<in> set (Targets ep). CHR 0x5C \<notin> set t))"

lemma Fqdn_trim: "fqdn_law lib \<Longrightarrow> CHR 0x5C \<notin> set s \<Longrightarrow> TrimSuffix (Fqdn lib s) ''.'' = TrimSuffix s ''.''"
  by (auto simp: fqdn_law_def)

lemma IP_String_To4: "ParseIP t = Some ip \<Longrightarrow> To4 ip = Some b \<Longrightarrow> IP_String b = IP_String ip"
  by (metis IP_String_mapped IP_String_v4 ParseIP_length To4_length To4_unmap)

lemma targetToRR_ok: "(\<exists>rr. targetToRR lib c ep t = Inr rr) \<longleftrightarrow> target_ok (RecordType ep) t"
  by (auto simp: targetToRR_def target_ok_def split: option.splits)

lemma targetToRR_readBack:
  assumes "fqdn_law lib" and "no_escape ep" and "t \<in> set (Targets ep)"
    and "targetToRR lib c ep t = Inr rr"
  shows "rrToEndpoint rr = Some (readBack c ep t)"
  using assms
  by (auto simp: targetToRR_def readBack_def canonTarget_def rrHeader_def Fqdn_trim IP_String_To4
      no_escape_def uint_word_of_int bind_eq_Some_conv split: if_splits option.splits)

lemma targetToRR_header:
  "targetToRR lib c ep t = Inr rr \<Longrightarrow> Header rr = rrHeader lib c ep"
  by (auto simp: targetToRR_def split: if_splits option.splits)

lemma targetsToRRs_Inr:
  "targetsToRRs lib c ep ts acc = Inr rrs \<longleftrightarrow>
     (\<exists>rs. rrs = acc @ rs \<and> list_all2 (\<lambda>t rr. targetToRR lib c ep t = Inr rr) ts rs)"
proof (induction ts arbitrary: acc)
  case (Cons t ts)
  show ?case
  proof (cases "targetToRR lib c ep t")
    case (Inr rr)
    then show ?thesis by (simp add: Cons.IH list_all2_Cons1) metis
  qed (simp add: list_all2_Cons1)
qed auto

lemma endpointToRRs_Inr:
  "endpointToRRs lib c ep = Inr rrs \<longleftrightarrow>
     list_all2 (\<lambda>t rr. targetToRR lib c ep t = Inr rr) (Targets ep) rrs"
  by (simp add: endpointToRRs_def targetsToRRs_Inr)

lemma endpointToRRs_ok:
  "(\<exists>rrs. endpointToRRs lib c ep = Inr rrs) \<longleftrightarrow> (\<forall>t \<in> set (Targets ep). target_ok (RecordType ep) t)"
proof -
  have "(\<exists>rrs. list_all2 (\<lambda>t rr. targetToRR lib c ep t = Inr rr) ts rrs) \<longleftrightarrow>
      (\<forall>t \<in> set ts. \<exists>rr. targetToRR lib c ep t = Inr rr)" for ts
    by (induction ts) (auto simp: list_all2_Cons1)
  then show ?thesis by (simp add: endpointToRRs_Inr targetToRR_ok)
qed

lemma endpointToRRs_readBack:
  assumes "fqdn_law lib" and "no_escape ep" and "endpointToRRs lib c ep = Inr rrs"
  shows "map rrToEndpoint rrs = map (\<lambda>t. Some (readBack c ep t)) (Targets ep)"
proof -
  have "map rrToEndpoint rs = map (\<lambda>t. Some (readBack c ep t)) ts"
    if "list_all2 (\<lambda>t rr. targetToRR lib c ep t = Inr rr) ts rs" "set ts \<subseteq> set (Targets ep)" for ts rs
    using that
  proof (induction rule: list_all2_induct)
    case (Cons t ts rr rs)
    then show ?case
      using targetToRR_readBack [OF assms(1), of ep t c rr] assms(2) by auto
  qed simp
  then show ?thesis using assms(3) by (simp add: endpointToRRs_Inr)
qed

lemma endpointToRRs_headers:
  "endpointToRRs lib c ep = Inr rrs \<Longrightarrow> rr \<in> set rrs \<Longrightarrow> Header rr = rrHeader lib c ep"
  unfolding endpointToRRs_Inr by (auto simp: in_set_conv_nth list_all2_conv_all_nth dest: targetToRR_header)

text \<open>
  C17. Reading back: for an endpoint of a supported type whose targets parse, the conversion gives
  exactly one resource record per target, and each record is read back as an endpoint of the same
  type with that one target.  The name loses a trailing dot, the target takes its canonical text,
  and the TTL is raised to \<open>MinTTL\<close> and truncated to 32 bits (0 becoming the default).
\<close>

theorem rr_read_back:
  assumes "fqdn_law lib" and "no_escape ep" and "\<forall>t \<in> set (Targets ep). target_ok (RecordType ep) t"
  shows "\<exists>rrs. endpointToRRs lib c ep = Inr rrs
    \<and> map rrToEndpoint rrs = map (\<lambda>t. Some (readBack c ep t)) (Targets ep)"
  using assms endpointToRRs_ok [of lib c ep] endpointToRRs_readBack by blast


section \<open>When a written record settles\<close>

definition canonical :: "rfc_config \<Rightarrow> endpoint \<Rightarrow> bool" where
  "canonical c w \<longleftrightarrow>
     \<not> HasSuffix (DNSName w) ''.'' \<and> (\<forall>t \<in> set (Targets w). canonTarget (RecordType w) t = t)
   \<and> 0 < TTL w \<and> TTL w < 2 ^ 32 \<and> MinTTL c \<le> TTL w"

lemma appendRRs_eq: "appendRRs rrs eps = eps @ List.map_filter rrToEndpoint rrs"
  by (induction rrs arbitrary: eps) (auto simp: List.map_filter_def split: option.splits)

lemma appendRRs_all: "map rrToEndpoint rrs = map Some eps \<Longrightarrow> appendRRs rrs [] = eps"
  unfolding appendRRs_eq by (induction rrs arbitrary: eps) (auto simp: List.map_filter_def)

lemma TrimSuffix_id_iff: "TrimSuffix s p = s \<longleftrightarrow> \<not> HasSuffix s p \<or> p = []"
  by (metis TrimSuffix_noop TrimSuffix_restore append_self_conv)

lemma TrimSuffix_ownershipName:
  "n \<noteq> [] \<Longrightarrow> TrimSuffix (ownershipName n) ''.'' = ownershipName (TrimSuffix n ''.'')"
proof (cases n rule: rev_cases)
  case (snoc m x)
  then show ?thesis
    using HasSuffix_iff [of "ownershipName n" "''.''"] HasSuffix_iff [of n "''.''"]
    by (cases "x = CHR ''.''") (auto simp: ownershipName_def TrimSuffix_def)
qed simp

lemma readBack_sel [simp]:
  "DNSName (readBack c w t) = TrimSuffix (DNSName w) ''.''" "RecordType (readBack c w t) = RecordType w"
  "Targets (readBack c w t) = [canonTarget (RecordType w) t]"
  by (simp_all add: readBack_def)

lemma readBack_TTL_iff:
  assumes "MinTTL c < 2 ^ 32"
  shows "TTL (readBack c w t) = TTL w \<longleftrightarrow> 0 < TTL w \<and> TTL w < 2 ^ 32 \<and> MinTTL c \<le> TTL w"
proof -
  let ?e = "effectiveTTL c (TTL w)"
  have range: "0 \<le> ?e mod 2 ^ 32" "?e mod 2 ^ 32 < 2 ^ 32" by simp_all
  show ?thesis
  proof (cases "0 < TTL w \<and> TTL w < 2 ^ 32")
    case True
    then have "?e mod 2 ^ 32 = ?e" "?e \<noteq> 0" "?e = TTL w \<longleftrightarrow> MinTTL c \<le> TTL w"
      using assms by (auto simp: effectiveTTL_def)
    with True show ?thesis by (simp add: readBack_def)
  next
    case False
    then show ?thesis using range by (auto simp: readBack_def)
  qed
qed

lemma singleton_effective: "effective [x] e \<longleftrightarrow> e = x"
  by (auto simp: effective_def split: if_splits)

lemma readBack_converged:
  assumes "\<not> isOwnershipTXT w" and "Targets w = [t]" and "DNSName w \<noteq> []"
    and "target_ok (RecordType w) t" and "MinTTL c < 2 ^ 32"
  shows "converged p [w] [readBack c w t,
      readBack c (ownershipTXTFor p (DNSName w)) (ownershipValue (ownerID p))] \<longleftrightarrow> canonical c w"
    (is "converged p [w] [?r, ?o] \<longleftrightarrow> _")
proof -
  have name: "DNSName ?o = ownershipName (TrimSuffix (DNSName w) ''.'')"
    using assms(3) by (simp add: TrimSuffix_ownershipName)
  then have o: "DNSName ?o = ownershipName (TrimSuffix (DNSName w) ''.'')" "isOwnershipTXT ?o"
      "Targets ?o = [ownershipValue (ownerID p)]"
    unfolding isOwnershipTXT_def by (simp_all add: canonTarget_def) (simp add: ownershipName_def)
  have r: "\<not> isOwnershipTXT ?r"
    using assms(1) by (auto simp: isOwnershipTXT_def HasPrefix_iff)
      (metis TrimSuffix_noop TrimSuffix_restore append.assoc)
  have recs: "records [?r, ?o] = [?r]" using r o(2) by (simp add: filterOwnershipTXTs_eq)
  have "ownershipName m \<noteq> DNSName ?r" if "RecordType ?r = ''TXT''" for m
    using r that unfolding isOwnershipTXT_def ownershipName_def HasPrefix_iff by (metis RecordTypeTXT_def)
  then have owns: "owns p [?r, ?o] m \<longleftrightarrow> m = TrimSuffix (DNSName w) ''.''" for m
    using o by (fastforce simp: owns_def)
  have "CHR ''|'' \<notin> set (RecordType w)" using assms(4) by (auto simp: target_ok_def)
  then have key: "epKey ?r = epKey w \<longleftrightarrow> \<not> HasSuffix (DNSName w) ''.''"
    using epKey_inj [of ?r w] TrimSuffix_id_iff [of "DNSName w" "''.''"] by (auto simp: epKey_def)
  show ?thesis
    unfolding converged_def recs singleton_effective owns canonical_def
    using key assms(2) readBack_TTL_iff [OF assms(5), of w t] by auto
qed

text \<open>
  C12. When the daemon stops rewriting a record it has written: after the records of a desired
  endpoint and of its ownership companion are inserted into an empty zone and read back, the next
  plan is empty if and only if the endpoint is canonical: no trailing dot in its name, the target in
  the canonical spelling, and a TTL within 32 bits and not below \<open>MinTTL\<close>.  In every other case
  the daemon plans a change on every cycle, for ever.
\<close>

theorem settles_iff_canonical:
  assumes "fqdn_law lib" and "range_ok rd" and "range_ok rc"
    and "no_escape w" and "\<not> isOwnershipTXT w" and "DNSName w \<noteq> []"
    and "Targets w = [t]" and "target_ok (RecordType w) t" and "MinTTL c < 2 ^ 32"
    and "endpointToRRs lib c w = Inr rrs" and "endpointToRRs lib c (ownershipTXTFor p (DNSName w)) = Inr os"
  shows "IsEmpty (Calculate rd rc p [w] (appendRRs (rrs @ os) [])) \<longleftrightarrow> canonical c w"
proof -
  have "no_escape (ownershipTXTFor p (DNSName w))"
    using assms(4) by (simp add: no_escape_def ownershipName_def ownerPrefix_def)
  then have "map rrToEndpoint (rrs @ os) = [Some (readBack c w t),
      Some (readBack c (ownershipTXTFor p (DNSName w)) (ownershipValue (ownerID p)))]"
    using endpointToRRs_readBack [OF assms(1,4,10)] endpointToRRs_readBack [OF assms(1) _ assms(11)] assms(7)
    by simp
  then have "appendRRs (rrs @ os) [] = [readBack c w t,
      readBack c (ownershipTXTFor p (DNSName w)) (ownershipValue (ownerID p))]"
    by (intro appendRRs_all) simp
  then show ?thesis
    using readBack_converged [OF assms(5,7,6,8,9), of p] converged_iff_empty [OF assms(2,3)] by simp
qed

text \<open>A library and a provider for the examples, and evaluation of conversions.\<close>

definition ex_lib :: dns_lib where
  "ex_lib = \<lparr>Fqdn = (\<lambda>s. if HasSuffix s ''.'' then s else s @ ''.''), TypeA = 1, TypeAAAA = 28, TypeCNAME = 5,
     TypeTXT = 16, TypeSOA = 6, TypeNone = 0, ClassINET = 1, HmacSHA256 = ''hmac-sha256.'', RcodeSuccess = 0,
     RcodeToString = (\<lambda>n. ''RCODE'' @ showNat n)\<rparr>"

definition ex_cfg :: rfc_config where
  "ex_cfg = \<lparr>Host = ''ns.ex'', Port = 53, Zone = ''ex'', TSIGKeyName = [], TSIGSecret = [],
     TSIGSecretAlg = [], MinTTL = 0, Timeout = 0\<rparr>"

lemma ex_lib_law: "fqdn_law ex_lib"
  by (simp add: fqdn_law_def ex_lib_def)

lemma ex_target: "ParseIP ''10.0.0.1'' = Some (v4InV6Prefix @ [10, 0, 0, 1])" "IP_String (v4InV6Prefix @ [10, 0, 0, 1]) = ''10.0.0.1''"
  by code_simp+

lemma ex_target_ok: "target_ok ''A'' ''10.0.0.1''" "canonTarget ''A'' ''10.0.0.1'' = ''10.0.0.1''"
  by (simp_all add: target_ok_def canonTarget_def ex_target)

theorem rr_read_back_witness:
  "\<exists>rrs. endpointToRRs ex_lib (ex_cfg\<lparr>MinTTL := 600\<rparr>) (ex_A ''a.ex.'' ''10.0.0.1'') = Inr rrs
     \<and> map rrToEndpoint rrs = [Some (endpoint_New ''a.ex'' [''10.0.0.1''] ''A'' 600 None)]"
  using rr_read_back [OF ex_lib_law, of "ex_A ''a.ex.'' ''10.0.0.1''" "ex_cfg\<lparr>MinTTL := 600\<rparr>"]
  by (simp add: no_escape_def ex_A_def ex_target_ok readBack_def effectiveTTL_def TrimSuffix_def HasSuffix_def ex_cfg_def)

theorem settles_iff_canonical_witness:
  "\<exists>rrs os. endpointToRRs ex_lib (ex_cfg\<lparr>MinTTL := 600\<rparr>) (ex_A ''a.ex'' ''10.0.0.1'') = Inr rrs
     \<and> endpointToRRs ex_lib (ex_cfg\<lparr>MinTTL := 600\<rparr>) (ownershipTXTFor ex_plan ''a.ex'') = Inr os
     \<and> \<not> IsEmpty (Calculate (\<lambda>m. m) rev ex_plan [ex_A ''a.ex'' ''10.0.0.1''] (appendRRs (rrs @ os) []))"
proof -
  let ?c = "ex_cfg\<lparr>MinTTL := 600\<rparr>" and ?w = "ex_A ''a.ex'' ''10.0.0.1''"
  obtain rrs where rrs: "endpointToRRs ex_lib ?c ?w = Inr rrs"
    using endpointToRRs_ok [of ex_lib ?c ?w] by (auto simp: ex_A_def ex_target_ok)
  obtain os where os: "endpointToRRs ex_lib ?c (ownershipTXTFor ex_plan (DNSName ?w)) = Inr os"
    using endpointToRRs_ok [of ex_lib ?c "ownershipTXTFor ex_plan (DNSName ?w)"] by (auto simp: target_ok_def)
  from settles_iff_canonical [OF ex_lib_law range_ok_id range_ok_rev _ _ _ _ _ _ rrs os, of "''10.0.0.1''"]
  have "\<not> IsEmpty (Calculate (\<lambda>m. m) rev ex_plan [?w] (appendRRs (rrs @ os) []))"
    by (simp add: no_escape_def isOwnershipTXT_def ex_A_def ex_target_ok canonical_def ex_cfg_def)
  with rrs os show ?thesis by (auto simp: ex_A_def)
qed


section \<open>The update message\<close>

definition deleteCalls :: "dns_lib \<Rightarrow> rfc_config \<Rightarrow> endpoint \<Rightarrow> msg" where
  "deleteCalls lib c ep = (case endpointToRRs lib c ep of Inl _ \<Rightarrow> [] | Inr rrs \<Rightarrow> [RemoveRRs rrs])"

definition createCalls :: "dns_lib \<Rightarrow> rfc_config \<Rightarrow> endpoint \<Rightarrow> msg" where
  "createCalls lib c ep = (case endpointToRRs lib c ep of Inl _ \<Rightarrow> [] | Inr rrs \<Rightarrow> [InsertRRs rrs])"

definition updateCalls :: "dns_lib \<Rightarrow> rfc_config \<Rightarrow> endpoint \<times> endpoint \<Rightarrow> msg" where
  "updateCalls lib c hw = (case endpointToRRs lib c (fst hw) of
     Inl _ \<Rightarrow> []
   | Inr rrs \<Rightarrow> RemoveRRs rrs # createCalls lib c (snd hw))"

lemma fold_deleteStep:
  "snd (fold (deleteStep lib c) eps wm) = snd wm @ concat (map (deleteCalls lib c) eps)"
  by (induction eps arbitrary: wm) (auto simp: deleteStep_def deleteCalls_def split: prod.splits sum.splits)

lemma fold_createStep:
  "snd (fold (createStep lib c) eps wm) = snd wm @ concat (map (createCalls lib c) eps)"
  by (induction eps arbitrary: wm) (auto simp: createStep_def createCalls_def split: prod.splits sum.splits)

lemma fold_updateStep:
  assumes "length olds = length (drop i news)"
  shows "snd (fold (updateStep lib c news) (List.enumerate i olds) wm) =
    snd wm @ concat (map (updateCalls lib c) (zip olds (drop i news)))"
  using assms
proof (induction olds arbitrary: i wm)
  case (Cons old olds)
  then have i: "i < length news" by simp
  then have d: "drop i news = news ! i # drop (Suc i) news" by (simp add: Cons_nth_drop_Suc)
  have "snd (updateStep lib c news (i, old) wm) = snd wm @ updateCalls lib c (old, news ! i)"
    using i by (auto simp: updateStep_def updateCalls_def createCalls_def Let_def split: prod.splits sum.splits)
  with Cons d show ?case by simp
qed simp

lemma buildUpdate_calls:
  assumes "length (UpdateOld ch) = length (UpdateNew ch)"
  shows "snd (buildUpdate lib c ch) =
    SetUpdate (Fqdn lib (Zone c)) # concat (map (deleteCalls lib c) (Delete ch))
      @ concat (map (updateCalls lib c) (zip (UpdateOld ch) (UpdateNew ch)))
      @ concat (map (createCalls lib c) (Create ch))"
  using assms by (simp add: buildUpdate_def Let_def fold_deleteStep fold_updateStep fold_createStep)


lemma in_calls [simp]:
  "RemoveRRs rrs \<in> set (deleteCalls lib c e) \<longleftrightarrow> endpointToRRs lib c e = Inr rrs"
  "RemoveRRs rrs \<in> set (updateCalls lib c hw) \<longleftrightarrow> endpointToRRs lib c (fst hw) = Inr rrs"
  "RemoveRRs rrs \<notin> set (createCalls lib c e)"
  by (auto simp: deleteCalls_def updateCalls_def createCalls_def split: sum.splits)

lemma removed_from:
  assumes "length (UpdateOld ch) = length (UpdateNew ch)"
    and "RemoveRRs rrs \<in> set (snd (buildUpdate lib c ch))"
  shows "\<exists>e \<in> set (UpdateOld ch) \<union> set (Delete ch). endpointToRRs lib c e = Inr rrs"
  using assms(2) unfolding buildUpdate_calls [OF assms(1)] by (fastforce dest: set_zip_leftD)

lemma Calculate_removes:
  assumes "range_ok rd" and "range_ok rc" and "separable desired current"
    and "e \<in> set (UpdateOld (Calculate rd rc p desired current)) \<union> set (Delete (Calculate rd rc p desired current))"
  shows "\<exists>n. owns p current n \<and> (DNSName e = n \<and> e \<in> set current \<and> \<not> isOwnershipTXT e \<or> e = ownershipTXTFor p n)"
proof -
  consider w where "effective desired w" "effective (records current) e" "epKey e = epKey w" "owns p current (DNSName w)"
    | h where "effective (records current) h" "owns p current (DNSName h)" "e = h \<or> e = ownershipTXTFor p (DNSName h)"
    using assms(4) by (auto simp: mem_UpdateOld [OF assms(1)] mem_Delete [OF assms(2)])
  then show ?thesis
  proof cases
    case 1
    then have "DNSName e = DNSName w"
      using separable_name [OF assms(3)] effective_mem effective_records by metis
    with 1 show ?thesis using effective_records by metis
  next
    case 2
    then show ?thesis using effective_records by metis
  qed
qed

lemma endpointToRRs_target:
  "endpointToRRs lib c e = Inr rrs \<Longrightarrow> rr \<in> set rrs \<Longrightarrow> \<exists>t \<in> set (Targets e). targetToRR lib c e t = Inr rr"
  unfolding endpointToRRs_Inr by (auto simp: in_set_conv_nth list_all2_conv_all_nth intro!: bexI [of _ "Targets e ! _"])

text \<open>
  C11. Ownership safety on the wire: every resource record that the UPDATE message of a plan asks the server to
  remove is, with name, type and data, a record of a current endpoint whose name this instance owns and
  which is no ownership record, or it is the ownership TXT record of such a name with this
  instance's own value and nothing else.  The condition is that of the plan: the key separator
  occurs in no record type, or in no name.
\<close>

theorem update_removes_only_owned:
  assumes "range_ok rd" and "range_ok rc" and "separable desired current"
    and "RemoveRRs rrs \<in> set (snd (buildUpdate lib c (Calculate rd rc p desired current)))" and "rr \<in> set rrs"
  shows "\<exists>n. owns p current n
    \<and> ((\<exists>e \<in> set current. DNSName e = n \<and> \<not> isOwnershipTXT e \<and> hdrName (Header rr) = Fqdn lib n
          \<and> Rrtype (Header rr) = rrType lib (RecordType e) \<and> (\<exists>t \<in> set (Targets e). targetToRR lib c e t = Inr rr))
      \<or> rr = RR_TXT \<lparr>hdrName = Fqdn lib (ownershipName n), Rrtype = TypeTXT lib, Class = ClassINET lib,
               hdrTtl = word_of_int (effectiveTTL c 300)\<rparr> [ownershipValue (ownerID p)])"
proof -
  let ?ch = "Calculate rd rc p desired current"
  obtain e where e: "e \<in> set (UpdateOld ?ch) \<union> set (Delete ?ch)" "endpointToRRs lib c e = Inr rrs"
    using removed_from [OF length_Updates assms(4)] by blast
  have hdr: "Header rr = rrHeader lib c e" using endpointToRRs_headers [OF e(2) assms(5)] .
  obtain n where n: "owns p current n"
      "DNSName e = n \<and> e \<in> set current \<and> \<not> isOwnershipTXT e \<or> e = ownershipTXTFor p n"
    using Calculate_removes [OF assms(1-3) e(1)] by blast
  show ?thesis
  proof (cases "e = ownershipTXTFor p n")
    case True
    then have "rrs = [RR_TXT (rrHeader lib c e) [ownershipValue (ownerID p)]]"
      using e(2) by (simp add: endpointToRRs_def targetToRR_def)
    moreover have "rrHeader lib c e = \<lparr>hdrName = Fqdn lib (ownershipName n), Rrtype = TypeTXT lib, Class = ClassINET lib,
        hdrTtl = word_of_int (effectiveTTL c 300)\<rparr>"
      unfolding True by (simp add: rrHeader_def rrType_def ownershipTXTFor_def)
    ultimately show ?thesis using n(1) assms(5) by auto
  next
    case False
    with n(2) have cur: "e \<in> set current" "DNSName e = n" "\<not> isOwnershipTXT e" by simp_all
    have "hdrName (Header rr) = Fqdn lib n" "Rrtype (Header rr) = rrType lib (RecordType e)"
      unfolding hdr using cur(2) by (simp_all add: rrHeader_def)
    then show ?thesis using n(1) cur endpointToRRs_target [OF e(2) assms(5)] by blast
  qed
qed

theorem update_removes_only_owned_witness:
  "let rr = RR_TXT (rrHeader ex_lib ex_cfg (ownershipTXTFor ex_plan ''gone.ex'')) [ownershipValue (ownerID ex_plan)]
   in RemoveRRs [rr] \<in> set (snd (buildUpdate ex_lib ex_cfg (Calculate (\<lambda>m. m) rev ex_plan ex_desired ex_current)))
    \<and> (\<exists>n. owns ex_plan ex_current n
        \<and> ((\<exists>e \<in> set ex_current. DNSName e = n \<and> \<not> isOwnershipTXT e \<and> hdrName (Header rr) = Fqdn ex_lib n
              \<and> Rrtype (Header rr) = rrType ex_lib (RecordType e) \<and> (\<exists>t \<in> set (Targets e). targetToRR ex_lib ex_cfg e t = Inr rr))
          \<or> rr = RR_TXT \<lparr>hdrName = Fqdn ex_lib (ownershipName n), Rrtype = TypeTXT ex_lib, Class = ClassINET ex_lib,
                   hdrTtl = word_of_int (effectiveTTL ex_cfg 300)\<rparr> [ownershipValue (ownerID ex_plan)]))"
proof -
  let ?rr = "RR_TXT (rrHeader ex_lib ex_cfg (ownershipTXTFor ex_plan ''gone.ex'')) [ownershipValue (ownerID ex_plan)]"
  have sep: "separable ex_desired ex_current"
    by (simp add: separable_def ex_defs ownershipTXTFor_def)
  have "endpointToRRs ex_lib ex_cfg (ownershipTXTFor ex_plan ''gone.ex'') = Inr [?rr]"
    by (simp add: endpointToRRs_def targetToRR_def)
  then have rr: "RemoveRRs [?rr] \<in> set (snd (buildUpdate ex_lib ex_cfg (Calculate (\<lambda>m. m) rev ex_plan ex_desired ex_current)))"
    unfolding buildUpdate_calls [OF length_Updates] unfolding ex_changes by simp
  have "?rr \<in> set [?rr]" by simp
  with rr update_removes_only_owned [OF range_ok_id range_ok_rev sep rr this]
  show ?thesis unfolding Let_def by blast
qed

text \<open>
  C39. An update whose new record cannot be converted loses the old one: when the name is owned, the
  current record converts and the desired one does not, the message of the plan removes the
  current record and inserts nothing in its place, although the code logs the update as skipped.
\<close>

theorem update_unconvertible_loses_record:
  assumes "range_ok rd" and "range_ok rc"
    and "\<not> isOwnershipTXT h" and "epKey h = epKey w" and "DNSName h = DNSName w" and "\<not> endpointsEqual h w"
    and "endpointToRRs lib c h = Inr rrs" and "endpointToRRs lib c w = Inl e"
  shows "buildUpdate lib c (Calculate rd rc p [w] [h, ownershipTXTFor p (DNSName w)]) =
    ([SkipUpdateInsert (DNSName w) e], [SetUpdate (Fqdn lib (Zone c)), RemoveRRs rrs])"
proof -
  let ?cur = "[h, ownershipTXTFor p (DNSName w)]" let ?ch = "Calculate rd rc p [w] ?cur"
  have recs: "records ?cur = [h]" using assms(3) by (simp add: filterOwnershipTXTs_eq)
  have one: "indexEndpoints [x] = [(epKey x, x)]" for x by (simp add: indexEndpoints_def)
  have own: "owns p ?cur (DNSName w)" by (simp add: owns_def)
  have "Create ?ch = []" "Delete ?ch = []" "UpdateOld ?ch = [h]" "UpdateNew ?ch = [w]"
    unfolding Calculate_sel recs one using assms own
    by (simp_all add: range_ok_single [OF assms(1)] range_ok_single [OF assms(2)])
      (simp_all add: createsOf_def deletesOf_def updatesOf_def)
  then show ?thesis
    using assms(7,8) by (simp add: buildUpdate_def Let_def updateStep_def)
qed


theorem update_unconvertible_loses_record_witness:
  "let w = endpoint_New ''a.ex'' [''web.ex''] ''A'' 300 None
   in buildUpdate ex_lib ex_cfg (Calculate (\<lambda>m. m) rev ex_plan [w]
        [ex_A ''a.ex'' ''10.0.0.1'', ownershipTXTFor ex_plan ''a.ex'']) =
      ([SkipUpdateInsert ''a.ex'' (InvalidValue ''invalid IPv4 address for A record'' ''web.ex'')],
       [SetUpdate ''ex.'', RemoveRRs [RR_A (rrHeader ex_lib ex_cfg (ex_A ''a.ex'' ''10.0.0.1'')) [10, 0, 0, 1]]])"
proof -
  let ?w = "endpoint_New ''a.ex'' [''web.ex''] ''A'' 300 None" and ?h = "ex_A ''a.ex'' ''10.0.0.1''"
  have no: "ParseIP ''web.ex'' = None" by code_simp
  have "endpointToRRs ex_lib ex_cfg ?h = Inr [RR_A (rrHeader ex_lib ex_cfg ?h) [10, 0, 0, 1]]"
    by (simp add: endpointToRRs_def targetToRR_def ex_A_def ex_target)
  moreover have "endpointToRRs ex_lib ex_cfg ?w = Inl (InvalidValue ''invalid IPv4 address for A record'' ''web.ex'')"
    by (simp add: endpointToRRs_def targetToRR_def no)
  ultimately show ?thesis
    using update_unconvertible_loses_record [OF range_ok_id range_ok_rev, of ?h ?w ex_lib ex_cfg]
    by (simp add: isOwnershipTXT_def ex_A_def epKey_def endpointsEqual_iff ex_lib_def ex_cfg_def HasSuffix_def)
qed

text \<open>
  A wanted record that cannot be converted (a record type label other than those documented, say) is not
  written, but its ownership record is.  So the name counts as owned from then on, and the next plan deletes a
  record of another type that stood there before and was never the program's.
\<close>

lemma unconvertible_create_claims_name:
  assumes "range_ok rd" and "range_ok rc" and "\<not> isOwnershipTXT h" and "DNSName h = DNSName w" and "epKey h \<noteq> epKey w"
    and "endpointToRRs lib c w = Inl e" and "endpointToRRs lib c (ownershipTXTFor p (DNSName w)) = Inr os"
  shows "buildUpdate lib c (Calculate rd rc p [w] [h]) =
      ([SkipCreate (DNSName w) e], [SetUpdate (Fqdn lib (Zone c)), InsertRRs os])"
    and "h \<in> set (Delete (Calculate rd rc p [w] [h, ownershipTXTFor p (DNSName w)]))"
proof -
  have one: "indexEndpoints [x] = [(epKey x, x)]" for x by (simp add: indexEndpoints_def)
  have recs: "records [h] = [h]" "records [h, ownershipTXTFor p (DNSName w)] = [h]"
    using assms(3) by (simp_all add: filterOwnershipTXTs_eq)
  have "length (DNSName h) \<noteq> length (ownershipName (DNSName h))" by (simp add: ownershipName_def ownerPrefix_def)
  then have "\<not> owns p [h] (DNSName h)" by (auto simp: owns_def)
  then have "Create (Calculate rd rc p [w] [h]) = [w, ownershipTXTFor p (DNSName w)]" "Delete (Calculate rd rc p [w] [h]) = []"
      "UpdateOld (Calculate rd rc p [w] [h]) = []" "UpdateNew (Calculate rd rc p [w] [h]) = []"
    unfolding Calculate_sel recs one using assms
    by (simp_all add: range_ok_single [OF assms(1)] range_ok_single [OF assms(2)])
      (simp_all add: createsOf_def deletesOf_def updatesOf_def)
  then show "buildUpdate lib c (Calculate rd rc p [w] [h]) =
      ([SkipCreate (DNSName w) e], [SetUpdate (Fqdn lib (Zone c)), InsertRRs os])"
    using assms(6,7) by (simp add: buildUpdate_def Let_def createStep_def)
  have "owns p [h, ownershipTXTFor p (DNSName w)] (DNSName h)" using assms(4) by (simp add: owns_def)
  then show "h \<in> set (Delete (Calculate rd rc p [w] [h, ownershipTXTFor p (DNSName w)]))"
    unfolding Calculate_sel recs one using assms
    by (simp add: range_ok_single [OF assms(1)] range_ok_single [OF assms(2)]) (simp add: deletesOf_def)
qed


section \<open>Reading the zone\<close>

text \<open>The records of a transfer that ran to its end without an error.\<close>

fun transferred :: "axfr_stream \<Rightarrow> RR list option" where
  "transferred Closed = Some []"
| "transferred (Cancelled e) = None"
| "transferred (Envelope (Inl e) s) = None"
| "transferred (Envelope (Inr rrs) s) = map_option (\<lambda>rest. rrs @ rest) (transferred s)"

lemma map_filter_append: "List.map_filter f (xs @ ys) = List.map_filter f xs @ List.map_filter f ys"
  by (simp add: List.map_filter_def)

lemma readEnvelopes_Inr:
  "readEnvelopes z s eps = Inr r \<longleftrightarrow>
     (\<exists>rrs. transferred s = Some rrs \<and> r = eps @ List.map_filter rrToEndpoint rrs)"
proof (induction z s eps rule: readEnvelopes.induct)
  case (1 z eps)
  then show ?case by (auto simp: List.map_filter_def)
next
  case (4 z rrs s eps)
  then show ?case by (cases "transferred s") (simp_all add: appendRRs_eq map_filter_append)
qed simp_all

text \<open>
  C20. \<open>Records\<close> never returns part of a zone: it succeeds exactly when the transfer was started and
  its channel was closed with no error envelope and no cancellation before, and then lists every
  A, AAAA, CNAME and TXT record of all envelopes, in order.
\<close>

theorem records_complete:
  "fst (rfc2136_Records lib net p n) = Inr eps \<longleftrightarrow>
     (\<exists>s n' rrs. In net (newTransferer p) (signMsg lib p (NowUnix net n) [SetAxfr (Fqdn lib (Zone (cfg p)))]) (server p) n
          = (Inr s, n') \<and> transferred s = Some rrs \<and> eps = List.map_filter rrToEndpoint rrs)"
  by (auto simp: rfc2136_Records_def Let_def readEnvelopes_Inr split: prod.splits sum.splits)

text \<open>
  C21. A change set is one transaction: an empty one sends nothing; any other is sent in exactly one
  UPDATE message for the configured zone, signed last when a TSIG key is configured, and
  \<open>ApplyChanges\<close> reports success exactly when the server answered that message with success.
\<close>

theorem apply_one_message:
  "let msg = signMsg lib p (NowUnix net n) (snd (buildUpdate lib (cfg p) ch));
       answer = ExchangeContext net (exchanger p) msg (server p) n;
       (ws, err, n') = rfc2136_ApplyChanges lib net p n ch
   in (IsEmpty ch \<longrightarrow> n' = n \<and> err = None)
    \<and> (\<not> IsEmpty ch \<longrightarrow> n' = snd answer \<and> (err = None \<longleftrightarrow> fst answer = Inr (RcodeSuccess lib)))
    \<and> hd msg = SetUpdate (Fqdn lib (Zone (cfg p)))
    \<and> (TSIGKeyName (cfg p) \<noteq> [] \<longrightarrow> last msg = SetTsig (Fqdn lib (TSIGKeyName (cfg p))) (tsigAlg p) 300 (NowUnix net n))"
proof -
  have hd: "hd (snd (buildUpdate lib (cfg p) ch)) = SetUpdate (Fqdn lib (Zone (cfg p)))
      \<and> snd (buildUpdate lib (cfg p) ch) \<noteq> []"
  proof -
    have keep: "hd (snd (updateStep lib c news io wm)) = hd (snd wm) \<and> snd (updateStep lib c news io wm) \<noteq> []"
      if "snd wm \<noteq> []" for c news io wm
      using that by (auto simp: updateStep_def Let_def split: prod.splits sum.splits)
    have "hd (snd (fold (updateStep lib c news) ios wm)) = hd (snd wm) \<and> snd (fold (updateStep lib c news) ios wm) \<noteq> []"
      if "snd wm \<noteq> []" for c news ios wm
      using that by (induction ios arbitrary: wm) (simp_all add: keep)
    then show ?thesis by (simp add: buildUpdate_def Let_def fold_deleteStep fold_createStep)
  qed
  then show ?thesis
    by (auto simp: rfc2136_ApplyChanges_def Let_def signMsg_def split: prod.splits sum.splits)
qed

theorem apply_one_message_witness:
  "let p = newWithDeps ex_lib (ex_cfg\<lparr>TSIGKeyName := ''k''\<rparr>) () ();
       net = \<lparr>In = (\<lambda>_ _ _ n. (Inr Closed, n)), ExchangeContext = (\<lambda>_ m _ n. (Inr 0, n @ [m])), NowUnix = (\<lambda>_. 9)\<rparr>;
       ch = no_changes\<lparr>Create := [ownershipTXTFor ex_plan ''a.ex'']\<rparr>;
       msg = signMsg ex_lib p 9 (snd (buildUpdate ex_lib (cfg p) ch))
   in snd (rfc2136_ApplyChanges ex_lib net p [] ch) = (None, [msg])
    \<and> hd msg = SetUpdate ''ex.'' \<and> last msg = SetTsig ''k.'' ''hmac-sha256.'' 300 9"
proof -
  let ?p = "newWithDeps ex_lib (ex_cfg\<lparr>TSIGKeyName := ''k''\<rparr>) () ()"
  let ?net = "\<lparr>In = (\<lambda>_ _ _ n. (Inr Closed, n)), ExchangeContext = (\<lambda>_ m _ n. (Inr 0, n @ [m])), NowUnix = (\<lambda>_. 9)\<rparr>
    :: (unit, unit, msg list) network"
  let ?ch = "no_changes\<lparr>Create := [ownershipTXTFor ex_plan ''a.ex'']\<rparr>"
  have p: "TSIGKeyName (cfg ?p) = ''k''" "Zone (cfg ?p) = ''ex''" "tsigAlg ?p = ''hmac-sha256.''"
      "Fqdn ex_lib ''ex'' = ''ex.''" "Fqdn ex_lib ''k'' = ''k.''" "RcodeSuccess ex_lib = 0" "\<not> IsEmpty ?ch"
    by (simp_all add: newWithDeps_def ex_cfg_def ex_lib_def HasSuffix_def normaliseTSIGAlg_def IsEmpty_def)
  show ?thesis
    using apply_one_message [of ex_lib ?p ?net "[]" ?ch] p unfolding Let_def
    by (cases "rfc2136_ApplyChanges ex_lib ?net ?p [] ?ch") simp
qed

text \<open>The types the program infers always convert.\<close>

lemma inferred_target_ok: "target_ok (InferRecordType t) t"
  by (auto simp: target_ok_def InferRecordType_def split: option.splits)

end
