(* ===== verification/MultiZone.thy ===== *)
theory MultiZone
  imports Rfc2136
begin

text \<open>
  \<open>pkg/provider/rfc2136/multizone.go\<close>: one RFC 2136 provider per zone behind the same interface.
  A change set is split by the longest zone that is a suffix of the name.

  \<open>Records\<close> starts one goroutine per zone; the order in which their transfers take place is the
  argument \<open>sched\<close>, a list of zone indices, and each result is stored at its index.  The map
  \<open>byZone\<close> of pointers to change sets is a map of change sets updated in place.

  Shown here: the zone chosen is the longest match, every endpoint goes to exactly the zone chosen
  for it, a record and its ownership record go to the same zone, the merged records do not depend
  on the schedule, and what an error in one zone leaves undone.
\<close>

record ZoneConfig =
  zcHost :: string
  zcPort :: int
  zcZone :: string
  zcTSIGKey :: string
  zcTSIGSecret :: string
  zcTSIGSecretFile :: string
  zcTSIGAlg :: string
  zcMinTTL :: int
  zcTimeout :: int

record ('t, 'e) zoneEntry =
  zone :: string
  prov :: "('t, 'e) rfc_provider"

type_synonym ('t, 'e) multi_provider = "('t, 'e) zoneEntry list"

definition zoneCfg :: "ZoneConfig \<Rightarrow> rfc_config" where
  "zoneCfg zc = \<lparr>Host = zcHost zc, Port = zcPort zc, Zone = zcZone zc, TSIGKeyName = zcTSIGKey zc,
     TSIGSecret = zcTSIGSecret zc, TSIGSecretAlg = zcTSIGAlg zc, MinTTL = zcMinTTL zc, Timeout = zcTimeout zc\<rparr>"

definition NewMulti :: "dns_lib \<Rightarrow> ZoneConfig list \<Rightarrow> (dns_Transfer, dns_Client) multi_provider" where
  "NewMulti lib configs =
     map (\<lambda>zc. \<lparr>zone = Fqdn lib (zcZone zc), prov = rfc2136_New lib (zoneCfg zc)\<rparr>) configs"


section \<open>Choosing the zone\<close>

definition zoneName :: "('t, 'e) zoneEntry \<Rightarrow> string" where
  "zoneName ze = TrimSuffix (zone ze) ''.''"

definition zoneMatches :: "string \<Rightarrow> ('t, 'e) zoneEntry \<Rightarrow> bool" where
  "zoneMatches name ze \<longleftrightarrow> name = zoneName ze \<or> HasSuffix name (''.'' @ zoneName ze)"

definition zoneForStep ::
  "string \<Rightarrow> ('t, 'e) zoneEntry \<Rightarrow> ('t, 'e) zoneEntry option \<times> nat \<Rightarrow> ('t, 'e) zoneEntry option \<times> nat"
where
  "zoneForStep name ze acc = (case acc of (best, bestLen) \<Rightarrow>
     if zoneMatches name ze \<and> length (zoneName ze) > bestLen then (Some ze, length (zoneName ze))
     else (best, bestLen))"

definition zoneFor :: "('t, 'e) multi_provider \<Rightarrow> string \<Rightarrow> ('t, 'e) zoneEntry option" where
  "zoneFor zones dnsName = fst (fold (zoneForStep (TrimSuffix dnsName ''.'')) zones (None, 0))"


section \<open>Records\<close>

definition fetchStep ::
  "dns_lib \<Rightarrow> ('t, 'e, 'n) network \<Rightarrow> ('t, 'e) multi_provider \<Rightarrow> nat \<Rightarrow>
   endpoint list result list \<times> 'n \<Rightarrow> endpoint list result list \<times> 'n"
where
  "fetchStep lib net zones i acc = (case acc of (results, n) \<Rightarrow>
     (case rfc2136_Records lib net (prov (zones ! i)) n of (r, n') \<Rightarrow> (results[i := r], n')))"

fun mergeResults :: "endpoint list result list \<Rightarrow> endpoint list \<Rightarrow> endpoint list result" where
  "mergeResults [] all = Inr all"
| "mergeResults (Inl e # rs) all = Inl e"
| "mergeResults (Inr eps # rs) all = mergeResults rs (all @ eps)"

definition multi_Records ::
  "dns_lib \<Rightarrow> ('t, 'e, 'n) network \<Rightarrow> nat list \<Rightarrow> ('t, 'e) multi_provider \<Rightarrow> 'n \<Rightarrow> endpoint list result \<times> 'n"
where
  "multi_Records lib net sched zones n =
     (case fold (fetchStep lib net zones) sched (replicate (length zones) (Inr []), n) of
        (results, n') \<Rightarrow> (mergeResults results [], n'))"


section \<open>Applying changes\<close>

datatype multi_warning = NoZoneMatch string | ZoneWarning rfc_warning

text \<open>\<open>byZone[z]\<close> is a pointer into the map; the key is always present when it is used.\<close>

definition modifyZone ::
  "string \<Rightarrow> (changes \<Rightarrow> changes) \<Rightarrow> (string, changes) gomap \<Rightarrow> (string, changes) gomap"
where
  "modifyZone z f byZone = (case map_of byZone z of None \<Rightarrow> byZone | Some c \<Rightarrow> AList.update z (f c) byZone)"

definition emptyByZone :: "('t, 'e) multi_provider \<Rightarrow> (string, changes) gomap" where
  "emptyByZone zones = fold (\<lambda>ze. AList.update (zone ze) no_changes) zones []"

definition routeStep ::
  "('t, 'e) multi_provider \<Rightarrow> ('a \<Rightarrow> string) \<Rightarrow> ('a \<Rightarrow> changes \<Rightarrow> changes) \<Rightarrow> 'a \<Rightarrow>
   multi_warning list \<times> (string, changes) gomap \<Rightarrow> multi_warning list \<times> (string, changes) gomap"
where
  "routeStep zones nameOf add x acc = (case acc of (ws, byZone) \<Rightarrow>
     (case zoneFor zones (nameOf x) of
        None \<Rightarrow> (ws @ [NoZoneMatch (nameOf x)], byZone)
      | Some ze \<Rightarrow> (ws, modifyZone (zone ze) (add x) byZone)))"

definition addCreate :: "endpoint \<Rightarrow> changes \<Rightarrow> changes" where
  "addCreate ep c = c\<lparr>Create := Create c @ [ep]\<rparr>"

definition addDelete :: "endpoint \<Rightarrow> changes \<Rightarrow> changes" where
  "addDelete ep c = c\<lparr>Delete := Delete c @ [ep]\<rparr>"

definition addUpdate :: "endpoint list \<Rightarrow> nat \<times> endpoint \<Rightarrow> changes \<Rightarrow> changes" where
  "addUpdate news io c =
     (let c = c\<lparr>UpdateOld := UpdateOld c @ [snd io]\<rparr>
      in if fst io < length news then c\<lparr>UpdateNew := UpdateNew c @ [news ! fst io]\<rparr> else c)"

definition routeChanges ::
  "('t, 'e) multi_provider \<Rightarrow> changes \<Rightarrow> multi_warning list \<times> (string, changes) gomap"
where
  "routeChanges zones ch =
     (let acc = ([], emptyByZone zones);
          acc = fold (routeStep zones DNSName addCreate) (Create ch) acc;
          acc = fold (routeStep zones DNSName addDelete) (Delete ch) acc
      in fold (routeStep zones (\<lambda>io. DNSName (snd io)) (addUpdate (UpdateNew ch)))
           (List.enumerate 0 (UpdateOld ch)) acc)"

text \<open>The last loop, with its early return.\<close>

fun dispatch ::
  "dns_lib \<Rightarrow> ('t, 'e, 'n) network \<Rightarrow> (string, changes) gomap \<Rightarrow> ('t, 'e) multi_provider \<Rightarrow> 'n \<Rightarrow>
   multi_warning list \<Rightarrow> multi_warning list \<times> goerror option \<times> 'n"
where
  "dispatch lib net byZone [] n ws = (ws, None, n)"
| "dispatch lib net byZone (ze # zs) n ws =
     (let zc = the (map_of byZone (zone ze)) in
      if IsEmpty zc then dispatch lib net byZone zs n ws
      else (case rfc2136_ApplyChanges lib net (prov ze) n zc of
              (ws', Some e, n') \<Rightarrow> (ws @ map ZoneWarning ws', Some e, n')
            | (ws', None, n') \<Rightarrow> dispatch lib net byZone zs n' (ws @ map ZoneWarning ws')))"

definition multi_ApplyChanges ::
  "dns_lib \<Rightarrow> ('t, 'e, 'n) network \<Rightarrow> ('t, 'e) multi_provider \<Rightarrow> 'n \<Rightarrow> changes \<Rightarrow>
   multi_warning list \<times> goerror option \<times> 'n"
where
  "multi_ApplyChanges lib net zones n ch =
     (case routeChanges zones ch of (ws, byZone) \<Rightarrow> dispatch lib net byZone zones n ws)"

fun multi_Preflight ::
  "dns_lib \<Rightarrow> ('t, 'e, 'n) network \<Rightarrow> ('t, 'e) multi_provider \<Rightarrow> 'n \<Rightarrow> goerror option \<times> 'n"
where
  "multi_Preflight lib net [] n = (None, n)"
| "multi_Preflight lib net (ze # zs) n =
     (case Preflight lib net (prov ze) n of
        (Some e, n') \<Rightarrow> (Some (Wrap (''zone '' @ zone ze) e), n')
      | (None, n') \<Rightarrow> multi_Preflight lib net zs n')"

definition multi_methods ::
  "dns_lib \<Rightarrow> ('t, 'e, 'n) network \<Rightarrow> nat list \<Rightarrow> ('t, 'e) multi_provider \<Rightarrow> 'n provider"
where
  "multi_methods lib net sched zones =
     \<lparr>Records = multi_Records lib net sched zones,
      ApplyChanges = (\<lambda>n ch. snd (multi_ApplyChanges lib net zones n ch))\<rparr>"


section \<open>The longest match\<close>

text \<open>The first entry of maximal length among the matching entries with a non-empty zone name.\<close>

lemma zoneForStep_fold:
  assumes "fold (zoneForStep name) zs (best, len) = (best', len')"
  shows "len \<le> len' \<and> (\<forall>ze \<in> set zs. zoneMatches name ze \<longrightarrow> length (zoneName ze) \<le> len')
    \<and> (best' = best \<and> len' = len
       \<or> (\<exists>pre ze post. zs = pre @ ze # post \<and> best' = Some ze \<and> len' = length (zoneName ze) \<and> zoneMatches name ze
            \<and> len < len' \<and> (\<forall>z \<in> set pre. zoneMatches name z \<longrightarrow> length (zoneName z) < len')))"
  using assms
proof (induction zs arbitrary: best len)
  case (Cons z zs)
  obtain b l where st: "zoneForStep name z (best, len) = (b, l)" by fastforce
  then have step: "len \<le> l \<and> (zoneMatches name z \<longrightarrow> length (zoneName z) \<le> l)
      \<and> (b = best \<and> l = len \<or> b = Some z \<and> l = length (zoneName z) \<and> zoneMatches name z \<and> len < l)"
    by (auto simp: zoneForStep_def split: if_splits)
  have IH: "l \<le> len' \<and> (\<forall>ze \<in> set zs. zoneMatches name ze \<longrightarrow> length (zoneName ze) \<le> len')
    \<and> (best' = b \<and> len' = l
       \<or> (\<exists>pre ze post. zs = pre @ ze # post \<and> best' = Some ze \<and> len' = length (zoneName ze) \<and> zoneMatches name ze
            \<and> l < len' \<and> (\<forall>z \<in> set pre. zoneMatches name z \<longrightarrow> length (zoneName z) < len')))"
    using Cons st by simp
  then have bounds: "len \<le> len' \<and> (\<forall>ze \<in> set (z # zs). zoneMatches name ze \<longrightarrow> length (zoneName ze) \<le> len')"
    using step by auto
  from IH consider (kept) "best' = b" "len' = l"
    | (later) pre ze post where "zs = pre @ ze # post" "best' = Some ze" "len' = length (zoneName ze)"
        "zoneMatches name ze" "l < len'" "\<forall>z \<in> set pre. zoneMatches name z \<longrightarrow> length (zoneName z) < len'"
    by blast
  then show ?case
  proof cases
    case kept
    then show ?thesis using step bounds by (auto intro!: exI [of _ "[]"])
  next
    case later
    then have "z # zs = (z # pre) @ ze # post \<and> len < len' \<and> (\<forall>y \<in> set (z # pre). zoneMatches name y \<longrightarrow> length (zoneName y) < len')"
      using step by auto
    with later bounds show ?thesis by blast
  qed
qed simp

lemma zoneFor_Some:
  assumes "zoneFor zones n = Some ze"
  shows "ze \<in> set zones" and "zoneMatches (TrimSuffix n ''.'') ze" and "zoneName ze \<noteq> []"
    and "\<forall>z \<in> set zones. zoneMatches (TrimSuffix n ''.'') z \<longrightarrow> length (zoneName z) \<le> length (zoneName ze)"
proof -
  obtain l where "fold (zoneForStep (TrimSuffix n ''.'')) zones (None, 0) = (Some ze, l)"
    using assms unfolding zoneFor_def by (metis prod.collapse)
  from zoneForStep_fold [OF this]
  show "ze \<in> set zones" "zoneMatches (TrimSuffix n ''.'') ze" "zoneName ze \<noteq> []"
    "\<forall>z \<in> set zones. zoneMatches (TrimSuffix n ''.'') z \<longrightarrow> length (zoneName z) \<le> length (zoneName ze)"
    by auto
qed

lemma zoneFor_None:
  "zoneFor zones n = None \<longleftrightarrow> (\<forall>z \<in> set zones. zoneMatches (TrimSuffix n ''.'') z \<longrightarrow> zoneName z = [])"
proof
  assume none: "zoneFor zones n = None"
  obtain l where "fold (zoneForStep (TrimSuffix n ''.'')) zones (None, 0) = (None, l)"
    using none unfolding zoneFor_def by (metis prod.collapse)
  from zoneForStep_fold [OF this]
  show "\<forall>z \<in> set zones. zoneMatches (TrimSuffix n ''.'') z \<longrightarrow> zoneName z = []" by auto
next
  assume "\<forall>z \<in> set zones. zoneMatches (TrimSuffix n ''.'') z \<longrightarrow> zoneName z = []"
  then show "zoneFor zones n = None" using zoneFor_Some by (metis not_None_eq)
qed

lemma zoneFor_cong:
  "(\<And>z. z \<in> set zones \<Longrightarrow> zoneMatches (TrimSuffix a ''.'') z \<longleftrightarrow> zoneMatches (TrimSuffix b ''.'') z) \<Longrightarrow>
     zoneFor zones a = zoneFor zones b"
  unfolding zoneFor_def by (intro arg_cong [where f = fst] fold_cong) (auto simp: zoneForStep_def)

text \<open>Example zones.\<close>

definition ex_zone :: "string \<Rightarrow> ('t, 'e) rfc_provider \<Rightarrow> ('t, 'e) zoneEntry" where
  "ex_zone z pr = \<lparr>zone = z, prov = pr\<rparr>"

definition ex_prov :: "(unit, unit) rfc_provider" where
  "ex_prov = newWithDeps ex_lib ex_cfg () ()"

definition ex_zones :: "(unit, unit) multi_provider" where
  "ex_zones = [ex_zone ''ex.com.'' ex_prov, ex_zone ''sub.ex.com.'' ex_prov]"

lemma ex_zoneFor:
  "zoneFor ex_zones ''a.sub.ex.com'' = Some (ex_zone ''sub.ex.com.'' ex_prov)"
  "zoneFor ex_zones ''a.ex.com'' = Some (ex_zone ''ex.com.'' ex_prov)"
  "zoneFor ex_zones ''aex.com'' = None"
  by (simp_all add: zoneFor_def ex_zones_def ex_zone_def zoneForStep_def zoneMatches_def zoneName_def
      TrimSuffix_def HasSuffix_def)

text \<open>
  The labels of a name, without its trailing dot, and when a zone contains a name: the zone's labels are the last
  labels of the name.
\<close>

definition labelsOf :: "string \<Rightarrow> string list" where
  "labelsOf n = SplitByte CHR ''.'' (TrimSuffix n ''.'')"

definition underZone :: "string \<Rightarrow> string \<Rightarrow> bool" where
  "underZone z n \<longleftrightarrow> (\<exists>front. labelsOf n = front @ labelsOf z)"

lemma SplitByte_append: "SplitByte c (xs @ c # ys) = SplitByte c xs @ SplitByte c ys"
  by (induction xs) (auto split: list.splits)

lemma Join_append_split: "xs \<noteq> [] \<Longrightarrow> ys \<noteq> [] \<Longrightarrow> Join (xs @ ys) sep = Join xs sep @ sep @ Join ys sep"
proof (induction xs)
  case (Cons x xs)
  then show ?case by (cases xs; cases ys) auto
qed simp

lemma suffix_iff_labels:
  "n = z \<or> HasSuffix n (''.'' @ z) \<longleftrightarrow> (\<exists>front. SplitByte CHR ''.'' n = front @ SplitByte CHR ''.'' z)"
proof
  assume "n = z \<or> HasSuffix n (''.'' @ z)"
  then show "\<exists>front. SplitByte CHR ''.'' n = front @ SplitByte CHR ''.'' z"
    by (auto simp: HasSuffix_iff SplitByte_append)
next
  assume "\<exists>front. SplitByte CHR ''.'' n = front @ SplitByte CHR ''.'' z"
  then obtain front where f: "SplitByte CHR ''.'' n = front @ SplitByte CHR ''.'' z" by blast
  show "n = z \<or> HasSuffix n (''.'' @ z)"
  proof (cases "front = []")
    case True
    then show ?thesis using f Join_SplitByte [of "CHR ''.''"] by (metis append_Nil)
  next
    case False
    have "n = Join front ''.'' @ ''.'' @ z"
      using arg_cong [OF f, of "\<lambda>ls. Join ls ''.''"] Join_append_split [OF False, of "SplitByte CHR ''.'' z" "''.''"]
      by (simp add: Join_SplitByte)
    then show ?thesis unfolding HasSuffix_iff by blast
  qed
qed

lemma zoneMatches_labels: "zoneMatches (TrimSuffix n ''.'') ze \<longleftrightarrow> underZone (zone ze) n"
  unfolding zoneMatches_def zoneName_def underZone_def labelsOf_def by (rule suffix_iff_labels)

text \<open>
  C22. \<open>zoneFor\<close> is the longest match on whole labels.  Seen as lists of labels, the zone it returns is configured and
  is a final part of the name, so \<open>example.com\<close> is chosen for \<open>a.example.com\<close> and never for
  \<open>badexample.com\<close>; every configured zone that is a final part of the name is no longer than it; and it
  returns nothing exactly when no configured zone but the root is a final part of the name.
\<close>

theorem zoneFor_longest_match:
  "(\<forall>ze. zoneFor zones n = Some ze \<longrightarrow>
      ze \<in> set zones \<and> underZone (zone ze) n
      \<and> (\<forall>z \<in> set zones. underZone (zone z) n \<longrightarrow> length (zoneName z) \<le> length (zoneName ze)))
   \<and> (zoneFor zones n = None \<longleftrightarrow> (\<forall>z \<in> set zones. underZone (zone z) n \<longrightarrow> zoneName z = []))"
  unfolding zoneMatches_labels [symmetric] using zoneFor_Some zoneFor_None by blast

theorem zoneFor_longest_match_witness:
  "zoneFor ex_zones ''a.sub.ex.com'' = Some (ex_zone ''sub.ex.com.'' ex_prov)
   \<and> length (zoneName (ex_zone ''ex.com.'' ex_prov)) \<le> length (zoneName (ex_zone ''sub.ex.com.'' ex_prov))
   \<and> \<not> underZone ''ex.com.'' ''aex.com''"
proof -
  have "labelsOf ''a.sub.ex.com'' = [''a'', ''sub'', ''ex'', ''com'']" "labelsOf ''ex.com.'' = [''ex'', ''com'']"
    "labelsOf ''aex.com'' = [''aex'', ''com'']"
    by (simp_all add: labelsOf_def TrimSuffix_def HasSuffix_def)
  then have "underZone ''ex.com.'' ''a.sub.ex.com''" "\<not> underZone ''ex.com.'' ''aex.com''"
    by (auto simp: underZone_def append_eq_Cons_conv Cons_eq_append_conv)
  then show ?thesis
    using zoneFor_longest_match [of ex_zones "''a.sub.ex.com''"] ex_zoneFor(1) by (simp add: ex_zones_def ex_zone_def)
qed

text \<open>The ownership prefix is one label and a dot, so it does not change which zones match.\<close>

lemma suffix_after_label:
  assumes "CHR ''.'' \<notin> set lab"
  shows "HasSuffix (lab @ ''.'' @ n) (''.'' @ z) \<longleftrightarrow> n = z \<or> HasSuffix n (''.'' @ z)"
proof
  assume "HasSuffix (lab @ ''.'' @ n) (''.'' @ z)"
  then obtain r where "lab @ ''.'' @ n = r @ ''.'' @ z" by (auto simp: HasSuffix_iff)
  then consider us where "r = lab @ us" "''.'' @ n = us @ ''.'' @ z" | us where "lab = r @ us" "us @ ''.'' @ n = ''.'' @ z"
    by (auto simp: append_eq_append_conv2)
  then show "n = z \<or> HasSuffix n (''.'' @ z)"
  proof cases
    case 1
    then show ?thesis by (cases us) (auto simp: HasSuffix_iff)
  next
    case 2
    then show ?thesis using assms by (cases us) auto
  qed
next
  assume "n = z \<or> HasSuffix n (''.'' @ z)"
  then show "HasSuffix (lab @ ''.'' @ n) (''.'' @ z)"
    by (auto simp: HasSuffix_iff)
qed

lemma companion_matches:
  assumes "n \<noteq> []" and "zoneName z \<noteq> ownershipName (TrimSuffix n ''.'')"
  shows "zoneMatches (TrimSuffix (ownershipName n) ''.'') z \<longleftrightarrow> zoneMatches (TrimSuffix n ''.'') z"
proof -
  have "ownershipName m = ''external-dns-docker-owner'' @ ''.'' @ m" for m
    by (simp add: ownershipName_def ownerPrefix_def)
  then show ?thesis
    unfolding zoneMatches_def TrimSuffix_ownershipName [OF assms(1)]
    using assms(2) suffix_after_label [of "''external-dns-docker-owner''" "TrimSuffix n ''.''" "zoneName z"]
    by auto
qed

text \<open>
  C23. A record and its ownership TXT record are always routed to the same zone, or both to none, so
  that they are written in one UPDATE message; the only exception is a configured zone whose own
  name is that of the ownership record.
\<close>

theorem companion_same_zone:
  assumes "n \<noteq> []" and "\<forall>z \<in> set zones. zoneName z \<noteq> ownershipName (TrimSuffix n ''.'')"
  shows "zoneFor zones (DNSName (ownershipTXTFor p n)) = zoneFor zones n"
  using assms companion_matches by (auto intro!: zoneFor_cong)

theorem companion_same_zone_witness:
  "zoneFor ex_zones (DNSName (ownershipTXTFor ex_plan ''a.sub.ex.com'')) = Some (ex_zone ''sub.ex.com.'' ex_prov)"
  using companion_same_zone [of "''a.sub.ex.com''" ex_zones ex_plan]
  by (simp add: ex_zoneFor) (simp add: ex_zones_def ex_zone_def zoneName_def TrimSuffix_def HasSuffix_def
      ownershipName_def ownerPrefix_def)


section \<open>Routing\<close>

definition routedTo :: "('t, 'e) multi_provider \<Rightarrow> string \<Rightarrow> string \<Rightarrow> bool" where
  "routedTo zones z n \<longleftrightarrow> map_option zone (zoneFor zones n) = Some z"

lemma map_of_emptyByZone: "map_of (emptyByZone zones) z = (if z \<in> zone ` set zones then Some no_changes else None)"
proof -
  have "map_of (fold (\<lambda>ze. AList.update (zone ze) no_changes) zones m) z =
      (if z \<in> zone ` set zones then Some no_changes else map_of m z)" for m :: "(string, changes) gomap"
    by (induction zones arbitrary: m) (auto simp: gomap_simps)
  then show ?thesis by (simp add: emptyByZone_def)
qed

lemma map_of_modifyZone:
  "map_of (modifyZone z f bz) y = (if y = z then map_option f (map_of bz z) else map_of bz y)"
  by (auto simp: modifyZone_def gomap_simps split: option.splits)

lemma routeStep_fold:
  "map_of (snd (fold (routeStep zones nameOf add) xs acc)) z =
     map_option (fold add (filter (\<lambda>x. routedTo zones z (nameOf x)) xs)) (map_of (snd acc) z)
   \<and> fst (fold (routeStep zones nameOf add) xs acc) =
     fst acc @ map (NoZoneMatch \<circ> nameOf) (filter (\<lambda>x. zoneFor zones (nameOf x) = None) xs)"
proof (induction xs arbitrary: acc)
  case (Cons x xs)
  have "map_of (snd (routeStep zones nameOf add x acc)) z =
      map_option (if routedTo zones z (nameOf x) then add x else id) (map_of (snd acc) z)"
    by (auto simp: routeStep_def routedTo_def map_of_modifyZone option.map_id split: prod.splits option.splits)
  moreover have "fst (routeStep zones nameOf add x acc) =
      fst acc @ (if zoneFor zones (nameOf x) = None then [NoZoneMatch (nameOf x)] else [])"
    by (auto simp: routeStep_def split: prod.splits option.splits)
  ultimately show ?case by (auto simp: Cons.IH option.map_comp comp_def id_def)
qed (simp add: option.map_id id_def [symmetric])

lemma fold_add:
  "fold addCreate xs c = c\<lparr>Create := Create c @ xs\<rparr>"
  "fold addDelete xs c = c\<lparr>Delete := Delete c @ xs\<rparr>"
  by (induction xs arbitrary: c) (simp_all add: addCreate_def addDelete_def)

lemma fold_addUpdate:
  "(\<forall>io \<in> set ios. fst io < length news) \<Longrightarrow> fold (addUpdate news) ios c =
     c\<lparr>UpdateOld := UpdateOld c @ map snd ios, UpdateNew := UpdateNew c @ map (\<lambda>io. news ! fst io) ios\<rparr>"
  by (induction ios arbitrary: c) (simp_all add: addUpdate_def Let_def)

lemma enumerate_snd:
  "map (\<lambda>io. f (snd io)) (filter (\<lambda>io. P (snd io)) (List.enumerate i xs)) = map f (filter P xs)"
  by (induction xs arbitrary: i) simp_all

lemma enumerate_zip:
  assumes "length olds = length news"
  shows "map (\<lambda>io. (snd io, news ! fst io)) (filter (\<lambda>io. P (snd io)) (List.enumerate 0 olds)) =
    filter (\<lambda>hw. P (fst hw)) (zip olds news)"
proof -
  have "map (\<lambda>io. (snd io, news ! fst io)) (List.enumerate 0 olds) = zip olds news"
    using assms by (intro nth_equalityI) (simp_all add: nth_enumerate_eq)
  then show ?thesis by (metis (mono_tags, lifting) filter_map comp_apply filter_cong fst_conv)
qed

text \<open>The part of a change set that goes to one zone.\<close>

definition zonePart :: "('t, 'e) multi_provider \<Rightarrow> changes \<Rightarrow> string \<Rightarrow> changes" where
  "zonePart zones ch z =
     (let pairs = filter (\<lambda>hw. routedTo zones z (DNSName (fst hw))) (zip (UpdateOld ch) (UpdateNew ch))
      in \<lparr>Create = filter (\<lambda>e. routedTo zones z (DNSName e)) (Create ch), UpdateOld = map fst pairs,
          UpdateNew = map snd pairs, Delete = filter (\<lambda>e. routedTo zones z (DNSName e)) (Delete ch)\<rparr>)"

lemma routeChanges_zonePart:
  assumes "z \<in> zone ` set zones" and "length (UpdateOld ch) = length (UpdateNew ch)"
  shows "map_of (snd (routeChanges zones ch)) z = Some (zonePart zones ch z)"
proof -
  let ?ios = "filter (\<lambda>io. routedTo zones z (DNSName (snd io))) (List.enumerate 0 (UpdateOld ch))"
  have "\<forall>io \<in> set ?ios. fst io < length (UpdateNew ch)"
    using assms(2) by (auto simp: in_set_enumerate_eq)
  moreover have "map (\<lambda>io. (snd io, UpdateNew ch ! fst io)) ?ios =
      filter (\<lambda>hw. routedTo zones z (DNSName (fst hw))) (zip (UpdateOld ch) (UpdateNew ch))"
    by (rule enumerate_zip [OF assms(2)])
  then have "map snd ?ios = map fst (filter (\<lambda>hw. routedTo zones z (DNSName (fst hw))) (zip (UpdateOld ch) (UpdateNew ch)))"
    "map (\<lambda>io. UpdateNew ch ! fst io) ?ios =
      map snd (filter (\<lambda>hw. routedTo zones z (DNSName (fst hw))) (zip (UpdateOld ch) (UpdateNew ch)))"
    by (metis (mono_tags, lifting) map_map comp_apply fst_conv snd_conv map_eq_conv)+
  ultimately show ?thesis
    using assms(1) unfolding routeChanges_def Let_def zonePart_def
    by (simp add: routeStep_fold map_of_emptyByZone fold_add fold_addUpdate)
qed

lemma routeChanges_warnings:
  "fst (routeChanges zones ch) = map (NoZoneMatch \<circ> DNSName)
     (filter (\<lambda>e. zoneFor zones (DNSName e) = None) (Create ch @ Delete ch @ UpdateOld ch))"
  unfolding routeChanges_def Let_def
  by (simp add: routeStep_fold comp_def
      enumerate_snd [where f = "\<lambda>e. NoZoneMatch (DNSName e)" and P = "\<lambda>e. zoneFor zones (DNSName e) = None"])

text \<open>
  C13. Routing loses and duplicates nothing: each zone's change set holds exactly the creations,
  deletions and old/new pairs whose name \<open>zoneFor\<close> sends there, in the original order, and the
  warnings are exactly the endpoints that no zone matches.
\<close>

theorem routeChanges_exact:
  assumes "z \<in> zone ` set zones" and "length (UpdateOld ch) = length (UpdateNew ch)"
  shows "map_of (snd (routeChanges zones ch)) z = Some
      \<lparr>Create = filter (\<lambda>e. routedTo zones z (DNSName e)) (Create ch),
       UpdateOld = map fst (filter (\<lambda>hw. routedTo zones z (DNSName (fst hw))) (zip (UpdateOld ch) (UpdateNew ch))),
       UpdateNew = map snd (filter (\<lambda>hw. routedTo zones z (DNSName (fst hw))) (zip (UpdateOld ch) (UpdateNew ch))),
       Delete = filter (\<lambda>e. routedTo zones z (DNSName e)) (Delete ch)\<rparr>
    \<and> fst (routeChanges zones ch) = map (NoZoneMatch \<circ> DNSName)
        (filter (\<lambda>e. zoneFor zones (DNSName e) = None) (Create ch @ Delete ch @ UpdateOld ch))"
  using routeChanges_zonePart [OF assms] routeChanges_warnings by (simp add: zonePart_def Let_def)

theorem routeChanges_exact_witness:
  "map_of (snd (routeChanges ex_zones
      \<lparr>Create = [ex_A ''a.sub.ex.com'' ''1.1.1.1'', ex_A ''aex.com'' ''1.1.1.1'', ex_A ''a.ex.com'' ''2.2.2.2''],
       UpdateOld = [], UpdateNew = [], Delete = []\<rparr>)) ''sub.ex.com.'' =
   Some \<lparr>Create = [ex_A ''a.sub.ex.com'' ''1.1.1.1''], UpdateOld = [], UpdateNew = [], Delete = []\<rparr>"
proof -
  let ?ch = "\<lparr>Create = [ex_A ''a.sub.ex.com'' ''1.1.1.1'', ex_A ''aex.com'' ''1.1.1.1'', ex_A ''a.ex.com'' ''2.2.2.2''],
       UpdateOld = [], UpdateNew = [], Delete = []\<rparr>"
  have "''sub.ex.com.'' \<in> zone ` set ex_zones" by (simp add: ex_zones_def ex_zone_def)
  from routeChanges_exact [OF this, of ?ch] show ?thesis
    by (simp add: routedTo_def ex_A_def ex_zoneFor) (simp add: ex_zone_def)
qed


section \<open>Parallel reads\<close>

text \<open>A zone transfer does not change the zones: what \<open>Records\<close> relies on of the servers.\<close>

definition reads_only :: "dns_lib \<Rightarrow> ('t, 'e, 'n) network \<Rightarrow> ('t, 'e) multi_provider \<Rightarrow> 'n \<Rightarrow> bool" where
  "reads_only lib net zones n \<longleftrightarrow> (\<forall>ze \<in> set zones. snd (rfc2136_Records lib net (prov ze) n) = n)"

lemma fetch_results:
  assumes "reads_only lib net zones n" and "set sched \<subseteq> {..<length zones}" and "length results = length zones"
  shows "fold (fetchStep lib net zones) sched (results, n) =
    (map (\<lambda>i. if i \<in> set sched then fst (rfc2136_Records lib net (prov (zones ! i)) n) else results ! i)
       [0..<length zones], n)"
  using assms(2,3)
proof (induction sched arbitrary: results)
  case Nil
  then show ?case using map_nth [of results] by simp
next
  case (Cons i sched)
  let ?r = "rfc2136_Records lib net (prov (zones ! i)) n"
  have "snd ?r = n" using assms(1) Cons.prems(1) by (simp add: reads_only_def)
  then have "fetchStep lib net zones i (results, n) = (results[i := fst ?r], n)"
    by (auto simp: fetchStep_def split: prod.splits)
  with Cons show ?case by (auto simp: nth_list_update)
qed

lemma mergeResults_acc:
  "mergeResults rs all = (case find is_err rs of Some (Inl e) \<Rightarrow> Inl e | _ \<Rightarrow> Inr (all @ concat (map projr rs)))"
  by (induction rs all rule: mergeResults.induct) (auto split: option.splits sum.splits)

lemmas mergeResults_start = mergeResults_acc [of _ "[]", unfolded append_Nil]

lemma multi_Records_sequential:
  assumes "reads_only lib net zones n" and "mset sched = mset [0..<length zones]"
  shows "multi_Records lib net sched zones n =
    (let rs = map (\<lambda>ze. fst (rfc2136_Records lib net (prov ze) n)) zones
     in (case find is_err rs of Some (Inl e) \<Rightarrow> Inl e | _ \<Rightarrow> Inr (concat (map projr rs)), n))"
proof -
  have s: "set sched = {..<length zones}" using mset_eq_setD [OF assms(2)] by (simp add: atLeast0LessThan)
  have "map (\<lambda>i. if i \<in> set sched then fst (rfc2136_Records lib net (prov (zones ! i)) n)
        else replicate (length zones) (Inr []) ! i) [0..<length zones] =
      map (\<lambda>ze. fst (rfc2136_Records lib net (prov ze) n)) zones"
    unfolding s by (intro nth_equalityI) simp_all
  then show ?thesis
    using fetch_results [OF assms(1), of sched "replicate (length zones) (Inr [])"] s
    by (simp add: multi_Records_def mergeResults_start Let_def)
qed

text \<open>
  C24. The parallel read is deterministic: for every schedule that runs each zone's transfer once, the
  result is the one of reading the zones one after another in the configured order, all records
  concatenated when every zone answered and the error of the first failing zone in that order
  otherwise, never a partial list.
\<close>

theorem multi_Records_schedule_independent:
  assumes "reads_only lib net zones n" and "mset sched = mset [0..<length zones]"
  shows "multi_Records lib net sched zones n =
    (let rs = map (\<lambda>ze. fst (rfc2136_Records lib net (prov ze) n)) zones
     in (case find is_err rs of Some (Inl e) \<Rightarrow> Inl e | _ \<Rightarrow> Inr (concat (map projr rs)), n))"
  using multi_Records_sequential [OF assms] .

definition ex_net :: "(unit, unit, unit) network" where
  "ex_net = \<lparr>In = (\<lambda>_ _ _ n. (Inr (Envelope (Inr [RR_Other
       \<lparr>hdrName = ''ex.'', Rrtype = 6, Class = 1, hdrTtl = 0\<rparr>]) Closed), n)),
     ExchangeContext = (\<lambda>_ _ _ n. (Inr 0, n)), NowUnix = (\<lambda>_. 0)\<rparr>"

theorem multi_Records_schedule_independent_witness:
  "multi_Records ex_lib ex_net [1, 0] ex_zones () = (Inr [], ())"
proof -
  have "rfc2136_Records ex_lib ex_net ex_prov () = (Inr [], ())"
    by (simp add: rfc2136_Records_def ex_net_def)
  then show ?thesis
    using multi_Records_schedule_independent [of ex_lib ex_net ex_zones "()" "[1, 0]"]
    by (simp add: reads_only_def ex_zones_def ex_zone_def)
qed


section \<open>Failing zones\<close>

lemma dispatch_append:
  "dispatch lib net bz (as @ bs) n ws = (case dispatch lib net bz as n ws of
     (ws', Some e, n') \<Rightarrow> (ws', Some e, n') | (ws', None, n') \<Rightarrow> dispatch lib net bz bs n' ws')"
  by (induction lib net bz as n ws rule: dispatch.induct) (auto simp: Let_def split: prod.splits option.splits)

text \<open>
  Zones are updated one by one in the configured order and an error stops the loop: when zone
  \<open>ze\<close> refuses its part, that error is returned and the state is the one after \<open>ze\<close>'s answer, so
  the zones before it keep their updates and the zones after it are not contacted.
\<close>

lemma multi_apply_stops_at_error:
  assumes "zones = before @ ze # after" and "routeChanges zones ch = (ws, bz)"
    and "dispatch lib net bz before n ws = (ws1, None, n1)"
    and "map_of bz (zone ze) = Some zc" and "\<not> IsEmpty zc"
    and "rfc2136_ApplyChanges lib net (prov ze) n1 zc = (ws2, Some e, n2)"
  shows "multi_ApplyChanges lib net zones n ch = (ws1 @ map ZoneWarning ws2, Some e, n2)"
  using assms by (simp add: multi_ApplyChanges_def dispatch_append Let_def)


definition ex_refusing :: "(unit, unit, nat) network" where
  "ex_refusing = \<lparr>In = (\<lambda>_ _ _ n. (Inr Closed, n)), ExchangeContext = (\<lambda>_ _ _ n. (Inr (if n = 0 then 0 else 5), Suc n)),
     NowUnix = (\<lambda>_. 0)\<rparr>"

lemma multi_apply_stops_at_error_example:
  "multi_ApplyChanges ex_lib ex_refusing (ex_zones @ [ex_zone ''org.'' ex_prov]) 0
     \<lparr>Create = map (ownershipTXTFor ex_plan) [''a.org'', ''a.sub.ex.com'', ''a.ex.com''],
      UpdateOld = [], UpdateNew = [], Delete = []\<rparr>
   = ([], Some (RcodeError ''dns update failed: rcode RCODE5'' 5), 2)"
proof -
  let ?txt = "ownershipTXTFor ex_plan" and ?zs = "ex_zones @ [ex_zone ''org.'' ex_prov]"
  let ?ch = "\<lparr>Create = map ?txt [''a.org'', ''a.sub.ex.com'', ''a.ex.com''], UpdateOld = [], UpdateNew = [], Delete = []\<rparr>"
  let ?part = "\<lambda>n. \<lparr>Create = [?txt n], UpdateOld = [], UpdateNew = [], Delete = []\<rparr>"
  let ?bz = "[(''ex.com.'', ?part ''a.ex.com''), (''sub.ex.com.'', ?part ''a.sub.ex.com''), (''org.'', ?part ''a.org'')]"
  have zs: "?zs = [ex_zone ''ex.com.'' ex_prov] @ ex_zone ''sub.ex.com.'' ex_prov # [ex_zone ''org.'' ex_prov]"
    by (simp add: ex_zones_def)
  have route: "routeChanges ?zs ?ch = ([], ?bz)"
    by (simp add: routeChanges_def emptyByZone_def routeStep_def zoneFor_def ex_zones_def ex_zone_def zoneForStep_def
        zoneMatches_def zoneName_def TrimSuffix_def HasSuffix_def modifyZone_def addCreate_def no_changes_def
        ownershipName_def ownerPrefix_def)
  have five: "showNat 5 = ''5''" by code_simp
  have applied: "rfc2136_ApplyChanges ex_lib ex_refusing ex_prov n (?part m) =
      ([], if n = 0 then None else Some (RcodeError ''dns update failed: rcode RCODE5'' 5), Suc n)" for n m
    by (simp add: rfc2136_ApplyChanges_def IsEmpty_def buildUpdate_def createStep_def endpointToRRs_def targetToRR_def
        ex_refusing_def ex_lib_def five)
  show ?thesis
    using multi_apply_stops_at_error [OF zs route, of ex_lib ex_refusing 0 "[]" 1 "?part ''a.sub.ex.com''" "[]"
        "RcodeError ''dns update failed: rcode RCODE5'' 5" 2]
    by (simp add: ex_zone_def applied IsEmpty_def)
qed

end
