(* ===== verification/DockerSource.thy ===== *)
theory DockerSource
  imports Source
begin

text \<open>
  \<open>pkg/source/docker.go\<close>: the Docker source.  \<open>ContainerList\<close> and the event stream belong to the
  Docker client library, so their results are arguments.  Every warning the code logs before it
  skips a label set is a value of \<open>warning\<close>; the functions return the warnings with the result.
\<close>


section \<open>Validation\<close>

definition alnum :: "char \<Rightarrow> bool" where
  "alnum c \<longleftrightarrow> (let n = of_char c :: nat in
     97 \<le> n \<and> n \<le> 122 \<or> 65 \<le> n \<and> n \<le> 90 \<or> 48 \<le> n \<and> n \<le> 57)"

definition alnum_hyphen :: "char \<Rightarrow> bool" where
  "alnum_hyphen c \<longleftrightarrow> alnum c \<or> c = CHR ''-''"

definition labelRE :: regex where
  "labelRE = Seq (Class alnum) (Opt (Seq (RepMax 61 alnum_hyphen) (Class alnum)))"

definition ipv4RE :: regex where
  "ipv4RE =
     Seq (Plus is_digit) (Seq (Class (\<lambda>c. c = CHR ''.''))
       (Seq (Plus is_digit) (Seq (Class (\<lambda>c. c = CHR ''.''))
         (Seq (Plus is_digit) (Seq (Class (\<lambda>c. c = CHR ''.'')) (Plus is_digit))))))"

definition isValidHostname :: "string \<Rightarrow> bool" where
  "isValidHostname name =
     (let name = TrimSuffix name ''.'' in
      if length name = 0 \<or> length name > 253 then False
      else list_all (MatchAnchored labelRE) (SplitByte CHR ''.'' name))"

definition isValidTarget :: "string \<Rightarrow> bool" where
  "isValidTarget target =
     (if MatchAnchored ipv4RE target then ParseIP target \<noteq> None
      else if ParseIP target \<noteq> None then True
      else isValidHostname target)"


section \<open>Labels to endpoints\<close>

definition labelPrefix :: string where "labelPrefix = ''external-dns.io/''"
definition labelHostname :: string where "labelHostname = labelPrefix @ ''hostname''"
definition labelTarget :: string where "labelTarget = labelPrefix @ ''target''"
definition labelTTL :: string where "labelTTL = labelPrefix @ ''ttl''"
definition labelRecordType :: string where "labelRecordType = labelPrefix @ ''record-type''"

datatype warning =
    InvalidHostname string string
  | MissingTarget string string
  | InvalidTarget string string string
  | InvalidTTL string string string

definition labelGet :: "(string, string) gomap \<Rightarrow> string \<Rightarrow> string" where
  "labelGet labels k = (case map_of labels k of None \<Rightarrow> [] | Some v \<Rightarrow> v)"

definition parseSingle ::
  "string \<Rightarrow> string \<Rightarrow> string \<Rightarrow> string \<Rightarrow> string \<Rightarrow> warning list \<times> endpoint option"
where
  "parseSingle containerID hostname target rawTTL rawRecordType =
     (let hostname = TrimSpace hostname in
      if hostname = [] then ([], None)
      else if \<not> isValidHostname hostname then ([InvalidHostname containerID hostname], None)
      else
        (let target = TrimSpace target in
         if target = [] then ([MissingTarget containerID hostname], None)
         else if \<not> isValidTarget target then ([InvalidTarget containerID hostname target], None)
         else
           (let finish = (\<lambda>ttl.
              (let recordType = TrimSpace rawRecordType;
                   recordType = (if recordType = [] then InferRecordType target else recordType)
               in ([], Some (endpoint_New hostname [target] recordType ttl None)))) in
            if rawTTL \<noteq> [] then
              (case ParseInt (TrimSpace rawTTL) of
                 Inl e \<Rightarrow> ([InvalidTTL containerID hostname rawTTL], None)
               | Inr v \<Rightarrow>
                   if v < 0 then ([InvalidTTL containerID hostname rawTTL], None) else finish v)
            else finish DefaultTTL)))"

definition indexedKey :: "string \<Rightarrow> nat \<Rightarrow> string" where
  "indexedKey field i = labelPrefix @ field @ ''-'' @ showNat i"

definition parseIndexed ::
  "string \<Rightarrow> (string, string) gomap \<Rightarrow> nat \<Rightarrow> string \<Rightarrow> warning list \<times> endpoint option"
where
  "parseIndexed containerID labels i hostname =
     parseSingle containerID hostname (labelGet labels (indexedKey ''target'' i))
       (labelGet labels (indexedKey ''ttl'' i)) (labelGet labels (indexedKey ''record-type'' i))"

lemma indexedKey_inj: "indexedKey f i = indexedKey f j \<Longrightarrow> i = j"
  by (simp add: indexedKey_def showNat_inj)

lemma finite_indexed: "finite {j. indexedKey f j \<in> fst ` set labels}"
  by (rule finite_vimageI [of "fst ` set labels" "indexedKey f", unfolded vimage_def])
    (auto intro: injI indexedKey_inj)

text \<open>
  The loop over \<open>hostname-0\<close>, \<open>hostname-1\<close>, \<dots>, which stops at the first missing index.  It ends
  because a label map has finitely many keys and decimal printing is injective.
\<close>

function indexedLoop ::
  "string \<Rightarrow> (string, string) gomap \<Rightarrow> nat \<Rightarrow> warning list \<times> endpoint list"
where
  "indexedLoop containerID labels i =
     (case map_of labels (indexedKey ''hostname'' i) of
        None \<Rightarrow> ([], [])
      | Some hostname \<Rightarrow>
          (let (ws, ep) = parseIndexed containerID labels i hostname;
               (ws', eps) = indexedLoop containerID labels (Suc i)
           in (ws @ ws', (case ep of None \<Rightarrow> eps | Some e \<Rightarrow> e # eps))))"
  by pat_completeness auto
termination
proof (relation "measure (\<lambda>(_, labels, i). card {j. i \<le> j \<and> indexedKey ''hostname'' j \<in> fst ` set labels})")
  fix containerID labels i and hostname :: string
  assume "map_of labels (indexedKey ''hostname'' i) = Some hostname"
  then have i: "indexedKey ''hostname'' i \<in> fst ` set labels"
    by (metis map_of_SomeD fst_conv image_eqI)
  have "finite {j. i \<le> j \<and> indexedKey ''hostname'' j \<in> fst ` set labels}"
    by (rule finite_subset [OF _ finite_indexed [of "''hostname''" labels]]) auto
  moreover have "{j. Suc i \<le> j \<and> indexedKey ''hostname'' j \<in> fst ` set labels}
      \<subset> {j. i \<le> j \<and> indexedKey ''hostname'' j \<in> fst ` set labels}"
  proof -
    have "i \<in> {j. i \<le> j \<and> indexedKey ''hostname'' j \<in> fst ` set labels}" using i by simp
    moreover have "i \<notin> {j. Suc i \<le> j \<and> indexedKey ''hostname'' j \<in> fst ` set labels}" by simp
    ultimately show ?thesis by (metis (no_types, lifting) Collect_mono Suc_leD psubsetI)
  qed
  ultimately show "((containerID, labels, Suc i), containerID, labels, i)
      \<in> measure (\<lambda>(_, labels, i). card {j. i \<le> j \<and> indexedKey ''hostname'' j \<in> fst ` set labels})"
    by (simp add: psubset_card_mono)
qed simp

declare indexedLoop.simps [simp del]

definition endpointsFromLabels ::
  "string \<Rightarrow> (string, string) gomap \<Rightarrow> warning list \<times> endpoint list"
where
  "endpointsFromLabels containerID labels =
     (let (ws, eps) =
        (case map_of labels labelHostname of
           None \<Rightarrow> ([], [])
         | Some hostname \<Rightarrow>
             (case parseSingle containerID hostname (labelGet labels labelTarget)
                (labelGet labels labelTTL) (labelGet labels labelRecordType) of
                (ws, None) \<Rightarrow> (ws, [])
              | (ws, Some ep) \<Rightarrow> (ws, [ep])));
          (ws', eps') = indexedLoop containerID labels 0
      in (ws @ ws', eps @ eps'))"


section \<open>The source\<close>

record container =
  ID :: string
  cLabels :: "(string, string) gomap"

record ('c, 'h) docker_source =
  client :: 'c
  handlers :: "'h list"
  reconnectWait :: int

datatype docker_opt =
    FromEnv
  | WithAPIVersionNegotiation
  | WithHost string
  | WithTLSClientConfig string string string

text \<open>\<open>NewClientWithOpts\<close> belongs to the Docker client library: the argument \<open>newClient\<close>.\<close>

definition NewDockerSource ::
  "(docker_opt list \<Rightarrow> 'c result) \<Rightarrow> docker_opt list \<Rightarrow> ('c, 'h) docker_source result"
where
  "NewDockerSource newClient extraOpts =
     (case newClient ([FromEnv, WithAPIVersionNegotiation] @ extraOpts) of
        Inl e \<Rightarrow> Inl (Wrap ''docker client'' e)
      | Inr c \<Rightarrow> Inr \<lparr>client = c, handlers = [], reconnectWait = 5000000000\<rparr>)"

definition newDockerSourceWithClient :: "'c \<Rightarrow> ('c, 'h) docker_source" where
  "newDockerSourceWithClient c = \<lparr>client = c, handlers = [], reconnectWait = 0\<rparr>"

text \<open>\<open>Close\<close>: the client's own method is the argument \<open>close\<close>, \<open>None\<close> is no error.\<close>

definition docker_Close :: "('c \<Rightarrow> goerror option) \<Rightarrow> ('c, 'h) docker_source \<Rightarrow> goerror option" where
  "docker_Close close s = close (client s)"

definition shortID :: "string \<Rightarrow> string" where
  "shortID cid = (if length cid > 12 then take 12 cid else cid)"

text \<open>The loop over the containers, and the method: the answer of \<open>ContainerList\<close> is an argument.\<close>

definition containersEndpoints :: "container list \<Rightarrow> warning list \<times> endpoint list" where
  "containersEndpoints cs =
     fold (\<lambda>c (ws, eps). case endpointsFromLabels (shortID (ID c)) (cLabels c) of
             (ws', eps') \<Rightarrow> (ws @ ws', eps @ eps')) cs ([], [])"

definition docker_Endpoints :: "container list result \<Rightarrow> warning list \<times> endpoint list result" where
  "docker_Endpoints containers = (case containers of
     Inl e \<Rightarrow> ([], Inl (Wrap ''listing containers'' e))
   | Inr cs \<Rightarrow> (case containersEndpoints cs of (ws, eps) \<Rightarrow> (ws, Inr eps)))"

definition docker_AddEventHandler :: "'h \<Rightarrow> ('c, 'h) docker_source \<Rightarrow> ('c, 'h) docker_source" where
  "docker_AddEventHandler h s = s\<lparr>handlers := handlers s @ [h]\<rparr>"

text \<open>The method table, for a client whose \<open>ContainerList\<close> is the function \<open>list\<close>.\<close>

definition docker_methods ::
  "('c \<Rightarrow> container list result) \<Rightarrow> ('h, ('c, 'h) docker_source) source"
where
  "docker_methods list =
     \<lparr>Endpoints = (\<lambda>s. (snd (docker_Endpoints (list (client s))), s)),
      AddEventHandler = docker_AddEventHandler\<rparr>"


section \<open>Watching events\<close>

definition eventFilters :: "(string \<times> string) list" where
  "eventFilters =
     [(''type'', ''container''), (''event'', ''start''), (''event'', ''stop''),
      (''event'', ''die''), (''event'', ''update'')]"

text \<open>
  What the \<open>select\<close> of \<open>runEventLoop\<close> receives, one value per turn of the loop: the context is
  done, a value (possibly nil) on the error channel, or a message.  A list that ends without one
  of the first two stands for a loop still waiting.
\<close>

datatype select_event = SelDone | SelErr "goerror option" | SelMsg

datatype loop_exit = Waiting | CtxDone | StreamEnded

record 'h watch_log =
  calls :: "'h list"
  dockerEventsTotal :: nat
  streamWarnings :: "goerror list"
  reconnects :: nat

definition notify :: "'h list \<Rightarrow> 'h watch_log \<Rightarrow> 'h watch_log" where
  "notify hs l = l\<lparr>dockerEventsTotal := Suc (dockerEventsTotal l), calls := calls l @ hs\<rparr>"

fun runEventLoop :: "'h list \<Rightarrow> select_event list \<Rightarrow> 'h watch_log \<Rightarrow> loop_exit \<times> 'h watch_log" where
  "runEventLoop hs [] l = (Waiting, l)"
| "runEventLoop hs (SelDone # es) l = (CtxDone, l)"
| "runEventLoop hs (SelErr (Some e) # es) l = (StreamEnded, l\<lparr>streamWarnings := streamWarnings l @ [e]\<rparr>)"
| "runEventLoop hs (SelErr None # es) l = (StreamEnded, l)"
| "runEventLoop hs (SelMsg # es) l = runEventLoop hs es (notify hs l)"

text \<open>
  \<open>Watch\<close>: one list of events per connection, with the outcome of the \<open>select\<close> that follows it
  (\<open>True\<close>: the context is done, \<open>False\<close>: the reconnect wait has passed).  The result says whether
  \<open>Watch\<close> returned.
\<close>

fun Watch :: "'h list \<Rightarrow> (select_event list \<times> bool) list \<Rightarrow> 'h watch_log \<Rightarrow> bool \<times> 'h watch_log" where
  "Watch hs [] l = (False, l)"
| "Watch hs ((es, finished) # rest) l =
     (case runEventLoop hs es l of
        (Waiting, l') \<Rightarrow> (False, l')
      | (_, l') \<Rightarrow> if finished then (True, l') else Watch hs rest (l'\<lparr>reconnects := Suc (reconnects l')\<rparr>))"


section \<open>What the regular expressions accept\<close>

lemma labelRE_iff:
  "MatchAnchored labelRE s \<longleftrightarrow>
     s \<noteq> [] \<and> length s \<le> 63 \<and> alnum (hd s) \<and> alnum (last s) \<and> (\<forall>c \<in> set s. alnum_hyphen c)"
proof (cases s)
  case Nil
  then show ?thesis by (simp add: MatchAnchored_def labelRE_def)
next
  case (Cons c t)
  have "MatchAnchored labelRE s \<longleftrightarrow> alnum c \<and> (t = [] \<or>
      (\<exists>u d. t = u @ [d] \<and> length u \<le> 61 \<and> (\<forall>x \<in> set u. alnum_hyphen x) \<and> alnum d))"
    using Cons by (auto simp: MatchAnchored_def labelRE_def rx_rest_sets)
  moreover have "(\<exists>u d. t = u @ [d] \<and> length u \<le> 61 \<and> (\<forall>x \<in> set u. alnum_hyphen x) \<and> alnum d) \<longleftrightarrow>
      t \<noteq> [] \<and> length t \<le> 62 \<and> alnum (last t) \<and> (\<forall>x \<in> set t. alnum_hyphen x)"
    by (cases t rule: rev_cases) (auto simp: alnum_hyphen_def)
  ultimately show ?thesis using Cons by (auto simp: alnum_hyphen_def)
qed

lemma ipv4RE_iff:
  "MatchAnchored ipv4RE s \<longleftrightarrow>
     (\<exists>a b c d. s = a @ ''.'' @ b @ ''.'' @ c @ ''.'' @ d \<and>
        (\<forall>f \<in> {a, b, c, d}. f \<noteq> [] \<and> (\<forall>x \<in> set f. is_digit x)))"
proof -
  have seq: "[] \<in> set (rx_rest (Seq (Plus is_digit) r) s) \<longleftrightarrow>
      (\<exists>a t. s = a @ t \<and> a \<noteq> [] \<and> (\<forall>x \<in> set a. is_digit x) \<and> [] \<in> set (rx_rest r t))" for r s
    by (auto simp: set_plus_rest)
  have dot: "[] \<in> set (rx_rest (Seq (Class (\<lambda>c. c = CHR ''.'')) r) s) \<longleftrightarrow>
      (\<exists>t. s = CHR ''.'' # t \<and> [] \<in> set (rx_rest r t))" for r s
    by (auto simp: set_class_rest)
  have last: "[] \<in> set (rx_rest (Plus is_digit) s) \<longleftrightarrow> s \<noteq> [] \<and> (\<forall>x \<in> set s. is_digit x)" for s
    by (auto simp: set_plus_rest)
  show ?thesis unfolding MatchAnchored_def ipv4RE_def seq dot last by fastforce
qed

lemma ipv4RE_addrKind: "MatchAnchored ipv4RE s \<Longrightarrow> addrKind s = Some CHR ''.''"
  by (auto simp: ipv4RE_iff addrKind_digits)


section \<open>Valid names and targets\<close>

lemma isValidHostname_chars:
  assumes "isValidHostname name" and "c \<in> set name"
  shows "alnum_hyphen c \<or> c = CHR ''.''"
proof -
  let ?n = "TrimSuffix name ''.''"
  have labels: "\<forall>l \<in> set (SplitByte CHR ''.'' ?n). MatchAnchored labelRE l"
    using assms(1) by (auto simp: isValidHostname_def Let_def list_all_iff split: if_splits)
  have "set name \<subseteq> set ?n \<union> {CHR ''.''}"
  proof (cases "HasSuffix name ''.''")
    case True
    then have "set name = set (?n @ ''.'')" by (simp only: TrimSuffix_restore)
    then show ?thesis by simp
  qed auto
  then consider "c = CHR ''.''" | l where "l \<in> set (SplitByte CHR ''.'' ?n)" "c \<in> set l"
    using assms(2) set_via_SplitByte [of ?n "CHR ''.''"] by blast
  then show ?thesis using labels by cases (auto simp: labelRE_iff)
qed

lemma isValidHostname_no_backslash: "isValidHostname name \<Longrightarrow> CHR 0x5C \<notin> set name"
  using isValidHostname_chars [of name "CHR 0x5C"] by (auto simp: alnum_hyphen_def alnum_def)

lemma isValidHostname_no_bar: "isValidHostname name \<Longrightarrow> CHR ''|'' \<notin> set name"
  using isValidHostname_chars [of name "CHR ''|''"] by (auto simp: alnum_hyphen_def alnum_def)

lemma parseSingle_Some:
  assumes "parseSingle cid hostname target rawTTL rawRT = (ws, Some e)"
  shows "ws = [] \<and> DNSName e = TrimSpace hostname \<and> Targets e = [TrimSpace target] \<and> DNSName e \<noteq> []
     \<and> isValidHostname (DNSName e) \<and> isValidTarget (TrimSpace target) \<and> 0 < TTL e \<and> TTL e < 2 ^ 63 \<and> Labels e = []
     \<and> RecordType e = (if TrimSpace rawRT = [] then InferRecordType (TrimSpace target) else TrimSpace rawRT)"
  using assms ParseInt_range
  by (auto simp: parseSingle_def Let_def in_int64_def split: if_splits sum.splits)

lemma parseSingle_sound: "parseSingle cid h t l r = (ws, Some e) \<Longrightarrow> sound_endpoint e"
  by (auto simp: sound_endpoint_def isValidHostname_no_bar dest!: parseSingle_Some)

text \<open>An endpoint read off the labels: some call of \<open>parseSingle\<close> made it.\<close>

definition from_labels :: "endpoint \<Rightarrow> bool" where
  "from_labels e \<longleftrightarrow> (\<exists>cid h t l r ws. parseSingle cid h t l r = (ws, Some e))"

lemma from_labelsI: "parseSingle cid h t l r = (ws, Some e) \<Longrightarrow> from_labels e"
  unfolding from_labels_def by (intro exI)

lemma indexedLoop_from_labels: "e \<in> set (snd (indexedLoop cid labels i)) \<Longrightarrow> from_labels e"
proof (induction cid labels i rule: indexedLoop.induct)
  case (1 cid labels i)
  show ?case
  proof (cases "map_of labels (indexedKey ''hostname'' i)")
    case None
    then show ?thesis using "1.prems" by (subst (asm) indexedLoop.simps) simp
  next
    case (Some h)
    obtain ws ep where p: "parseIndexed cid labels i h = (ws, ep)" by fastforce
    obtain ws' eps where l: "indexedLoop cid labels (Suc i) = (ws', eps)" by fastforce
    have "ep = Some e \<or> e \<in> set eps"
      using "1.prems" Some p l by (subst (asm) indexedLoop.simps) (auto split: option.splits)
    then show ?thesis
      using "1.IH" [OF Some] p l by (auto simp: parseIndexed_def intro: from_labelsI)
  qed
qed

lemma endpointsFromLabels_from_labels: "e \<in> set (snd (endpointsFromLabels cid labels)) \<Longrightarrow> from_labels e"
proof -
  obtain ws eps where l: "indexedLoop cid labels 0 = (ws, eps)" by fastforce
  assume "e \<in> set (snd (endpointsFromLabels cid labels))"
  with l have "e \<in> set eps \<or> from_labels e"
    by (auto simp: endpointsFromLabels_def Let_def intro: from_labelsI split: option.splits prod.splits)
  then show ?thesis using indexedLoop_from_labels [of e cid labels 0] l by auto
qed

lemma containersEndpoints_eq:
  "containersEndpoints cs =
     (concat (map (\<lambda>c. fst (endpointsFromLabels (shortID (ID c)) (cLabels c))) cs),
      concat (map (\<lambda>c. snd (endpointsFromLabels (shortID (ID c)) (cLabels c))) cs))"
proof -
  have "fold (\<lambda>c (ws, eps). case endpointsFromLabels (shortID (ID c)) (cLabels c) of
        (ws', eps') \<Rightarrow> (ws @ ws', eps @ eps')) cs (ws, eps) =
      (ws @ concat (map (\<lambda>c. fst (endpointsFromLabels (shortID (ID c)) (cLabels c))) cs),
       eps @ concat (map (\<lambda>c. snd (endpointsFromLabels (shortID (ID c)) (cLabels c))) cs))" for ws eps
    by (induction cs arbitrary: ws eps) (auto split: prod.splits)
  then show ?thesis by (simp add: containersEndpoints_def)
qed

lemma docker_Endpoints_from_labels:
  "snd (docker_Endpoints containers) = Inr eps \<Longrightarrow> e \<in> set eps \<Longrightarrow> from_labels e"
  by (auto simp: docker_Endpoints_def containersEndpoints_eq dest: endpointsFromLabels_from_labels
      split: sum.splits)

text \<open>The Docker source keeps the contract of a source.\<close>

interpretation docker: endpoint_source "docker_methods list" for list
proof unfold_locales
  fix s :: "('a, 'b) docker_source" and eps s' e
  assume "Endpoints (docker_methods list) s = (Inr eps, s')" "e \<in> set eps"
  then have "from_labels e"
    by (intro docker_Endpoints_from_labels) (auto simp: docker_methods_def)
  then show "sound_endpoint e" by (auto simp: from_labels_def dest: parseSingle_sound)
qed


section \<open>Properties\<close>

definition ex_container :: container where
  "ex_container =
     \<lparr>ID = ''0123456789abcdef'',
      cLabels = [(''external-dns.io/hostname'', '' web.example.com ''), (''external-dns.io/target'', ''10.0.0.1''),
        (''external-dns.io/ttl'', ''60''),
        (''external-dns.io/hostname-0'', ''a.example.com''), (''external-dns.io/target-0'', ''backend.example.com''),
        (''external-dns.io/hostname-2'', ''c.example.com''), (''external-dns.io/target-2'', ''10.0.0.3'')]\<rparr>"

lemma ex_container_endpoints:
  "docker_Endpoints (Inr [ex_container]) =
     ([], Inr [endpoint_New ''web.example.com'' [''10.0.0.1''] ''A'' 60 None,
               endpoint_New ''a.example.com'' [''backend.example.com''] ''CNAME'' 300 None])"
  by code_simp

text \<open>
  C14. Everything the Docker source returns is well-formed: each endpoint has a valid RFC 1123 name
  without the plan's key separator, exactly one valid target, and a TTL in the positive \<open>int64\<close>
  range, whatever the labels of the containers are.
\<close>

theorem docker_endpoints_valid:
  assumes "snd (docker_Endpoints containers) = Inr eps" and "e \<in> set eps"
  shows "isValidHostname (DNSName e) \<and> CHR ''|'' \<notin> set (DNSName e)
     \<and> (\<exists>t. Targets e = [t] \<and> isValidTarget t) \<and> 0 < TTL e \<and> TTL e < 2 ^ 63"
proof -
  from docker_Endpoints_from_labels [OF assms] obtain cid h t l r ws
    where "parseSingle cid h t l r = (ws, Some e)" by (auto simp: from_labels_def)
  then show ?thesis by (auto simp: isValidHostname_no_bar dest!: parseSingle_Some)
qed

theorem docker_endpoints_valid_witness:
  "isValidHostname ''web.example.com'' \<and> isValidTarget ''10.0.0.1''"
  using docker_endpoints_valid [of "Inr [ex_container]" _ "endpoint_New ''web.example.com'' [''10.0.0.1''] ''A'' 60 None"]
  by (simp add: ex_container_endpoints)

text \<open>
  C33. \<open>isValidHostname\<close> implements its comment: after an optional trailing dot, 1 to 253 bytes in
  dot-separated labels of 1 to 63 letters, digits and hyphens that neither start nor end with a
  hyphen.
\<close>

theorem isValidHostname_rfc1123:
  "isValidHostname name \<longleftrightarrow>
     (let n = TrimSuffix name ''.'' in
      1 \<le> length n \<and> length n \<le> 253 \<and>
      (\<forall>l \<in> set (SplitByte CHR ''.'' n).
         1 \<le> length l \<and> length l \<le> 63 \<and> (\<forall>c \<in> set l. alnum c \<or> c = CHR ''-'')
         \<and> hd l \<noteq> CHR ''-'' \<and> last l \<noteq> CHR ''-''))"
proof -
  have hyphen: "\<not> alnum CHR ''-''" by (simp add: alnum_def)
  have "MatchAnchored labelRE l \<longleftrightarrow>
      1 \<le> length l \<and> length l \<le> 63 \<and> (\<forall>c \<in> set l. alnum c \<or> c = CHR ''-'') \<and> hd l \<noteq> CHR ''-'' \<and> last l \<noteq> CHR ''-''" for l
  proof (cases "l = []")
    case False
    then have "hd l \<in> set l" "last l \<in> set l" by simp_all
    with False hyphen show ?thesis
      unfolding labelRE_iff alnum_hyphen_def by (metis One_nat_def Suc_leI length_greater_0_conv)
  qed (simp add: labelRE_iff)
  then show ?thesis by (auto simp: isValidHostname_def Let_def list_all_iff not_less Suc_le_eq)
qed

theorem isValidHostname_rfc1123_witness:
  "isValidHostname ''a-1.example.com.'' \<and> \<not> isValidHostname ''-a.example.com''"
proof -
  have "isValidHostname ''a-1.example.com.''" by code_simp
  moreover have "\<not> isValidHostname ''-a.example.com''"
    unfolding isValidHostname_rfc1123 by (simp add: Let_def TrimSuffix_def HasSuffix_def)
  ultimately show ?thesis by blast
qed

text \<open>
  A target that looks like an IPv4 address (four dot-separated decimal numbers) is accepted
  exactly when it is the canonical text of an IPv4 address: no octet above 255, no leading zeros.
\<close>

lemma isValidTarget_dotted_quad:
  assumes "MatchAnchored ipv4RE target"
  shows "isValidTarget target \<longleftrightarrow> (\<exists>b. length b = 4 \<and> target = String4 b)"
proof
  assume "isValidTarget target"
  then obtain ip where "ParseIP target = Some ip" using assms by (auto simp: isValidTarget_def)
  then show "\<exists>b. length b = 4 \<and> target = String4 b"
    using ParseIP_dotted_canonical ipv4RE_addrKind [OF assms] by metis
next
  assume "\<exists>b. length b = 4 \<and> target = String4 b"
  then show "isValidTarget target" using assms by (auto simp: isValidTarget_def ParseIP_String4)
qed

lemma isValidTarget_dotted_quad_example:
  "MatchAnchored ipv4RE ''999.1.1.1'' \<and> (\<nexists>b. length b = 4 \<and> ''999.1.1.1'' = String4 b)"
proof -
  have m: "MatchAnchored ipv4RE ''999.1.1.1''" and n: "\<not> isValidTarget ''999.1.1.1''" by code_simp+
  from isValidTarget_dotted_quad [OF m] n m show ?thesis by blast
qed

text \<open>The first index without a hostname label.\<close>

definition firstGap :: "(string, string) gomap \<Rightarrow> nat" where
  "firstGap labels = (LEAST i. map_of labels (indexedKey ''hostname'' i) = None)"

definition opt_list :: "'a option \<Rightarrow> 'a list" where
  "opt_list x = (case x of None \<Rightarrow> [] | Some y \<Rightarrow> [y])"

lemma gap_exists: "\<exists>i. map_of labels (indexedKey ''hostname'' i) = None"
proof (rule ccontr)
  assume "\<nexists>i. map_of labels (indexedKey ''hostname'' i) = None"
  then have "{j. indexedKey ''hostname'' j \<in> fst ` set labels} = UNIV"
    by (auto simp: map_of_eq_None_iff)
  with finite_indexed [of "''hostname''" labels] show False by simp
qed

lemma indexedLoop_unfold:
  "indexedLoop cid labels i = (if map_of labels (indexedKey ''hostname'' i) = None then ([], []) else
     (fst (parseIndexed cid labels i (labelGet labels (indexedKey ''hostname'' i))) @ fst (indexedLoop cid labels (Suc i)),
      opt_list (snd (parseIndexed cid labels i (labelGet labels (indexedKey ''hostname'' i))))
        @ snd (indexedLoop cid labels (Suc i))))"
  by (subst indexedLoop.simps) (auto simp: labelGet_def opt_list_def split: option.splits prod.splits)

lemma indexedLoop_upto:
  assumes "\<And>j. i \<le> j \<Longrightarrow> j < n \<Longrightarrow> map_of labels (indexedKey ''hostname'' j) \<noteq> None"
    and "map_of labels (indexedKey ''hostname'' n) = None" and "i \<le> n"
  shows "snd (indexedLoop cid labels i) =
    concat (map (\<lambda>j. opt_list (snd (parseIndexed cid labels j (labelGet labels (indexedKey ''hostname'' j))))) [i..<n])"
  using assms
proof (induction "n - i" arbitrary: i)
  case 0
  then show ?case by (simp add: indexedLoop_unfold)
next
  case (Suc k)
  then have "snd (indexedLoop cid labels (Suc i)) =
      concat (map (\<lambda>j. opt_list (snd (parseIndexed cid labels j (labelGet labels (indexedKey ''hostname'' j))))) [Suc i..<n])"
    by (intro Suc.hyps(1)) auto
  moreover have "i < n" using Suc.hyps(2) by simp
  moreover have "map_of labels (indexedKey ''hostname'' i) \<noteq> None"
    using Suc.prems(1) \<open>i < n\<close> by blast
  ultimately show ?case
    by (subst indexedLoop_unfold) (auto simp: upt_conv_Cons)
qed

text \<open>
  C19. The indexed labels of a container are read in order up to the first missing \<open>hostname-i\<close>, and
  the loop terminates on every label map: the endpoints of a container are the one of the plain
  labels, if it parses, followed by those of the indices below the first gap that parse.
\<close>

theorem endpointsFromLabels_indexed:
  "snd (endpointsFromLabels cid labels) =
     (case map_of labels labelHostname of
        None \<Rightarrow> []
      | Some h \<Rightarrow> opt_list (snd (parseSingle cid h (labelGet labels labelTarget)
                   (labelGet labels labelTTL) (labelGet labels labelRecordType))))
     @ concat (map (\<lambda>i. opt_list (snd (parseIndexed cid labels i (labelGet labels (indexedKey ''hostname'' i)))))
         [0..<firstGap labels])
   \<and> map_of labels (indexedKey ''hostname'' (firstGap labels)) = None"
proof -
  have gap: "map_of labels (indexedKey ''hostname'' (firstGap labels)) = None"
    unfolding firstGap_def by (rule LeastI_ex [OF gap_exists])
  moreover have "map_of labels (indexedKey ''hostname'' j) \<noteq> None" if "j < firstGap labels" for j
    using that not_less_Least unfolding firstGap_def by blast
  ultimately have loop: "snd (indexedLoop cid labels 0) =
      concat (map (\<lambda>i. opt_list (snd (parseIndexed cid labels i (labelGet labels (indexedKey ''hostname'' i)))))
        [0..<firstGap labels])"
    by (intro indexedLoop_upto) auto
  show ?thesis
    using gap unfolding loop [symmetric] endpointsFromLabels_def Let_def
    by (auto simp: opt_list_def split: option.splits prod.splits)
qed


definition num_char :: "char \<Rightarrow> bool" where
  "num_char c \<longleftrightarrow> is_digit c \<or> c = CHR ''-''"

lemma num_not_space: "num_char c \<Longrightarrow> w \<in> set space_runes \<Longrightarrow> c \<noteq> hd w \<and> c \<noteq> last w"
proof -
  have "list_all (\<lambda>w. \<not> num_char (hd w) \<and> \<not> num_char (last w)) space_runes" by code_simp
  then show "num_char c \<Longrightarrow> w \<in> set space_runes \<Longrightarrow> c \<noteq> hd w \<and> c \<noteq> last w"
    by (auto simp: list_all_iff)
qed

lemma no_space_ends:
  assumes "s \<noteq> []" and "num_char (hd s)" and "num_char (last s)"
  shows "TrimSpace s = s"
proof -
  have "\<not> HasPrefix s w \<and> \<not> HasSuffix s w" if w: "w \<in> set space_runes" for w
  proof -
    have "w \<noteq> []" using w by (auto simp: space_runes_def)
    then show ?thesis
      using num_not_space [OF assms(2) w] num_not_space [OF assms(3) w]
      by (metis HasPrefix_iff HasSuffix_iff hd_append2 last_appendR)
  qed
  then have "find (HasPrefix s) space_runes = None" "find (HasSuffix s) space_runes = None"
    by (auto simp: find_None_iff)
  then show ?thesis
    by (simp add: TrimSpace_def TrimLeftSpace_id TrimRightSpace_id leading_space_def trailing_space_def)
qed

lemma TrimSpace_showNat: "TrimSpace (showNat n) = showNat n"
  "TrimSpace (CHR ''-'' # showNat n) = CHR ''-'' # showNat n"
  using showNat_digits [of "hd (showNat n)" n] showNat_digits [of "last (showNat n)" n]
  by (auto intro!: no_space_ends simp: num_char_def)

text \<open>
  The TTL label: the decimal text of any \<open>0 \<le> n < 2^63\<close> gives an endpoint with TTL \<open>n\<close>, except
  that 0 becomes the default of 300 seconds; a negative number skips the record with a warning.
\<close>

lemma parseSingle_ttl:
  assumes "TrimSpace h \<noteq> []" and "isValidHostname (TrimSpace h)"
    and "TrimSpace t \<noteq> []" and "isValidTarget (TrimSpace t)" and "n < 2 ^ 63"
  shows "parseSingle cid h t (showNat n) rt =
       ([], Some (endpoint_New (TrimSpace h) [TrimSpace t]
          (if TrimSpace rt = [] then InferRecordType (TrimSpace t) else TrimSpace rt)
          (if n = 0 then 300 else int n) None))
    \<and> (0 < n \<longrightarrow>
        parseSingle cid h t (''-'' @ showNat n) rt =
          ([InvalidTTL cid (TrimSpace h) (''-'' @ showNat n)], None))"
proof -
  have pos: "ParseInt (showNat n) = Inr (int n)"
    using ParseInt_itoa [of "int n"] assms(5) by (simp add: itoa_def in_int64_def)
  have neg: "ParseInt (''-'' @ showNat n) = Inr (- int n)" if "0 < n"
    using ParseInt_itoa [of "- int n"] assms(5) that by (simp add: itoa_def in_int64_def)
  show ?thesis
    using assms(1-4) pos neg by (auto simp: parseSingle_def Let_def TrimSpace_showNat endpoint_New_def)
qed

lemma parseSingle_ttl_example:
  "parseSingle ''c'' ''a.example.com'' ''10.0.0.1'' ''60'' [] =
     ([], Some (endpoint_New ''a.example.com'' [''10.0.0.1''] ''A'' 60 None))"
proof -
  have t: "TrimSpace ''a.example.com'' = ''a.example.com''" "TrimSpace ''10.0.0.1'' = ''10.0.0.1''"
      "TrimSpace [] = []" "showNat 60 = ''60''"
    by code_simp+
  have v: "isValidHostname ''a.example.com''" "isValidTarget ''10.0.0.1''" "InferRecordType ''10.0.0.1'' = ''A''"
    by code_simp+
  show ?thesis
    using parseSingle_ttl [of "''a.example.com''" "''10.0.0.1''" 60 "''c''" "[]"] by (simp add: t v)
qed


section \<open>Event notification\<close>

text \<open>The messages the \<open>select\<close> receives before the connection ends.\<close>

fun received :: "select_event list \<Rightarrow> nat" where
  "received (SelMsg # es) = Suc (received es)"
| "received _ = 0"

fun stream_end :: "select_event list \<Rightarrow> loop_exit" where
  "stream_end [] = Waiting"
| "stream_end (SelMsg # es) = stream_end es"
| "stream_end (SelDone # es) = CtxDone"
| "stream_end (SelErr e # es) = StreamEnded"

definition rounds :: "nat \<Rightarrow> 'h list \<Rightarrow> 'h list" where
  "rounds n hs = concat (replicate n hs)"

lemma rounds_Suc: "hs @ rounds n hs = rounds (Suc n) hs"
  by (simp add: rounds_def)

lemma rounds_add: "rounds m hs @ rounds n hs = rounds (m + n) hs"
  by (simp add: rounds_def replicate_add)

lemma runEventLoop_counts:
  "fst (runEventLoop hs es l) = stream_end es
   \<and> calls (snd (runEventLoop hs es l)) = calls l @ rounds (received es) hs
   \<and> dockerEventsTotal (snd (runEventLoop hs es l)) = dockerEventsTotal l + received es
   \<and> reconnects (snd (runEventLoop hs es l)) = reconnects l"
proof (induction hs es l rule: runEventLoop.induct)
  case (5 hs es l)
  then show ?case by (simp add: notify_def rounds_Suc)
qed (simp_all add: rounds_def)

lemma Watch_counts:
  assumes "\<forall>c \<in> set cs. stream_end (fst c) \<noteq> Waiting \<and> \<not> snd c"
  shows "Watch hs cs l = (let l' = snd (Watch hs cs l) in (False, l'))
    \<and> Watch hs (cs @ rest) l = Watch hs rest (snd (Watch hs cs l))
    \<and> calls (snd (Watch hs cs l)) = calls l @ rounds (sum_list (map (received \<circ> fst) cs)) hs
    \<and> dockerEventsTotal (snd (Watch hs cs l)) = dockerEventsTotal l + sum_list (map (received \<circ> fst) cs)
    \<and> reconnects (snd (Watch hs cs l)) = reconnects l + length cs"
  using assms
proof (induction cs arbitrary: l)
  case Nil
  then show ?case by (simp add: rounds_def)
next
  case (Cons c cs)
  obtain es x l' where c: "c = (es, False)" and r: "runEventLoop hs es l = (x, l')" "x \<noteq> Waiting"
    using Cons.prems runEventLoop_counts [of hs "fst c" l]
    by (metis list.set_intros(1) prod.collapse)
  moreover have "\<forall>c \<in> set cs. stream_end (fst c) \<noteq> Waiting \<and> \<not> snd c" using Cons.prems by simp
  ultimately show ?case
    using Cons.IH [of "l'\<lparr>reconnects := Suc (reconnects l')\<rparr>"] runEventLoop_counts [of hs es l]
    by (cases x) (simp_all add: rounds_add [symmetric] Let_def)
qed

text \<open>
  C34. \<open>Watch\<close> never gives up on its own: after any number of connections that ended, with an error
  or with nil, while the context stayed alive, it is still running, has reconnected once per
  connection, and every message received over all of them has called every registered handler
  exactly once, in registration order, and was counted once.  It returns when the \<open>select\<close> after a
  connection sees the context done, whatever would follow.
\<close>

theorem Watch_reconnects_and_notifies:
  assumes "\<forall>c \<in> set cs. stream_end (fst c) \<noteq> Waiting \<and> \<not> snd c"
    and "stream_end es \<noteq> Waiting"
  shows "fst (Watch hs cs l) = False
    \<and> reconnects (snd (Watch hs cs l)) = reconnects l + length cs
    \<and> calls (snd (Watch hs cs l)) = calls l @ rounds (sum_list (map (received \<circ> fst) cs)) hs
    \<and> dockerEventsTotal (snd (Watch hs cs l)) = dockerEventsTotal l + sum_list (map (received \<circ> fst) cs)
    \<and> Watch hs (cs @ (es, True) # rest) l = (True, snd (runEventLoop hs es (snd (Watch hs cs l))))"
proof -
  let ?l = "snd (Watch hs cs l)"
  have "Watch hs ((es, True) # rest) ?l = (True, snd (runEventLoop hs es ?l))"
    using runEventLoop_counts [of hs es ?l] assms(2)
    by (cases "runEventLoop hs es ?l"; cases "fst (runEventLoop hs es ?l)") auto
  then show ?thesis
    using Watch_counts [OF assms(1), of hs l] by (metis fst_conv)
qed

theorem Watch_reconnects_and_notifies_witness:
  "Watch [''a'', ''b''] [([SelMsg, SelMsg, SelErr (Some (Errorf ''eof''))], False), ([SelMsg, SelDone], True)]
     \<lparr>calls = [], dockerEventsTotal = 0, streamWarnings = [], reconnects = 0\<rparr>
   = (True, \<lparr>calls = [''a'', ''b'', ''a'', ''b'', ''a'', ''b''], dockerEventsTotal = 3,
             streamWarnings = [Errorf ''eof''], reconnects = 1\<rparr>)"
  using Watch_reconnects_and_notifies
    [of "[([SelMsg, SelMsg, SelErr (Some (Errorf ''eof''))], False)]" "[SelMsg, SelDone]" "[''a'', ''b'']"
       "\<lparr>calls = [], dockerEventsTotal = 0, streamWarnings = [], reconnects = 0\<rparr>" "[]"]
  by (simp add: notify_def rounds_def)

end
