(* ===== verification/Controller.thy ===== *)
theory Controller
  imports FakeProvider FakeSource DockerSource
begin

text \<open>
  \<open>pkg/controller/controller.go\<close>, without the loop (theory \<open>ControllerLoop\<close>): the configuration and
  its defaults, the backoff computation with its 64-bit arithmetic, and one reconciliation cycle.

  The source and the provider are interface values: their method tables are arguments and their
  states fields of the controller.  The metrics are kept as counters and the log lines as values;
  the time a cycle took is observed but its value is not modelled.

  Shown here: the defaults, exact backoff and its overflow, what a cycle does on each branch, that a
  dry run never writes, and that over a provider that keeps its contract a second cycle finds
  nothing to do.
\<close>


section \<open>Configuration\<close>

record ctrl_config =
  Interval :: int
  DebounceDuration :: int
  BackoffBase :: int
  BackoffMax :: int
  DryRun :: bool
  Once :: bool
  OwnerID :: string

definition applyDefaults :: "ctrl_config \<Rightarrow> ctrl_config" where
  "applyDefaults c =
     (let c = (if Interval c \<le> 0 then c\<lparr>Interval := 60000000000\<rparr> else c);
          c = (if DebounceDuration c \<le> 0 then c\<lparr>DebounceDuration := 5000000000\<rparr> else c);
          c = (if BackoffBase c \<le> 0 then c\<lparr>BackoffBase := 5000000000\<rparr> else c);
          c = (if BackoffMax c \<le> 0 then c\<lparr>BackoffMax := 300000000000\<rparr> else c)
      in c)"

text \<open>\<open>time.Duration\<close> is an \<open>int64\<close>: the product wraps.\<close>

definition backoffDuration :: "ctrl_config \<Rightarrow> int \<Rightarrow> int" where
  "backoffDuration c consecutiveErrors =
     (let shift = consecutiveErrors - 1;
          shift = (if shift < 0 then 0 else shift);
          shift = (if shift > 20 then 20 else shift);
          d = wrap64 (BackoffBase c * 2 ^ nat shift)
      in if d > BackoffMax c then BackoffMax c else d)"


section \<open>The controller\<close>

record metrics =
  reconciliationsSuccess :: nat
  reconciliationsError :: nat
  durationObservations :: nat
  recordsManaged :: nat
  dnsOperationsTotal :: "string \<times> string \<Rightarrow> nat"

datatype log_line =
    NoChanges
  | PlannedChanges nat nat nat
  | DryRunSkip
  | WouldCreate string string "string list"
  | WouldUpdate string string "string list" "string list"
  | WouldDelete string string "string list"
  | ChangesApplied

record ('s, 'p) controller =
  ctlSource :: 's
  ctlProvider :: 'p
  ctlPlan :: plan
  ctlCfg :: ctrl_config
  ready :: bool
  mets :: metrics
  logs :: "log_line list"

definition metrics0 :: metrics where
  "metrics0 = \<lparr>reconciliationsSuccess = 0, reconciliationsError = 0, durationObservations = 0,
     recordsManaged = 0, dnsOperationsTotal = (\<lambda>_. 0)\<rparr>"

definition controller_New :: "'s \<Rightarrow> 'p \<Rightarrow> ctrl_config \<Rightarrow> ('s, 'p) controller" where
  "controller_New src prov c =
     (let c = applyDefaults c
      in \<lparr>ctlSource = src, ctlProvider = prov, ctlPlan = plan_New (OwnerID c), ctlCfg = c,
          ready = False, mets = metrics0, logs = []\<rparr>)"

definition IsReady :: "('s, 'p) controller \<Rightarrow> bool" where
  "IsReady c = ready c"

text \<open>The dry-run log: creations, updates that have a new record, deletions.\<close>

definition logChanges :: "changes \<Rightarrow> log_line list" where
  "logChanges ch =
     map (\<lambda>ep. WouldCreate (DNSName ep) (RecordType ep) (Targets ep)) (Create ch)
     @ concat (map (\<lambda>(i, old). if i < length (UpdateNew ch)
           then [WouldUpdate (DNSName old) (RecordType old) (Targets old) (Targets (UpdateNew ch ! i))] else [])
         (List.enumerate 0 (UpdateOld ch)))
     @ map (\<lambda>ep. WouldDelete (DNSName ep) (RecordType ep) (Targets ep)) (Delete ch)"

definition addLog :: "log_line list \<Rightarrow> ('s, 'p) controller \<Rightarrow> ('s, 'p) controller" where
  "addLog ls c = c\<lparr>logs := logs c @ ls\<rparr>"

definition countOps :: "string \<Rightarrow> changes \<Rightarrow> ('s, 'p) controller \<Rightarrow> ('s, 'p) controller" where
  "countOps res ch c =
     (let m = mets c; t = dnsOperationsTotal m;
          t = t((''create'', res) := t (''create'', res) + length (Create ch));
          t = t((''update'', res) := t (''update'', res) + length (UpdateNew ch));
          t = t((''delete'', res) := t (''delete'', res) + length (Delete ch))
      in c\<lparr>mets := m\<lparr>dnsOperationsTotal := t\<rparr>\<rparr>)"

text \<open>The deferred function: it runs on every return.\<close>

definition finishReconcile ::
  "goerror option \<times> ('s, 'p) controller \<Rightarrow> goerror option \<times> ('s, 'p) controller"
where
  "finishReconcile rc = (case rc of (retErr, c) \<Rightarrow>
     let m = (mets c)\<lparr>durationObservations := Suc (durationObservations (mets c))\<rparr> in
     (retErr,
      case retErr of
        None \<Rightarrow> c\<lparr>mets := m\<lparr>reconciliationsSuccess := Suc (reconciliationsSuccess m)\<rparr>, ready := True\<rparr>
      | Some e \<Rightarrow> c\<lparr>mets := m\<lparr>reconciliationsError := Suc (reconciliationsError m)\<rparr>\<rparr>))"

definition applyPlan ::
  "'p provider \<Rightarrow> changes \<Rightarrow> ('s, 'p) controller \<Rightarrow> goerror option \<times> ('s, 'p) controller"
where
  "applyPlan prov ch c =
     (if IsEmpty ch then (None, addLog [NoChanges] c)
      else
        (let c = addLog [PlannedChanges (length (Create ch)) (length (UpdateOld ch)) (length (Delete ch))] c in
         if DryRun (ctlCfg c) then (None, addLog (DryRunSkip # logChanges ch) c)
         else
           (case ApplyChanges prov (ctlProvider c) ch of
              (Some err, p') \<Rightarrow>
                (Some (Wrap ''apply changes'' err), countOps ''error'' ch (c\<lparr>ctlProvider := p'\<rparr>))
            | (None, p') \<Rightarrow>
                (None, addLog [ChangesApplied] (countOps ''success'' ch (c\<lparr>ctlProvider := p'\<rparr>))))))"

definition reconcileBody ::
  "('h, 's) source \<Rightarrow> 'p provider \<Rightarrow> (string, endpoint) range_order \<Rightarrow> (string, endpoint) range_order \<Rightarrow>
   ('s, 'p) controller \<Rightarrow> goerror option \<times> ('s, 'p) controller"
where
  "reconcileBody src prov rd rc c =
     (case Endpoints src (ctlSource c) of
        (Inl err, s') \<Rightarrow> (Some (Wrap ''fetch desired endpoints'' err), c\<lparr>ctlSource := s'\<rparr>)
      | (Inr desired, s') \<Rightarrow>
          (let c = c\<lparr>ctlSource := s'\<rparr> in
           case Records prov (ctlProvider c) of
             (Inl err, p') \<Rightarrow> (Some (Wrap ''fetch current records'' err), c\<lparr>ctlProvider := p'\<rparr>)
           | (Inr current, p') \<Rightarrow>
               (let c = c\<lparr>ctlProvider := p'\<rparr>;
                    ch = Calculate rd rc (ctlPlan c) desired current;
                    c = c\<lparr>mets := (mets c)\<lparr>recordsManaged := length desired\<rparr>\<rparr>
                in applyPlan prov ch c)))"

definition reconcile ::
  "('h, 's) source \<Rightarrow> 'p provider \<Rightarrow> (string, endpoint) range_order \<Rightarrow> (string, endpoint) range_order \<Rightarrow>
   ('s, 'p) controller \<Rightarrow> goerror option \<times> ('s, 'p) controller"
where
  "reconcile src prov rd rc c = finishReconcile (reconcileBody src prov rd rc c)"


section \<open>Defaults and backoff\<close>

definition valid_cfg :: "ctrl_config \<Rightarrow> bool" where
  "valid_cfg c \<longleftrightarrow> 0 < Interval c \<and> 0 < DebounceDuration c \<and> 0 < BackoffBase c \<and> 0 < BackoffMax c"

lemma applyDefaults_valid: "valid_cfg (applyDefaults c)"
  by (simp add: applyDefaults_def valid_cfg_def Let_def)

lemma applyDefaults_keeps [simp]:
  "DryRun (applyDefaults c) = DryRun c" "Once (applyDefaults c) = Once c" "OwnerID (applyDefaults c) = OwnerID c"
  by (simp_all add: applyDefaults_def Let_def)

lemma applyDefaults_id: "valid_cfg c \<Longrightarrow> applyDefaults c = c"
  by (simp add: applyDefaults_def valid_cfg_def)

lemma backoffDuration_eq:
  "backoffDuration c n = min (BackoffMax c) (wrap64 (BackoffBase c * 2 ^ min 20 (nat (n - 1))))"
proof -
  have "nat (if 20 < (if n - 1 < 0 then 0 else n - 1) then 20 else if n - 1 < 0 then 0 else n - 1) = min 20 (nat (n - 1))"
    by simp
  then show ?thesis by (simp add: backoffDuration_def Let_def min_def)
qed

text \<open>
  C32. The backoff after \<open>n\<close> consecutive failures: for a base below \<open>2^43\<close> nanoseconds (about two
  hours and a half) the product never overflows, and the delay is the base doubled \<open>n - 1\<close> times, at
  most 20, capped at the maximum.  It is positive, never above the maximum and never decreases
  from one failure to the next.
\<close>

theorem backoff_exact:
  assumes "valid_cfg c" and "BackoffBase c < 2 ^ 43" and "1 \<le> n"
  shows "backoffDuration c n = min (BackoffMax c) (BackoffBase c * 2 ^ min 20 (nat (n - 1)))
    \<and> 0 < backoffDuration c n \<and> backoffDuration c n \<le> BackoffMax c
    \<and> backoffDuration c n \<le> backoffDuration c (n + 1)"
proof -
  have pow: "(2 :: int) ^ min 20 k \<le> 2 ^ 20" for k by (intro power_increasing) auto
  have "in_int64 (BackoffBase c * 2 ^ min 20 k)" for k
  proof -
    have "BackoffBase c * 2 ^ min 20 k \<le> BackoffBase c * 2 ^ 20"
      using assms(1) pow by (intro mult_left_mono) (auto simp: valid_cfg_def)
    moreover have "0 \<le> BackoffBase c * 2 ^ min 20 k" using assms(1) by (simp add: valid_cfg_def)
    ultimately show ?thesis using assms(2) by (simp add: in_int64_def)
  qed
  then have exact: "backoffDuration c m = min (BackoffMax c) (BackoffBase c * 2 ^ min 20 (nat (m - 1)))" for m
    by (simp add: backoffDuration_eq)
  have "(2 :: int) ^ min 20 (nat (n - 1)) \<le> 2 ^ min 20 (nat n)" using assms(3) by (intro power_increasing) auto
  then have "BackoffBase c * 2 ^ min 20 (nat (n - 1)) \<le> BackoffBase c * 2 ^ min 20 (nat n)"
    using assms(1) by (intro mult_left_mono) (auto simp: valid_cfg_def)
  then have "backoffDuration c n \<le> backoffDuration c (n + 1)" unfolding exact by (simp add: min.coboundedI2)
  moreover have "0 < BackoffMax c" "0 < BackoffBase c * 2 ^ min 20 (nat (n - 1))"
    using assms(1) by (simp_all add: valid_cfg_def)
  ultimately show ?thesis by (simp add: exact)
qed

definition ex_ctl_cfg :: ctrl_config where
  "ex_ctl_cfg = applyDefaults \<lparr>Interval = 0, DebounceDuration = 0, BackoffBase = 0, BackoffMax = 0,
     DryRun = False, Once = False, OwnerID = []\<rparr>"

theorem backoff_exact_witness: "backoffDuration ex_ctl_cfg 3 = 20000000000 \<and> backoffDuration ex_ctl_cfg 3 \<le> backoffDuration ex_ctl_cfg 4"
  using backoff_exact [of ex_ctl_cfg 3] by (simp add: ex_ctl_cfg_def applyDefaults_def valid_cfg_def)

text \<open>
  C40. The cap on the shift does not prevent overflow, contrary to the comment on it: with a base of
  \<open>2^43\<close> nanoseconds, after 21 failures the product wraps to the smallest \<open>int64\<close>, which is not above
  the maximum, so the backoff is negative and the next cycle starts at once, whatever the maximum.
\<close>

theorem backoff_overflow:
  assumes "BackoffBase c = 2 ^ 43" and "0 < BackoffMax c" and "21 \<le> n"
  shows "backoffDuration c n = - (2 ^ 63)"
proof -
  have "min 20 (nat (n - 1)) = 20" using assms(3) by (simp add: min_def)
  moreover have "wrap64 (2 ^ 43 * 2 ^ 20) = - (2 ^ 63)" by (simp add: wrap64_def)
  ultimately show ?thesis using assms(1,2) by (simp add: backoffDuration_eq)
qed

theorem backoff_overflow_witness:
  "backoffDuration (ex_ctl_cfg\<lparr>BackoffBase := 2 ^ 43\<rparr>) 21 = - 9223372036854775808"
  using backoff_overflow [of "ex_ctl_cfg\<lparr>BackoffBase := 2 ^ 43\<rparr>" 21]
  by (simp add: ex_ctl_cfg_def applyDefaults_def)



section \<open>One cycle\<close>

lemma finishReconcile_sel [simp]:
  "fst (finishReconcile x) = fst x"
  "ctlProvider (snd (finishReconcile x)) = ctlProvider (snd x)"
  "ctlSource (snd (finishReconcile x)) = ctlSource (snd x)"
  "ctlPlan (snd (finishReconcile x)) = ctlPlan (snd x)"
  "ctlCfg (snd (finishReconcile x)) = ctlCfg (snd x)"
  "logs (snd (finishReconcile x)) = logs (snd x)"
  "ready (snd (finishReconcile x)) \<longleftrightarrow> ready (snd x) \<or> fst x = None"
  by (auto simp: finishReconcile_def Let_def split: prod.splits option.splits)

lemma small_sel [simp]:
  "ctlProvider (addLog ls c) = ctlProvider c" "ctlSource (addLog ls c) = ctlSource c"
  "ctlPlan (addLog ls c) = ctlPlan c" "ctlCfg (addLog ls c) = ctlCfg c" "ready (addLog ls c) = ready c"
  "mets (addLog ls c) = mets c" "logs (addLog ls c) = logs c @ ls"
  "ctlProvider (countOps r ch c) = ctlProvider c" "ctlSource (countOps r ch c) = ctlSource c"
  "ctlPlan (countOps r ch c) = ctlPlan c" "ctlCfg (countOps r ch c) = ctlCfg c" "ready (countOps r ch c) = ready c"
  "logs (countOps r ch c) = logs c"
  by (simp_all add: addLog_def countOps_def Let_def)

lemma applyPlan_keeps:
  "ctlSource (snd (applyPlan prov ch c)) = ctlSource c" "ctlPlan (snd (applyPlan prov ch c)) = ctlPlan c"
  "ctlCfg (snd (applyPlan prov ch c)) = ctlCfg c" "ready (snd (applyPlan prov ch c)) = ready c"
  by (auto simp: applyPlan_def Let_def split: prod.splits option.splits)

lemma reconcile_keeps [simp]:
  "ctlPlan (snd (reconcile src prov rd rc c)) = ctlPlan c"
  "ctlCfg (snd (reconcile src prov rd rc c)) = ctlCfg c"
  by (auto simp: reconcile_def reconcileBody_def Let_def applyPlan_keeps split: prod.splits sum.splits)

text \<open>A cycle whose two reads succeed, as one application of the plan.\<close>

lemma reconcile_reads:
  assumes "Endpoints src (ctlSource c) = (Inr desired, s')" and "Records prov (ctlProvider c) = (Inr current, p')"
  shows "reconcile src prov rd rc c = finishReconcile (applyPlan prov (Calculate rd rc (ctlPlan c) desired current)
    (c\<lparr>ctlSource := s', ctlProvider := p', mets := (mets c)\<lparr>recordsManaged := length desired\<rparr>\<rparr>))"
  using assms by (simp add: reconcile_def reconcileBody_def Let_def)

text \<open>
  C30. A dry run never writes: with \<open>DryRun\<close> set, a cycle behaves the same for every implementation of
  \<open>ApplyChanges\<close>, it leaves the provider as \<open>Records\<close> left it, and it fails only when a read fails.
\<close>

theorem dry_run_never_applies:
  assumes "DryRun (ctlCfg c)"
  shows "reconcile src (prov\<lparr>ApplyChanges := anything\<rparr>) rd rc c = reconcile src prov rd rc c
    \<and> ctlProvider (snd (reconcile src prov rd rc c)) \<in>
        {ctlProvider c, snd (Records prov (ctlProvider c))}
    \<and> (is_err (fst (Endpoints src (ctlSource c))) \<or> is_err (fst (Records prov (ctlProvider c)))
        \<longleftrightarrow> fst (reconcile src prov rd rc c) \<noteq> None)"
proof -
  have "applyPlan (prov\<lparr>ApplyChanges := anything\<rparr>) ch d = applyPlan prov ch d
      \<and> ctlProvider (snd (applyPlan prov ch d)) = ctlProvider d \<and> fst (applyPlan prov ch d) = None"
    if "DryRun (ctlCfg d)" for ch and d :: "('a, 'b) controller"
    using that by (simp add: applyPlan_def Let_def)
  then show ?thesis
    using assms by (auto simp: reconcile_def reconcileBody_def Let_def split: prod.splits sum.splits)
qed

lemma reconcile_ready:
  "ready (snd (reconcile src prov rd rc c)) \<longleftrightarrow> ready c \<or> fst (reconcile src prov rd rc c) = None"
  by (simp add: reconcile_def reconcileBody_def Let_def applyPlan_keeps split: prod.splits sum.splits)

text \<open>
  Readiness and accounting: a cycle makes the controller ready exactly when it succeeds, and never
  un-readies it; exactly one of the success and error counters grows, by one, and the duration is
  observed once, on every path out of the cycle.
\<close>

lemma reconcile_accounting:
  "let (err, c') = reconcile src prov rd rc c in
     (IsReady c' \<longleftrightarrow> IsReady c \<or> err = None)
   \<and> reconciliationsSuccess (mets c') = reconciliationsSuccess (mets c) + (if err = None then 1 else 0)
   \<and> reconciliationsError (mets c') = reconciliationsError (mets c) + (if err = None then 0 else 1)
   \<and> durationObservations (mets c') = Suc (durationObservations (mets c))"
proof -
  have keep: "ready (snd (reconcileBody src prov rd rc c)) = ready c
      \<and> reconciliationsSuccess (mets (snd (reconcileBody src prov rd rc c))) = reconciliationsSuccess (mets c)
      \<and> reconciliationsError (mets (snd (reconcileBody src prov rd rc c))) = reconciliationsError (mets c)
      \<and> durationObservations (mets (snd (reconcileBody src prov rd rc c))) = durationObservations (mets c)"
    by (auto simp: reconcileBody_def applyPlan_def Let_def countOps_def split: prod.splits sum.splits option.splits)
  then show ?thesis
    by (auto simp: reconcile_def IsReady_def finishReconcile_def Let_def split: prod.splits option.splits)
qed

text \<open>
  Errors of a cycle: it fails exactly when the source, the zone read or the write fails, with that
  error wrapped.  When the source fails the provider is not contacted, and when the zone cannot be
  read nothing is written.
\<close>

lemma reconcile_error_paths:
  "(fst (reconcile src prov rd rc c), ctlProvider (snd (reconcile src prov rd rc c))) =
     (case fst (Endpoints src (ctlSource c)) of
        Inl e \<Rightarrow> (Some (Wrap ''fetch desired endpoints'' e), ctlProvider c)
      | Inr desired \<Rightarrow>
          (case Records prov (ctlProvider c) of
             (Inl e, p') \<Rightarrow> (Some (Wrap ''fetch current records'' e), p')
           | (Inr current, p') \<Rightarrow>
               (let ch = Calculate rd rc (ctlPlan c) desired current in
                if IsEmpty ch \<or> DryRun (ctlCfg c) then (None, p')
                else (map_option (Wrap ''apply changes'') (fst (ApplyChanges prov p' ch)), snd (ApplyChanges prov p' ch)))))"
  by (auto simp: reconcile_def reconcileBody_def applyPlan_def Let_def split: prod.splits sum.splits option.splits)


section \<open>Convergence over any provider that keeps its contract\<close>

context zone_provider
begin

text \<open>A second cycle with the same desired endpoints writes nothing.\<close>

lemma reconcile_settles:
  assumes inv: "invar (ctlProvider c)" and src: "Endpoints src (ctlSource c) = (Inr desired, ctlSource c)"
    and cur: "Records prov (ctlProvider c) = (Inr cur, p1)" and tidy: "tidy desired cur"
    and r: "range_ok rd" "range_ok rc" "range_ok rd'" "range_ok rc'"
    and acc: "accepts (ctlProvider c) (Calculate rd rc (ctlPlan c) desired cur)" and dry: "\<not> DryRun (ctlCfg c)"
  defines "c1 \<equiv> snd (reconcile src prov rd rc c)"
  shows "fst (reconcile src prov rd rc c) = None \<and> invar (ctlProvider c1)
    \<and> fst (reconcile src prov rd' rc' c1) = None
    \<and> ctlProvider (snd (reconcile src prov rd' rc' c1)) = ctlProvider c1
    \<and> last (logs (snd (reconcile src prov rd' rc' c1))) = NoChanges
    \<and> (\<exists>cur'. fst (Records prov (ctlProvider c1)) = Inr cur' \<and> converged (ctlPlan c) desired cur'
        \<and> (unclaimed (ctlPlan c) desired cur \<longrightarrow> published (ctlPlan c) desired cur'))"
proof -
  let ?ch = "Calculate rd rc (ctlPlan c) desired cur"
  have p1: "p1 = ctlProvider c" using records_law [OF inv] cur by auto
  obtain p2 cur2 where p2: "ApplyChanges prov p1 ?ch = (None, p2)" "invar p2"
      "Records prov p2 = (Inr cur2, p2)" "converged (ctlPlan c) desired cur2"
      "unclaimed (ctlPlan c) desired cur \<longrightarrow> published (ctlPlan c) desired cur2"
    using round_settles [OF inv cur tidy r(1,2) acc] by blast
  note first = reconcile_reads [OF src cur, of rd rc]
  obtain q curq where q: "fst (reconcile src prov rd rc c) = None" "ctlProvider c1 = q" "ctlSource c1 = ctlSource c"
      "invar q" "Records prov q = (Inr curq, q)" "converged (ctlPlan c) desired curq"
      "unclaimed (ctlPlan c) desired cur \<longrightarrow> published (ctlPlan c) desired curq"
  proof (cases "IsEmpty ?ch")
    case True
    then have "converged (ctlPlan c) desired cur" using converged_iff_empty [OF r(1,2)] by metis
    moreover have "fst (reconcile src prov rd rc c) = None" "ctlProvider c1 = p1" "ctlSource c1 = ctlSource c"
      using first True by (simp_all add: c1_def applyPlan_def)
    moreover have "unclaimed (ctlPlan c) desired cur \<longrightarrow> published (ctlPlan c) desired cur"
      using empty_round_publishes [OF inv cur tidy r(1,2) True] by blast
    ultimately show thesis using that [of p1 cur] inv cur p1 by simp
  next
    case False
    then have "fst (reconcile src prov rd rc c) = None" "ctlProvider c1 = p2" "ctlSource c1 = ctlSource c"
      using first dry p2(1) by (simp_all add: c1_def applyPlan_def Let_def)
    then show thesis using that p2 by blast
  qed
  have "IsEmpty (Calculate rd' rc' (ctlPlan c1) desired curq)"
    using q(6) converged_iff_empty [OF r(3,4)] by (simp add: c1_def)
  moreover have "Endpoints src (ctlSource c1) = (Inr desired, ctlSource c)"
    "Records prov (ctlProvider c1) = (Inr curq, q)" using src q by simp_all
  note reconcile_reads [OF this, of rd' rc']
  ultimately show ?thesis using q by (simp add: applyPlan_def)
qed

end

text \<open>
  C7. Convergence of the daemon on the in-memory provider: from any store, when no name is used with two
  record types, one cycle succeeds and the next one, with the same desired endpoints and any map
  iteration orders, also succeeds, leaves the store as it is (its history included) and logs that
  there is nothing to do.
\<close>

theorem reconcile_converges:
  assumes "fake_invar (ctlProvider c)" and "range_ok rng"
    and "range_ok rd" "range_ok rc" "range_ok rd'" "range_ok rc'"
    and "tidy (fsEndpoints (ctlSource c)) (map snd (rng (fpRecords (ctlProvider c))))" and "\<not> DryRun (ctlCfg c)"
  shows "let (err1, c1) = reconcile fakesrc_methods (fake_methods rng) rd rc c;
             (err2, c2) = reconcile fakesrc_methods (fake_methods rng) rd' rc' c1
         in err1 = None \<and> err2 = None \<and> fake_invar (ctlProvider c1)
          \<and> ctlProvider c2 = ctlProvider c1 \<and> last (logs c2) = NoChanges"
proof -
  have "Endpoints fakesrc_methods (ctlSource c) = (Inr (fsEndpoints (ctlSource c)), ctlSource c)"
    "Records (fake_methods rng) (ctlProvider c) = (Inr (map snd (rng (fpRecords (ctlProvider c)))), ctlProvider c)"
    by (simp_all add: fakesrc_defs fake_methods_def fake_Records_def)
  from zone_provider.reconcile_settles [OF fake_is_zone_provider [OF assms(2)] assms(1) this assms(7,3-6) _ assms(8)]
  show ?thesis by (auto simp: Let_def split: prod.splits)
qed

theorem reconcile_converges_witness:
  "let c = controller_New (fakesrc_New ex_desired :: unit fake_source) (fake_New ex_current) ex_ctl_cfg;
       (err1, c1) = reconcile fakesrc_methods (fake_methods rev) (\<lambda>m. m) rev c;
       (err2, c2) = reconcile fakesrc_methods (fake_methods rev) rev (\<lambda>m. m) c1
   in err1 = None \<and> err2 = None \<and> ctlProvider c2 = ctlProvider c1 \<and> last (logs c2) = NoChanges"
proof -
  let ?c = "controller_New (fakesrc_New ex_desired :: unit fake_source) (fake_New ex_current) ex_ctl_cfg"
  have sel: "fsEndpoints (ctlSource ?c) = ex_desired" "ctlProvider ?c = fake_New ex_current" "\<not> DryRun (ctlCfg ?c)"
    by (simp_all add: controller_New_def fakesrc_New_def ex_ctl_cfg_def applyDefaults_def)
  have list: "map snd (rev (fpRecords (fake_New ex_current))) = rev ex_current"
    by (simp add: fake_New_def ex_defs epKey_def ownershipTXTFor_def ownershipName_def ownerPrefix_def)
  have "tidy ex_desired (rev ex_current)"
    by (simp add: tidy_def plain_types_def ex_defs isOwnershipTXT_def filterOwnershipTXTs_def ownershipTXTFor_def
        ownershipName_def HasPrefix_def ownerPrefix_def)
  then have "let (err1, c1) = reconcile fakesrc_methods (fake_methods rev) (\<lambda>m. m) rev ?c;
             (err2, c2) = reconcile fakesrc_methods (fake_methods rev) rev (\<lambda>m. m) c1
         in err1 = None \<and> err2 = None \<and> fake_invar (ctlProvider c1)
          \<and> ctlProvider c2 = ctlProvider c1 \<and> last (logs c2) = NoChanges"
    using sel list fake_New_invar range_ok_rev range_ok_id
    by (intro reconcile_converges) simp_all
  then show ?thesis unfolding Let_def by (auto split: prod.splits)
qed

theorem dry_run_never_applies_witness:
  "let c = controller_New (fakesrc_New ex_desired :: unit fake_source) (fake_New ex_current) (ex_ctl_cfg\<lparr>DryRun := True\<rparr>)
   in reconcile fakesrc_methods ((fake_methods rev)\<lparr>ApplyChanges := (\<lambda>p _. (Some (Errorf ''broken''), p))\<rparr>) (\<lambda>m. m) rev c
      = reconcile fakesrc_methods (fake_methods rev) (\<lambda>m. m) rev c"
proof -
  let ?c = "controller_New (fakesrc_New ex_desired :: unit fake_source) (fake_New ex_current) (ex_ctl_cfg\<lparr>DryRun := True\<rparr>)"
  have "DryRun (ctlCfg ?c)" by (simp add: controller_New_def ex_ctl_cfg_def applyDefaults_def)
  from dry_run_never_applies [OF this] show ?thesis unfolding Let_def by blast
qed

end
