(* ===== verification/Rfc2136Server.thy ===== *)
theory Rfc2136Server
  imports Rfc2136 Controller
begin

text \<open>
  The RFC 2136 provider against a DNS server.  The server is outside the repository: what is assumed of
  it is the predicate \<open>server_law\<close>, which says what the server's answers mean, and where a theorem needs
  answers at all the predicate \<open>available\<close>.  A complete zone transfer lists the zone and changes nothing.  An UPDATE
  message that is answered with NOERROR has been carried out, one with another code has not (RFC 2136 3.8), and one
  without an answer has been carried out or not.  Carrying out is \<open>serve\<close>: removing a record deletes the record with
  that name, type and data whatever its TTL (RFC 2136 2.5.4); inserting one adds it, or replaces the one
  with the same data, or the CNAME of that name (2.5.1, 3.4.2.2).

  This is assumed only of plain messages (\<open>acceptable\<close>, \<open>sendable\<close>): records of the four types of the program, inside the
  zone, with names in lower case and without escapes, within the size limits of the DNS, that put neither a CNAME beside
  another record nor a second record into the set of a name and type.  What servers do beyond that, such as
  comparing names without case, ignoring insertions or levelling TTLs, is not used.  Records of other types, which
  a server may maintain itself, are not mentioned by the law.

  Shown here: over such a server the provider implements the contract \<open>zone_provider\<close>, so that a cycle
  of the controller settles the zone.  A zone is related to its abstract map by \<open>absz\<close>; the message is
  followed call by call.
\<close>


section \<open>What a server does with a message\<close>

fun sameRR :: "RR \<Rightarrow> RR \<Rightarrow> bool" where
  "sameRR (RR_A h a) (RR_A h' b) \<longleftrightarrow> hdrName h = hdrName h' \<and> a = b"
| "sameRR (RR_AAAA h a) (RR_AAAA h' b) \<longleftrightarrow> hdrName h = hdrName h' \<and> a = b"
| "sameRR (RR_CNAME h a) (RR_CNAME h' b) \<longleftrightarrow> hdrName h = hdrName h' \<and> a = b"
| "sameRR (RR_TXT h a) (RR_TXT h' b) \<longleftrightarrow> hdrName h = hdrName h' \<and> a = b"
| "sameRR _ _ \<longleftrightarrow> False"

fun is_CNAME :: "RR \<Rightarrow> bool" where
  "is_CNAME (RR_CNAME h t) = True"
| "is_CNAME _ = False"

abbreviation rrName :: "RR \<Rightarrow> string" where
  "rrName r \<equiv> hdrName (Header r)"

definition removeRR :: "RR \<Rightarrow> RR set \<Rightarrow> RR set" where
  "removeRR x z = {r \<in> z. \<not> sameRR x r}"

definition replacedBy :: "RR \<Rightarrow> RR \<Rightarrow> bool" where
  "replacedBy x r \<longleftrightarrow> sameRR x r \<or> is_CNAME x \<and> is_CNAME r \<and> rrName x = rrName r"

definition insertRR :: "RR \<Rightarrow> RR set \<Rightarrow> RR set" where
  "insertRR x z = insert x {r \<in> z. \<not> replacedBy x r}"

fun serve :: "msg \<Rightarrow> RR set \<Rightarrow> RR set" where
  "serve [] z = z"
| "serve (RemoveRRs rrs # m) z = serve m (fold removeRR rrs z)"
| "serve (InsertRRs rrs # m) z = serve m (fold insertRR rrs z)"
| "serve (_ # m) z = serve m z"

definition removedRRs :: "msg \<Rightarrow> RR list" where
  "removedRRs m = concat (map (\<lambda>c. case c of RemoveRRs rrs \<Rightarrow> rrs | _ \<Rightarrow> []) m)"

definition insertedRRs :: "msg \<Rightarrow> RR list" where
  "insertedRRs m = concat (map (\<lambda>c. case c of InsertRRs rrs \<Rightarrow> rrs | _ \<Rightarrow> []) m)"

definition inZone :: "string \<Rightarrow> string \<Rightarrow> bool" where
  "inZone zn name \<longleftrightarrow> name = zn \<or> HasSuffix name (''.'' @ zn)"

text \<open>Two records of one name and type, and a record written in lower case.\<close>

fun sameSet :: "RR \<Rightarrow> RR \<Rightarrow> bool" where
  "sameSet (RR_A h a) (RR_A h' b) \<longleftrightarrow> hdrName h = hdrName h'"
| "sameSet (RR_AAAA h a) (RR_AAAA h' b) \<longleftrightarrow> hdrName h = hdrName h'"
| "sameSet (RR_CNAME h a) (RR_CNAME h' b) \<longleftrightarrow> hdrName h = hdrName h'"
| "sameSet (RR_TXT h a) (RR_TXT h' b) \<longleftrightarrow> hdrName h = hdrName h'"
| "sameSet _ _ \<longleftrightarrow> False"

fun lowerRR :: "RR \<Rightarrow> bool" where
  "lowerRR (RR_CNAME h t) \<longleftrightarrow> ToLower (hdrName h) = hdrName h \<and> ToLower t = t"
| "lowerRR r \<longleftrightarrow> ToLower (rrName r) = rrName r"

text \<open>The records that the program can read.\<close>

definition readable :: "RR set \<Rightarrow> RR set" where
  "readable z = {r \<in> z. rrToEndpoint r \<noteq> None}"

text \<open>The messages the assumption is about, for a zone \<open>zn\<close> with records \<open>z\<close>.\<close>

definition acceptable :: "string \<Rightarrow> RR set \<Rightarrow> msg \<Rightarrow> bool" where
  "acceptable zn z m \<longleftrightarrow>
     (\<exists>us. m = SetUpdate zn # us \<and> (\<forall>u \<in> set us. \<exists>rrs. u = RemoveRRs rrs \<or> u = InsertRRs rrs))
   \<and> (\<forall>r \<in> set (removedRRs m @ insertedRRs m). rrToEndpoint r \<noteq> None \<and> inZone zn (rrName r))
   \<and> (\<forall>r \<in> z \<union> set (removedRRs m @ insertedRRs m). lowerRR r)
   \<and> (\<forall>a \<in> z \<union> set (insertedRRs m). \<forall>b \<in> z \<union> set (insertedRRs m).
        rrName a = rrName b \<and> is_CNAME a \<longrightarrow> is_CNAME b)
   \<and> (\<forall>x \<in> set (insertedRRs m). \<forall>r \<in> set (insertedRRs m). sameSet x r \<longrightarrow> sameRR x r)
   \<and> (\<forall>x \<in> set (insertedRRs m). \<forall>r \<in> z. sameSet x r \<longrightarrow> sameRR x r \<or> (\<exists>y \<in> set (removedRRs m). sameRR y r))"

text \<open>
  Messages with a plain form on the wire (RFC 1035 2.3.4, 3.3.14, 4.2.2): names of labels of at most 63 octets
  and of at most 255 octets in all, strings of at most 255 octets, neither with characters that need an escape, TTLs
  below \<open>2 ^ 31\<close> (RFC 2181 8), and at most 65535 octets in all, of which 1024 are left for a signature.  Sizes are
  counted without name compression.
\<close>

definition plain_octet :: "char \<Rightarrow> bool" where
  "plain_octet c \<longleftrightarrow> 33 \<le> (of_char c :: nat) \<and> (of_char c :: nat) \<le> 126 \<and> c \<notin> set ''().;@'' \<and> c \<noteq> CHR 0x22 \<and> c \<noteq> CHR 0x5C"

definition text_octet :: "char \<Rightarrow> bool" where
  "text_octet c \<longleftrightarrow> 32 \<le> (of_char c :: nat) \<and> (of_char c :: nat) \<le> 126 \<and> c \<noteq> CHR 0x22 \<and> c \<noteq> CHR 0x5C"

definition wireLabel :: "string \<Rightarrow> bool" where
  "wireLabel l \<longleftrightarrow> l \<noteq> [] \<and> length l \<le> 63 \<and> list_all plain_octet l"

definition wireName :: "string \<Rightarrow> bool" where
  "wireName n \<longleftrightarrow> n \<noteq> [] \<and> last n = CHR ''.'' \<and> length n + 1 \<le> 255 \<and> list_all wireLabel (SplitByte CHR ''.'' (butlast n))"

fun wireData :: "RR \<Rightarrow> bool" where
  "wireData (RR_A h a) \<longleftrightarrow> length a = 4"
| "wireData (RR_AAAA h a) \<longleftrightarrow> length a = 16"
| "wireData (RR_CNAME h t) \<longleftrightarrow> wireName t"
| "wireData (RR_TXT h ts) \<longleftrightarrow> ts \<noteq> [] \<and> list_all (\<lambda>s. length s \<le> 255 \<and> list_all text_octet s) ts"
| "wireData (RR_Other h) \<longleftrightarrow> False"

fun dataOctets :: "RR \<Rightarrow> nat" where
  "dataOctets (RR_A h a) = 4"
| "dataOctets (RR_AAAA h a) = 16"
| "dataOctets (RR_CNAME h t) = length t + 1"
| "dataOctets (RR_TXT h ts) = sum_list (map (\<lambda>s. length s + 1) ts)"
| "dataOctets (RR_Other h) = 0"

definition callOctets :: "msg_call \<Rightarrow> nat" where
  "callOctets call = (case call of
     SetUpdate zn \<Rightarrow> 12 + length zn + 1 + 4
   | RemoveRRs rrs \<Rightarrow> sum_list (map (\<lambda>r. length (rrName r) + 1 + 10 + dataOctets r) rrs)
   | InsertRRs rrs \<Rightarrow> sum_list (map (\<lambda>r. length (rrName r) + 1 + 10 + dataOctets r) rrs)
   | _ \<Rightarrow> 0)"

definition sendable :: "msg \<Rightarrow> bool" where
  "sendable m \<longleftrightarrow>
     list_all (\<lambda>r. wireName (rrName r) \<and> wireData r) (removedRRs m @ insertedRRs m)
   \<and> list_all (\<lambda>r. unat (hdrTtl (Header r)) < 2 ^ 31) (insertedRRs m)
   \<and> list_all (\<lambda>call. case call of SetUpdate zn \<Rightarrow> wireName zn | _ \<Rightarrow> True) m
   \<and> sum_list (map callOctets m) + 1024 \<le> 65535"

abbreviation axfrMsg :: "dns_lib \<Rightarrow> ('t, 'e, 'n) network \<Rightarrow> ('t, 'e) rfc_provider \<Rightarrow> 'n \<Rightarrow> msg" where
  "axfrMsg lib net p n \<equiv> signMsg lib p (NowUnix net n) [SetAxfr (Fqdn lib (Zone (cfg p)))]"

text \<open>The two outcomes of an update, and what the answers mean.\<close>

definition carried_out :: "('n \<Rightarrow> RR list) \<Rightarrow> msg \<Rightarrow> 'n \<Rightarrow> 'n \<Rightarrow> bool" where
  "carried_out contents m n n' \<longleftrightarrow> readable (set (contents n')) = serve m (readable (set (contents n)))"

definition untouched :: "('n \<Rightarrow> RR list) \<Rightarrow> 'n \<Rightarrow> 'n \<Rightarrow> bool" where
  "untouched contents n n' \<longleftrightarrow> set (contents n') = set (contents n)"

definition server_law ::
  "dns_lib \<Rightarrow> ('t, 'e, 'n) network \<Rightarrow> ('t, 'e) rfc_provider \<Rightarrow> ('n \<Rightarrow> RR list) \<Rightarrow> bool"
where
  "server_law lib net p contents \<longleftrightarrow>
     (\<forall>n res n'. In net (newTransferer p) (axfrMsg lib net p n) (server p) n = (res, n') \<longrightarrow>
        n' = n \<and> (\<forall>s rrs. res = Inr s \<and> transferred s = Some rrs \<longrightarrow> readable (set rrs) = readable (set (contents n))))
   \<and> (\<forall>n m res n'. ExchangeContext net (exchanger p) (signMsg lib p (NowUnix net n) m) (server p) n = (res, n')
        \<and> acceptable (Fqdn lib (Zone (cfg p))) (set (contents n)) m \<and> sendable m \<longrightarrow>
        (case res of
           Inr rcode \<Rightarrow> if rcode = RcodeSuccess lib then carried_out contents m n n' else untouched contents n n'
         | Inl e \<Rightarrow> carried_out contents m n n' \<or> untouched contents n n'))"

text \<open>A server that can be reached: transfers are completed and plain messages are not refused.\<close>

definition available ::
  "dns_lib \<Rightarrow> ('t, 'e, 'n) network \<Rightarrow> ('t, 'e) rfc_provider \<Rightarrow> ('n \<Rightarrow> RR list) \<Rightarrow> bool"
where
  "available lib net p contents \<longleftrightarrow>
     (\<forall>n. \<exists>s rrs. fst (In net (newTransferer p) (axfrMsg lib net p n) (server p) n) = Inr s \<and> transferred s = Some rrs)
   \<and> (\<forall>n m. acceptable (Fqdn lib (Zone (cfg p))) (set (contents n)) m \<and> sendable m \<longrightarrow>
        fst (ExchangeContext net (exchanger p) (signMsg lib p (NowUnix net n) m) (server p) n) = Inr (RcodeSuccess lib))"


section \<open>Zones as maps\<close>

definition zoneOf :: "RR list \<Rightarrow> zone" where
  "zoneOf rrs = map_of (map (\<lambda>e. (epKey e, e)) (List.map_filter rrToEndpoint rrs))"

text \<open>A record that reads back as an endpoint whose own record has the same name and data.\<close>

definition good :: "dns_lib \<Rightarrow> rfc_config \<Rightarrow> RR \<Rightarrow> bool" where
  "good lib c r \<longleftrightarrow> (\<forall>e. rrToEndpoint r = Some e \<longrightarrow> (\<exists>x. endpointToRRs lib c e = Inr [x] \<and> sameRR x r))"

definition absz :: "dns_lib \<Rightarrow> rfc_config \<Rightarrow> RR set \<Rightarrow> zone \<Rightarrow> bool" where
  "absz lib c z zm \<longleftrightarrow> (\<forall>r \<in> z. good lib c r)
     \<and> (\<forall>k e. zm k = Some e \<longleftrightarrow> (\<exists>r \<in> z. rrToEndpoint r = Some e \<and> epKey e = k))"

text \<open>An endpoint whose record keeps its key, and one that reads back as itself.\<close>

definition keyed :: "dns_lib \<Rightarrow> rfc_config \<Rightarrow> endpoint \<Rightarrow> bool" where
  "keyed lib c e \<longleftrightarrow> (\<exists>x a. endpointToRRs lib c e = Inr [x] \<and> rrToEndpoint x = Some a \<and> epKey a = epKey e)"

definition faithful :: "dns_lib \<Rightarrow> rfc_config \<Rightarrow> endpoint \<Rightarrow> bool" where
  "faithful lib c e \<longleftrightarrow> (\<exists>x. endpointToRRs lib c e = Inr [x] \<and> rrToEndpoint x = Some e)"

text \<open>The key of \<open>e\<close> is free, or taken by a record with the same data.\<close>

definition fits :: "dns_lib \<Rightarrow> rfc_config \<Rightarrow> zone \<Rightarrow> endpoint \<Rightarrow> bool" where
  "fits lib c zm e \<longleftrightarrow> (\<forall>h. zm (epKey e) = Some h \<longrightarrow>
     (\<exists>x y. endpointToRRs lib c e = Inr [x] \<and> endpointToRRs lib c h = Inr [y] \<and> sameRR x y))"

lemma sameRR_key:
  "sameRR x r \<Longrightarrow> \<exists>a b. rrToEndpoint x = Some a \<and> rrToEndpoint r = Some b \<and> epKey a = epKey b"
  by (cases "(x, r)" rule: sameRR.cases) (auto simp: epKey_def)

lemma sameRR_refl: "rrToEndpoint x = Some e \<Longrightarrow> sameRR x x"
  by (cases x) auto

lemma sameRR_trans: "sameRR x y \<Longrightarrow> sameRR y r \<Longrightarrow> sameRR x r"
  by (cases "(x, y)" rule: sameRR.cases; cases r) auto

lemma faithful_keyed: "faithful lib c e \<Longrightarrow> keyed lib c e"
  by (auto simp: faithful_def keyed_def)

lemma absz_remove:
  assumes "absz lib c z zm" and "endpointToRRs lib c e = Inr [x]" and "rrToEndpoint x = Some a" "epKey a = epKey e"
    and "fits lib c zm e"
  shows "absz lib c (removeRR x z) (zm(epKey e := None))"
proof -
  have gone: "sameRR x r \<longleftrightarrow> epKey g = epKey e" if r: "r \<in> z" "rrToEndpoint r = Some g" for r g
  proof
    assume "sameRR x r"
    then show "epKey g = epKey e" using sameRR_key assms(3,4) r(2) by fastforce
  next
    assume "epKey g = epKey e"
    then have "zm (epKey e) = Some g" using assms(1) r unfolding absz_def by metis
    then obtain y where y: "endpointToRRs lib c g = Inr [y]" "sameRR x y"
      using assms(2,5) unfolding fits_def by fastforce
    moreover obtain y' where "endpointToRRs lib c g = Inr [y']" "sameRR y' r"
      using assms(1) r unfolding absz_def good_def by blast
    ultimately show "sameRR x r" using sameRR_trans by auto
  qed
  show ?thesis
    using assms(1) gone unfolding absz_def removeRR_def by (auto; metis)
qed

lemma sameSet_key:
  "sameSet x r \<Longrightarrow> \<exists>a b. rrToEndpoint x = Some a \<and> rrToEndpoint r = Some b \<and> epKey a = epKey b"
  by (cases "(x, r)" rule: sameSet.cases) (auto simp: epKey_def)

lemma replacedBy_sameSet: "replacedBy x r \<Longrightarrow> sameRR x r \<or> sameSet x r"
  unfolding replacedBy_def by (cases "(x, r)" rule: sameSet.cases) auto

text \<open>Where a record fits, what it replaces is the record with the same data.\<close>

lemma fits_same:
  assumes "absz lib c z zm" and "endpointToRRs lib c e = Inr [x]" and "rrToEndpoint x = Some a" "epKey a = epKey e"
    and "fits lib c zm e" and "r \<in> z" "sameSet x r"
  shows "sameRR x r"
proof -
  obtain g where g: "rrToEndpoint r = Some g" "epKey g = epKey e" using sameSet_key [OF assms(7)] assms(3,4) by auto
  then have "zm (epKey e) = Some g" using assms(1,6) unfolding absz_def by metis
  then obtain y where y: "endpointToRRs lib c g = Inr [y]" "sameRR x y"
    using assms(2,5) unfolding fits_def by fastforce
  moreover obtain y' where "endpointToRRs lib c g = Inr [y']" "sameRR y' r"
    using assms(1,6) g(1) unfolding absz_def good_def by blast
  ultimately show ?thesis using sameRR_trans by auto
qed

lemma absz_insert:
  assumes "absz lib c z zm" and "endpointToRRs lib c e = Inr [x]" and "rrToEndpoint x = Some e" and "fits lib c zm e"
  shows "absz lib c (insertRR x z) (zm(epKey e \<mapsto> e))"
proof -
  have rem: "absz lib c (removeRR x z) (zm(epKey e := None))"
    using absz_remove [OF assms(1-3) refl assms(4)] .
  have "replacedBy x r \<longleftrightarrow> sameRR x r" if "r \<in> z" for r
    using replacedBy_sameSet [of x r] fits_same [OF assms(1-3) refl assms(4) that] by (auto simp: replacedBy_def)
  then have ins: "insertRR x z = insert x (removeRR x z)" by (auto simp: insertRR_def removeRR_def)
  have "good lib c x" using assms(2,3) sameRR_refl by (auto simp: good_def)
  then show ?thesis
    using rem assms(3) unfolding absz_def ins by (auto split: if_splits; metis)
qed

lemma absz_readable: "absz lib c (readable z) zm \<longleftrightarrow> absz lib c z zm"
proof -
  have "(\<exists>r \<in> readable z. rrToEndpoint r = Some e) \<longleftrightarrow> (\<exists>r \<in> z. rrToEndpoint r = Some e)" for e by (auto simp: readable_def)
  moreover have "(\<forall>r \<in> readable z. good lib c r) \<longleftrightarrow> (\<forall>r \<in> z. good lib c r)" by (auto simp: readable_def good_def)
  ultimately show ?thesis unfolding absz_def by (simp add: bex_simps)
qed


section \<open>Following a message\<close>

lemma serve_append: "serve (m @ m') z = serve m' (serve m z)"
  by (induction m z rule: serve.induct) simp_all

lemma keyedE:
  assumes "keyed lib c e"
  obtains x a where "endpointToRRs lib c e = Inr [x]" "rrToEndpoint x = Some a" "epKey a = epKey e"
    "deleteCalls lib c e = [RemoveRRs [x]]"
  using assms by (auto simp: keyed_def deleteCalls_def)

lemma faithfulE:
  assumes "faithful lib c e"
  obtains x where "endpointToRRs lib c e = Inr [x]" "rrToEndpoint x = Some e" "createCalls lib c e = [InsertRRs [x]]"
  using assms by (auto simp: faithful_def createCalls_def)

lemma fits_cong: "zm (epKey e) = zm' (epKey e) \<Longrightarrow> fits lib c zm e \<longleftrightarrow> fits lib c zm' e"
  by (simp add: fits_def)

lemma fits_None: "zm (epKey e) = None \<Longrightarrow> fits lib c zm e"
  by (simp add: fits_def)

lemma fits_self: "endpointToRRs lib c e = Inr [x] \<Longrightarrow> rrToEndpoint x = Some a \<Longrightarrow> zm (epKey e) = Some e \<Longrightarrow> fits lib c zm e"
  using sameRR_refl by (auto simp: fits_def)

lemma serve_deletes:
  assumes "absz lib c z zm" and "\<forall>e \<in> set es. keyed lib c e \<and> fits lib c zm e"
  shows "absz lib c (serve (concat (map (deleteCalls lib c) es)) z) (\<lambda>k. if k \<in> epKey ` set es then None else zm k)"
  using assms
proof (induction es arbitrary: z zm)
  case (Cons e es)
  obtain x a where x: "endpointToRRs lib c e = Inr [x]" "rrToEndpoint x = Some a" "epKey a = epKey e"
      "deleteCalls lib c e = [RemoveRRs [x]]"
    using Cons.prems(2) keyedE by (metis list.set_intros(1))
  let ?zm = "zm(epKey e := None)"
  have "absz lib c (removeRR x z) ?zm" using absz_remove [OF Cons.prems(1) x(1-3)] Cons.prems(2) by simp
  moreover have "\<forall>d \<in> set es. keyed lib c d \<and> fits lib c ?zm d"
    using Cons.prems(2) by (simp add: fits_def)
  ultimately have "absz lib c (serve (concat (map (deleteCalls lib c) es)) (removeRR x z))
      (\<lambda>k. if k \<in> epKey ` set es then None else ?zm k)" by (rule Cons.IH)
  moreover have "(\<lambda>k. if k \<in> epKey ` set es then None else ?zm k) = (\<lambda>k. if k \<in> epKey ` set (e # es) then None else zm k)"
    by auto
  ultimately show ?case using x(4) by simp
qed simp

definition overlay :: "endpoint list \<Rightarrow> zone \<Rightarrow> zone" where
  "overlay es zm k = (case find (\<lambda>e. epKey e = k) (rev es) of Some e \<Rightarrow> Some e | None \<Rightarrow> zm k)"

lemma overlay_Nil [simp]: "overlay [] zm = zm"
  by (simp add: overlay_def fun_eq_iff)

lemma overlay_Cons: "overlay (e # es) zm = overlay es (zm(epKey e \<mapsto> e))"
  by (rule ext) (auto simp: overlay_def find_append split: option.splits)

lemma overlay_other: "k \<notin> epKey ` set es \<Longrightarrow> overlay es zm k = zm k"
  by (auto simp: overlay_def split: option.splits dest: find_rev_Some)

lemma serve_creates:
  assumes "absz lib c z zm" and "\<forall>e \<in> set es. faithful lib c e \<and> fits lib c zm e" and "inj_on epKey (set es)"
  shows "absz lib c (serve (concat (map (createCalls lib c) es)) z) (overlay es zm)"
  using assms
proof (induction es arbitrary: z zm)
  case (Cons e es)
  obtain x where x: "endpointToRRs lib c e = Inr [x]" "rrToEndpoint x = Some e" "createCalls lib c e = [InsertRRs [x]]"
    using Cons.prems(2) faithfulE by (metis list.set_intros(1))
  let ?zm = "zm(epKey e \<mapsto> e)"
  have "absz lib c (insertRR x z) ?zm" using absz_insert [OF Cons.prems(1) x(1,2)] Cons.prems(2) by simp
  moreover have "fits lib c ?zm d" if "d \<in> set es" for d
  proof (cases "epKey d = epKey e")
    case True
    then have "d = e" using Cons.prems(3) that by (simp add: inj_on_def)
    then show ?thesis using fits_self x by simp
  next
    case False
    then show ?thesis using Cons.prems(2) that fits_cong [of ?zm d zm] by simp
  qed
  then have "\<forall>d \<in> set es. faithful lib c d \<and> fits lib c ?zm d" using Cons.prems(2) by simp
  moreover have "inj_on epKey (set es)" using Cons.prems(3) by (simp add: inj_on_def)
  ultimately have "absz lib c (serve (concat (map (createCalls lib c) es)) (insertRR x z)) (overlay es ?zm)"
    by (rule Cons.IH)
  then show ?case using x(3) by (simp add: overlay_Cons)
qed simp

lemma updateCalls_split: "keyed lib c h \<Longrightarrow> updateCalls lib c (h, w) = deleteCalls lib c h @ createCalls lib c w"
  by (auto simp: updateCalls_def deleteCalls_def keyed_def)

lemma serve_updates:
  assumes "absz lib c z zm" and "map epKey olds = map epKey news" and "distinct (map epKey news)"
    and "\<forall>h \<in> set olds. keyed lib c h \<and> zm (epKey h) = Some h" and "\<forall>w \<in> set news. faithful lib c w"
  shows "absz lib c (serve (concat (map (updateCalls lib c) (zip olds news))) z) (overlay news zm)"
  using assms
proof (induction olds arbitrary: news z zm)
  case Nil
  then show ?case by simp
next
  case (Cons h olds)
  then obtain w news' where news: "news = w # news'" and key: "epKey h = epKey w" by (cases news) auto
  have h: "keyed lib c h" "fits lib c zm h"
    using Cons.prems(4) fits_self by (auto simp: keyed_def)
  have "absz lib c (serve (deleteCalls lib c h) z) (\<lambda>k. if k \<in> epKey ` set [h] then None else zm k)"
    using serve_deletes [OF Cons.prems(1), of "[h]"] h by simp
  then have "absz lib c (serve (deleteCalls lib c h) z) (zm(epKey h := None))" by (simp add: fun_upd_def)
  from serve_creates [OF this, of "[w]"]
  have "absz lib c (serve (createCalls lib c w) (serve (deleteCalls lib c h) z)) (zm(epKey w \<mapsto> w))"
    using Cons.prems(5) news key by (simp add: fits_None overlay_Cons)
  then have step: "absz lib c (serve (updateCalls lib c (h, w)) z) (zm(epKey w \<mapsto> w))"
    by (simp add: updateCalls_split [OF h(1)] serve_append)
  have "map epKey olds = map epKey news'" "distinct (map epKey news')" "\<forall>v \<in> set news'. faithful lib c v"
    using Cons.prems(2,3,5) news by simp_all
  moreover have "\<forall>g \<in> set olds. keyed lib c g \<and> (zm(epKey w \<mapsto> w)) (epKey g) = Some g"
  proof
    fix g assume g: "g \<in> set olds"
    have "epKey w \<notin> set (map epKey olds)" using Cons.prems(2,3) news by simp
    then have "epKey g \<noteq> epKey w" using g by (metis image_eqI list.set_map)
    with g show "keyed lib c g \<and> (zm(epKey w \<mapsto> w)) (epKey g) = Some g" using Cons.prems(4) by simp
  qed
  ultimately have "absz lib c (serve (concat (map (updateCalls lib c) (zip olds news'))) (serve (updateCalls lib c (h, w)) z))
      (overlay news' (zm(epKey w \<mapsto> w)))" using Cons.IH [OF step] by blast
  then show ?case by (simp add: news overlay_Cons serve_append)
qed

text \<open>What a change set needs to be carried out in full.\<close>

definition performable :: "dns_lib \<Rightarrow> rfc_config \<Rightarrow> zone \<Rightarrow> changes \<Rightarrow> bool" where
  "performable lib c zm ch \<longleftrightarrow>
     (\<forall>e \<in> set (Delete ch). keyed lib c e \<and> fits lib c zm e)
   \<and> (\<forall>h \<in> set (UpdateOld ch). keyed lib c h \<and> zm (epKey h) = Some h)
   \<and> (\<forall>w \<in> set (UpdateNew ch). faithful lib c w) \<and> distinct (map epKey (UpdateNew ch))
   \<and> (\<forall>e \<in> set (Create ch). faithful lib c e \<and> fits lib c zm e) \<and> inj_on epKey (set (Create ch))"

lemma overlay_apply_spec:
  assumes "conflict_free ch"
  shows "overlay (Create ch) (overlay (UpdateNew ch) (\<lambda>k. if k \<in> epKey ` set (Delete ch) then None else zm k))
    = apply_spec ch zm"
proof (rule ext)
  fix k
  have "epKey ` set (UpdateOld ch) = epKey ` set (UpdateNew ch)"
    using assms by (metis conflict_free_def list.set_map)
  moreover have "k \<notin> epKey ` set (UpdateNew ch)" if "find (\<lambda>e. epKey e = k) (rev (UpdateNew ch)) = None"
    using that unfolding find_rev_None by blast
  ultimately show "overlay (Create ch) (overlay (UpdateNew ch) (\<lambda>k. if k \<in> epKey ` set (Delete ch) then None else zm k)) k
      = apply_spec ch zm k"
    by (auto simp: overlay_def apply_spec_def split: option.splits)
qed

lemma serve_buildUpdate:
  assumes "absz lib c z zm" and "conflict_free ch" and "performable lib c zm ch"
  shows "absz lib c (serve (snd (buildUpdate lib c ch)) z) (apply_spec ch zm)"
proof -
  let ?zm1 = "\<lambda>k. if k \<in> epKey ` set (Delete ch) then None else zm k"
  have keys: "map epKey (UpdateOld ch) = map epKey (UpdateNew ch)"
    and apart: "epKey ` set (Delete ch) \<inter> epKey ` set (UpdateNew ch) = {}" "epKey ` set (Create ch) \<inter> epKey ` set (UpdateNew ch) = {}"
    using assms(2) by (auto simp: conflict_free_def)
  have old: "epKey h \<in> epKey ` set (UpdateNew ch)" if "h \<in> set (UpdateOld ch)" for h
    using that keys by (metis image_eqI list.set_map)
  have d: "absz lib c (serve (concat (map (deleteCalls lib c) (Delete ch))) z) ?zm1"
    using assms(1,3) by (intro serve_deletes) (auto simp: performable_def)
  have "\<forall>h \<in> set (UpdateOld ch). keyed lib c h \<and> ?zm1 (epKey h) = Some h"
    using assms(3) old apart(1) unfolding performable_def by fastforce
  with d have u: "absz lib c (serve (concat (map (updateCalls lib c) (zip (UpdateOld ch) (UpdateNew ch))))
      (serve (concat (map (deleteCalls lib c) (Delete ch))) z)) (overlay (UpdateNew ch) ?zm1)"
    using keys assms(3) by (intro serve_updates) (auto simp: performable_def)
  have "\<forall>e \<in> set (Create ch). faithful lib c e \<and> fits lib c (overlay (UpdateNew ch) ?zm1) e"
  proof
    fix e assume e: "e \<in> set (Create ch)"
    then have "overlay (UpdateNew ch) ?zm1 (epKey e) = ?zm1 (epKey e)" using apart(2) by (intro overlay_other) blast
    then show "faithful lib c e \<and> fits lib c (overlay (UpdateNew ch) ?zm1) e"
      using e assms(3) unfolding performable_def fits_def by (auto split: if_splits)
  qed
  with u have "absz lib c (serve (concat (map (createCalls lib c) (Create ch)))
      (serve (concat (map (updateCalls lib c) (zip (UpdateOld ch) (UpdateNew ch))))
        (serve (concat (map (deleteCalls lib c) (Delete ch))) z))) (overlay (Create ch) (overlay (UpdateNew ch) ?zm1))"
    using assms(3) by (intro serve_creates) (auto simp: performable_def)
  moreover have "length (UpdateOld ch) = length (UpdateNew ch)" using keys by (rule map_eq_imp_length_eq)
  ultimately show ?thesis
    by (simp add: buildUpdate_calls serve_append overlay_apply_spec [OF assms(2)])
qed



section \<open>The provider keeps the contract\<close>

definition rfc_zone :: "('n \<Rightarrow> RR list) \<Rightarrow> 'n \<Rightarrow> zone" where
  "rfc_zone contents n = zoneOf (contents n)"

definition rfc_invar :: "dns_lib \<Rightarrow> rfc_config \<Rightarrow> ('n \<Rightarrow> RR list) \<Rightarrow> 'n \<Rightarrow> bool" where
  "rfc_invar lib c contents n \<longleftrightarrow> absz lib c (set (contents n)) (zoneOf (contents n))"

definition rfc_accepts :: "dns_lib \<Rightarrow> rfc_config \<Rightarrow> ('n \<Rightarrow> RR list) \<Rightarrow> 'n \<Rightarrow> changes \<Rightarrow> bool" where
  "rfc_accepts lib c contents n ch \<longleftrightarrow>
     performable lib c (zoneOf (contents n)) ch
   \<and> acceptable (Fqdn lib (Zone c)) (set (contents n)) (snd (buildUpdate lib c ch))
   \<and> sendable (snd (buildUpdate lib c ch))"

lemma zoneOf_eq:
  assumes "absz lib c (set rrs) zm"
  shows "zoneOf rrs = zm"
proof (rule ext)
  fix k
  let ?eps = "List.map_filter rrToEndpoint rrs"
  have mem: "e \<in> set ?eps \<longleftrightarrow> (\<exists>r \<in> set rrs. rrToEndpoint r = Some e)" for e
    by (force simp: List.map_filter_def)
  show "zoneOf rrs k = zm k"
  proof (cases "zoneOf rrs k")
    case None
    then have "k \<notin> epKey ` set ?eps" by (auto simp: zoneOf_def map_of_eq_None_iff image_image)
    then show ?thesis using None assms mem unfolding absz_def by (metis image_eqI not_None_eq)
  next
    case (Some e)
    then have "e \<in> set ?eps \<and> epKey e = k" unfolding zoneOf_def by (auto dest: map_of_SomeD)
    then show ?thesis using Some assms mem unfolding absz_def by metis
  qed
qed

lemma absz_zone_list:
  assumes "absz lib c (set rrs) zm" and "readable (set rrs') = readable (set rrs)"
  shows "zone_list zm (List.map_filter rrToEndpoint rrs')"
proof -
  have "e \<in> set (List.map_filter rrToEndpoint xs) \<longleftrightarrow> (\<exists>r \<in> readable (set xs). rrToEndpoint r = Some e)" for e xs
    by (force simp: List.map_filter_def readable_def)
  moreover have "absz lib c (readable (set rrs)) zm" using assms(1) by (simp add: absz_readable)
  ultimately show ?thesis using assms(2) unfolding zone_list_def absz_def ran_def by auto
qed

lemma rfc2136_reads:
  assumes law: "server_law lib net p contents" and inv: "rfc_invar lib (cfg p) contents n"
    and r: "rfc2136_Records lib net p n = (res, n')"
  shows "n' = n \<and> (\<forall>eps. res = Inr eps \<longrightarrow> zone_list (zoneOf (contents n)) eps)"
proof -
  obtain str where str: "In net (newTransferer p) (axfrMsg lib net p n) (server p) n = (str, n')"
    and res: "res = (case str of Inl e \<Rightarrow> Inl (Wrap (''axfr '' @ Zone (cfg p)) e) | Inr env \<Rightarrow> readEnvelopes (Zone (cfg p)) env [])"
    using r by (auto simp: rfc2136_Records_def Let_def split: prod.splits sum.splits)
  have same: "n' = n" "str = Inr s \<Longrightarrow> transferred s = Some rrs \<Longrightarrow> readable (set rrs) = readable (set (contents n))" for s rrs
    using law str unfolding server_law_def by blast+
  have "zone_list (zoneOf (contents n)) eps" if eps: "res = Inr eps" for eps
  proof -
    obtain s rrs where "str = Inr s" "transferred s = Some rrs" "eps = List.map_filter rrToEndpoint rrs"
      using eps res by (auto simp: readEnvelopes_Inr split: sum.splits)
    then show ?thesis using same(2) absz_zone_list inv unfolding rfc_invar_def by blast
  qed
  with same(1) show ?thesis by blast
qed

lemma available_reads:
  assumes law: "server_law lib net p contents" "available lib net p contents" and inv: "rfc_invar lib (cfg p) contents n"
  shows "\<exists>eps. rfc2136_Records lib net p n = (Inr eps, n) \<and> zone_list (zoneOf (contents n)) eps"
proof -
  obtain s rrs where "fst (In net (newTransferer p) (axfrMsg lib net p n) (server p) n) = Inr s" "transferred s = Some rrs"
    using law(2) unfolding available_def by blast
  then have "\<exists>eps. fst (rfc2136_Records lib net p n) = Inr eps"
    by (auto simp: rfc2136_Records_def Let_def readEnvelopes_Inr split: prod.splits)
  then show ?thesis using rfc2136_reads [OF law(1) inv] by (metis prod.collapse)
qed

lemma carried_out_effect:
  assumes inv: "rfc_invar lib c contents n" and cf: "conflict_free ch" and acc: "rfc_accepts lib c contents n ch"
    and "carried_out contents (snd (buildUpdate lib c ch)) n n'"
  shows "rfc_invar lib c contents n' \<and> zoneOf (contents n') = apply_spec ch (zoneOf (contents n))"
proof -
  have "absz lib c (readable (set (contents n))) (zoneOf (contents n))" using inv by (simp add: rfc_invar_def absz_readable)
  then have "absz lib c (readable (set (contents n'))) (apply_spec ch (zoneOf (contents n)))"
    using serve_buildUpdate cf acc assms(4) unfolding rfc_accepts_def carried_out_def by metis
  then have "absz lib c (set (contents n')) (apply_spec ch (zoneOf (contents n)))" by (simp only: absz_readable)
  then show ?thesis using zoneOf_eq unfolding rfc_invar_def by metis
qed

lemma untouched_same: "rfc_invar lib c contents n \<Longrightarrow> untouched contents n n' \<Longrightarrow>
    rfc_invar lib c contents n' \<and> zoneOf (contents n') = zoneOf (contents n)"
  unfolding rfc_invar_def untouched_def using zoneOf_eq by metis

text \<open>What applying a change set does, for every answer of the server.\<close>

lemma rfc2136_apply_effect:
  assumes law: "server_law lib net p contents" and inv: "rfc_invar lib (cfg p) contents n" and cf: "conflict_free ch"
    and acc: "rfc_accepts lib (cfg p) contents n ch" and ap: "rfc2136_ApplyChanges lib net p n ch = (ws, err, n')"
  shows "rfc_invar lib (cfg p) contents n'
    \<and> zoneOf (contents n') \<in> {zoneOf (contents n), apply_spec ch (zoneOf (contents n))}
    \<and> (err = None \<longrightarrow> zoneOf (contents n') = apply_spec ch (zoneOf (contents n)))
    \<and> (\<forall>s rcode. err = Some (RcodeError s rcode) \<longrightarrow> zoneOf (contents n') = zoneOf (contents n))"
proof (cases "IsEmpty ch")
  case True
  then show ?thesis using ap inv by (simp add: rfc2136_ApplyChanges_def apply_spec_empty)
next
  case False
  let ?m = "snd (buildUpdate lib (cfg p) ch)"
  obtain res where res: "ExchangeContext net (exchanger p) (signMsg lib p (NowUnix net n) ?m) (server p) n = (res, n')"
    and err: "err = (case res of Inl e \<Rightarrow> Some (Wrap ''dns update exchange'' e) | Inr rcode \<Rightarrow>
      if rcode \<noteq> RcodeSuccess lib then Some (RcodeError (''dns update failed: rcode '' @ RcodeToString lib rcode) rcode) else None)"
    using ap False by (auto simp: rfc2136_ApplyChanges_def Let_def split: prod.splits sum.splits if_splits)
  have "case res of
      Inr rcode \<Rightarrow> if rcode = RcodeSuccess lib then carried_out contents ?m n n' else untouched contents n n'
    | Inl e \<Rightarrow> carried_out contents ?m n n' \<or> untouched contents n n'"
    using law res acc unfolding server_law_def rfc_accepts_def by blast
  then show ?thesis
    using err carried_out_effect [OF inv cf acc, of n'] untouched_same [OF inv, of n'] by (cases res) (auto split: if_splits)
qed

lemma available_applies:
  assumes "available lib net p contents" and "rfc_accepts lib (cfg p) contents n ch"
    and "rfc2136_ApplyChanges lib net p n ch = (ws, err, n')"
  shows "err = None"
proof -
  have "fst (ExchangeContext net (exchanger p) (signMsg lib p (NowUnix net n) (snd (buildUpdate lib (cfg p) ch))) (server p) n)
      = Inr (RcodeSuccess lib)"
    using assms(1,2) unfolding available_def rfc_accepts_def by blast
  then show ?thesis using assms(3) by (auto simp: rfc2136_ApplyChanges_def Let_def split: prod.splits sum.splits if_splits)
qed

lemma rfc2136_is_zone_provider:
  assumes law: "server_law lib net p contents" "available lib net p contents"
  shows "zone_provider (rfc2136_methods lib net p) (rfc_zone contents) (rfc_invar lib (cfg p) contents)
    (rfc_accepts lib (cfg p) contents)"
proof unfold_locales
  fix n assume inv: "rfc_invar lib (cfg p) contents n"
  from available_reads [OF law inv]
  show "\<exists>eps. Records (rfc2136_methods lib net p) n = (Inr eps, n) \<and> zone_list (rfc_zone contents n) eps"
    by (simp add: rfc2136_methods_def rfc_zone_def)
next
  fix n ch
  assume inv: "rfc_invar lib (cfg p) contents n" and cf: "conflict_free ch" and acc: "rfc_accepts lib (cfg p) contents n ch"
  obtain ws err n' where ap: "rfc2136_ApplyChanges lib net p n ch = (ws, err, n')" by (metis prod_cases3)
  have "err = None" by (rule available_applies [OF law(2) acc ap])
  then show "\<exists>s'. ApplyChanges (rfc2136_methods lib net p) n ch = (None, s') \<and> rfc_invar lib (cfg p) contents s'
      \<and> rfc_zone contents s' = apply_spec ch (rfc_zone contents n)"
    using ap rfc2136_apply_effect [OF law(1) inv cf acc ap] by (simp add: rfc2136_methods_def rfc_zone_def)
qed

text \<open>
  C9. Refinement: over a server whose answers mean what RFC 2136 says (\<open>server_law\<close>), applying a change set that can be
  performed, with a plain message, implements the abstract effect \<open>apply_spec\<close> as a transaction, whatever
  conversions, message layout and signing happen in between.  The zone afterwards is the old one or exactly the
  abstract result; it is the result when \<open>ApplyChanges\<close> reports success and the old one when the server
  answered with an error code; every later read that succeeds lists it.  When the server is
  available, \<open>ApplyChanges\<close> and the read do succeed.
\<close>

theorem rfc2136_refines_zone:
  assumes "server_law lib net p contents" and "absz lib (cfg p) (set (contents n)) (zoneOf (contents n))"
    and "conflict_free ch" and "performable lib (cfg p) (zoneOf (contents n)) ch"
    and "acceptable (Fqdn lib (Zone (cfg p))) (set (contents n)) (snd (buildUpdate lib (cfg p) ch))"
    and "sendable (snd (buildUpdate lib (cfg p) ch))"
    and "rfc2136_ApplyChanges lib net p n ch = (ws, err, n')"
  shows "zoneOf (contents n') \<in> {zoneOf (contents n), apply_spec ch (zoneOf (contents n))}
    \<and> (err = None \<longrightarrow> zoneOf (contents n') = apply_spec ch (zoneOf (contents n)))
    \<and> (\<forall>s rcode. err = Some (RcodeError s rcode) \<longrightarrow> zoneOf (contents n') = zoneOf (contents n))
    \<and> (\<forall>eps n''. rfc2136_Records lib net p n' = (Inr eps, n'') \<longrightarrow> n'' = n' \<and> zone_list (zoneOf (contents n')) eps)
    \<and> (available lib net p contents \<longrightarrow> err = None \<and> (\<exists>eps. rfc2136_Records lib net p n' = (Inr eps, n')))"
proof -
  have inv: "rfc_invar lib (cfg p) contents n" and acc: "rfc_accepts lib (cfg p) contents n ch"
    using assms(2,4-6) by (simp_all add: rfc_invar_def rfc_accepts_def)
  note effect = rfc2136_apply_effect [OF assms(1) inv assms(3) acc assms(7)]
  then have inv': "rfc_invar lib (cfg p) contents n'" by blast
  have "n'' = n' \<and> zone_list (zoneOf (contents n')) eps" if "rfc2136_Records lib net p n' = (Inr eps, n'')" for eps n''
    using rfc2136_reads [OF assms(1) inv' that] by blast
  moreover have "err = None \<and> (\<exists>eps. rfc2136_Records lib net p n' = (Inr eps, n'))" if av: "available lib net p contents"
    using available_applies [OF av acc assms(7)] available_reads [OF assms(1) av inv'] by blast
  ultimately show ?thesis using effect by blast
qed


section \<open>Plans are performable\<close>

definition plain_name :: "string \<Rightarrow> bool" where
  "plain_name n \<longleftrightarrow> n \<noteq> [] \<and> \<not> HasSuffix n ''.'' \<and> CHR 0x5C \<notin> set n"

text \<open>Endpoints that can be written and read back unchanged.\<close>

definition publishable :: "rfc_config \<Rightarrow> endpoint \<Rightarrow> bool" where
  "publishable c w \<longleftrightarrow> plain_name (DNSName w) \<and> no_escape w \<and> canonical c w \<and> Labels w = []
     \<and> (\<exists>t. Targets w = [t] \<and> target_ok (RecordType w) t)"

lemma publishable_faithful:
  assumes "fqdn_law lib" and "publishable c w" and "MinTTL c < 2 ^ 32"
  shows "faithful lib c w"
proof -
  obtain t where t: "Targets w = [t]" "target_ok (RecordType w) t" using assms(2) by (auto simp: publishable_def)
  obtain rrs where rrs: "endpointToRRs lib c w = Inr rrs" using endpointToRRs_ok [of lib c w] t by auto
  have "map rrToEndpoint rrs = [Some (readBack c w t)]"
    using endpointToRRs_readBack [OF assms(1) _ rrs] assms(2) t by (simp add: publishable_def)
  moreover have "readBack c w t = w"
  proof (rule endpoint.equality)
    have w: "canonical c w" "plain_name (DNSName w)" "Labels w = []" using assms(2) by (simp_all add: publishable_def)
    show "TTL (readBack c w t) = TTL w" using readBack_TTL_iff [OF assms(3)] w(1) by (simp add: canonical_def)
    show "Labels (readBack c w t) = Labels w" using w(3) by (simp add: readBack_def)
    show "DNSName (readBack c w t) = DNSName w" using w(2) by (simp add: plain_name_def)
    show "Targets (readBack c w t) = Targets w" using w(1) t by (simp add: canonical_def)
  qed simp_all
  ultimately show ?thesis using rrs by (auto simp: faithful_def)
qed

lemma companion_publishable: "plain_name n \<Longrightarrow> MinTTL c \<le> 300 \<Longrightarrow> publishable c (ownershipTXTFor p n)"
proof -
  assume n: "plain_name n" "MinTTL c \<le> 300"
  then have "TrimSuffix (ownershipName n) ''.'' = ownershipName n"
    by (simp add: TrimSuffix_ownershipName plain_name_def)
  then have "\<not> HasSuffix (ownershipName n) ''.''" using TrimSuffix_id_iff [of "ownershipName n"] by simp
  moreover have "ownershipName n \<noteq> []" "CHR 0x5C \<notin> set (ownershipName n)"
    using n by (simp_all add: ownershipName_def ownerPrefix_def plain_name_def)
  ultimately show ?thesis using n
    by (simp add: publishable_def plain_name_def no_escape_def canonical_def canonTarget_def target_ok_def)
      (simp add: ownershipTXTFor_def)
qed

lemma absz_keyed:
  assumes "absz lib c z zm" and "zm (epKey h) = Some h"
  shows "keyed lib c h"
proof -
  obtain r where r: "r \<in> z" "rrToEndpoint r = Some h" using assms unfolding absz_def by metis
  then obtain x where x: "endpointToRRs lib c h = Inr [x]" "sameRR x r" using assms(1) unfolding absz_def good_def by blast
  then show ?thesis using sameRR_key [OF x(2)] r(2) unfolding keyed_def by auto
qed

text \<open>The ownership record of a name fits when nobody else's stands there.\<close>

lemma rrToEndpoint_plain: "rrToEndpoint r = Some h \<Longrightarrow> CHR ''|'' \<notin> set (RecordType h)"
  by (cases r) auto

lemma TXT_record:
  "RecordType e = ''TXT'' \<Longrightarrow> Targets e = [v] \<Longrightarrow> endpointToRRs lib c e = Inr [RR_TXT (rrHeader lib c e) [v]]"
  by (simp add: endpointToRRs_def targetToRR_def)

lemma companion_fits:
  assumes z: "absz lib c z zm"
    and owner: "\<And>h. zm (epKey (ownershipTXTFor p n)) = Some h \<Longrightarrow> Targets h = [ownershipValue (ownerID p)]"
  shows "fits lib c zm (ownershipTXTFor p n)"
  unfolding fits_def
proof (intro allI impI)
  fix h assume h: "zm (epKey (ownershipTXTFor p n)) = Some h"
  then obtain r where r: "rrToEndpoint r = Some h" "epKey h = epKey (ownershipTXTFor p n)"
    using z unfolding absz_def by blast
  then have "DNSName h = ownershipName n" "RecordType h = ''TXT''"
    using epKey_inj [OF r(2)] rrToEndpoint_plain by auto
  then show "\<exists>x y. endpointToRRs lib c (ownershipTXTFor p n) = Inr [x] \<and> endpointToRRs lib c h = Inr [y] \<and> sameRR x y"
    using owner [OF h] TXT_record [of h] TXT_record [of "ownershipTXTFor p n"] by (simp add: rrHeader_def)
qed

lemma plan_companion_fits:
  assumes z: "absz lib c z zm'" and at: "zm' (epKey (ownershipTXTFor p n)) = zm (epKey (ownershipTXTFor p n))"
    and cur: "zone_list zm cur" and tidy: "tidy desired cur"
    and owners: "\<forall>h \<in> set cur. isOwnershipTXT h \<longrightarrow> Targets h = [ownershipValue (ownerID p)]"
  shows "fits lib c zm' (ownershipTXTFor p n)"
proof (rule companion_fits [OF z])
  fix h assume "zm' (epKey (ownershipTXTFor p n)) = Some h"
  then have h: "zm (epKey (ownershipTXTFor p n)) = Some h" using at by simp
  then have k: "h \<in> set cur" "epKey h = epKey (ownershipTXTFor p n)"
    using cur zone_list_mem [OF cur] by (auto simp: zone_list_def)
  have "isOwnershipTXT h" using not_companion_key [of h p n] k tidyD(3) [OF tidy] by blast
  then show "Targets h = [ownershipValue (ownerID p)]" using owners k(1) by blast
qed

lemma plan_new_key_free:
  assumes cur: "zone_list zm cur" and tidy: "tidy desired cur"
    and w: "w \<in> set desired" "epKey w \<notin> epKey ` set (records cur)"
  shows "zm (epKey w) = None"
proof -
  have "isOwnershipTXT e \<Longrightarrow> epKey e \<noteq> epKey w" if "e \<in> set cur" for e
    using that w(1) tidyD(1,2,3) [OF tidy] epKey_inj [of e w] unfolding isOwnershipTXT_def by metis
  moreover have "e \<in> set (records cur)" if "e \<in> set cur" "\<not> isOwnershipTXT e" for e
    using that by (simp add: filterOwnershipTXTs_eq)
  ultimately have "\<forall>e \<in> set cur. epKey e \<noteq> epKey w" using w(2) by (metis image_eqI)
  then show ?thesis using cur zone_list_mem [OF cur] unfolding zone_list_def by (metis not_None_eq)
qed

text \<open>
  The operands of a plan, seen from one zone.  The plan is computed from a zone \<open>zm\<close>; the zone \<open>zm'\<close> agrees with
  it on the names that are at \<open>home\<close> there.  A single zone is the case where every name is.
\<close>

definition operand_fits :: "dns_lib \<Rightarrow> rfc_config \<Rightarrow> zone \<Rightarrow> changes \<Rightarrow> endpoint \<Rightarrow> bool" where
  "operand_fits lib c zm ch e \<longleftrightarrow>
     (e \<in> set (Delete ch) \<longrightarrow> keyed lib c e \<and> fits lib c zm e)
   \<and> (e \<in> set (UpdateOld ch) \<longrightarrow> keyed lib c e \<and> zm (epKey e) = Some e)
   \<and> (e \<in> set (UpdateNew ch) \<longrightarrow> faithful lib c e)
   \<and> (e \<in> set (Create ch) \<longrightarrow> faithful lib c e \<and> fits lib c zm e)"

lemma plan_operand_fits:
  assumes z: "absz lib c z zm'"
    and at: "\<And>e. home (DNSName e) \<Longrightarrow> CHR ''|'' \<notin> set (RecordType e) \<Longrightarrow> zm' (epKey e) = zm (epKey e)"
    and cur: "zone_list zm cur" and tidy: "tidy desired cur" and r: "range_ok rd" "range_ok rc"
    and law: "fqdn_law lib" and ttl: "MinTTL c \<le> 300"
    and want: "\<forall>w \<in> set desired. plain_name (DNSName w) \<and> (home (DNSName w) \<longrightarrow> publishable c w)"
    and names: "\<forall>h \<in> set cur. plain_name (DNSName h)"
    and owners: "\<forall>h \<in> set cur. isOwnershipTXT h \<longrightarrow> Targets h = [ownershipValue (ownerID p)]"
    and e: "home (DNSName e)"
  shows "operand_fits lib c zm' (Calculate rd rc p desired cur) e"
proof -
  have faithful: "faithful lib c w" if "publishable c w" for w
    using publishable_faithful [OF law that] ttl by simp
  have comp: "fits lib c zm' e \<and> faithful lib c e" if "e = ownershipTXTFor p n" "plain_name n" for n
    using plan_companion_fits [OF z _ cur tidy owners, of n] at [OF e] faithful companion_publishable [OF that(2) ttl] that(1)
    by simp
  have here: "zm' (epKey e) = Some e \<and> keyed lib c e \<and> fits lib c zm' e" if "effective (records cur) e"
  proof -
    have "e \<in> set cur" using effective_records [OF that] by blast
    then have h: "zm' (epKey e) = Some e" using at [OF e] tidyD(3) [OF tidy] zone_list_mem [OF cur] by simp
    then show ?thesis using absz_keyed [OF z h] fits_self unfolding keyed_def by blast
  qed
  have old: "plain_name (DNSName h)" if "effective (records cur) h" for h
    using effective_records [OF that] names by blast
  have desired: "plain_name (DNSName w) \<and> (e = w \<longrightarrow> faithful lib c e)" if "effective desired w" for w
    using effective_mem [OF that] want faithful e by blast
  have new: "fits lib c zm' e" if "effective desired e" "epKey e \<notin> epKey ` set (records cur)"
    using fits_None plan_new_key_free [OF cur tidy _ that(2)] effective_mem [OF that(1)] at [OF e] tidyD(2) [OF tidy] by simp
  show ?thesis
    unfolding operand_fits_def mem_changes(1-3) [OF r(1)] mem_Delete [OF r(2)]
    using here comp old desired new faithful_keyed by blast
qed

lemma plan_performable:
  assumes z: "absz lib c z zm" and cur: "zone_list zm cur" and tidy: "tidy desired cur" and r: "range_ok rd" "range_ok rc"
    and law: "fqdn_law lib" and ttl: "MinTTL c \<le> 300" and want: "\<forall>w \<in> set desired. publishable c w"
    and names: "\<forall>h \<in> set cur. plain_name (DNSName h)"
    and owners: "\<forall>h \<in> set cur. isOwnershipTXT h \<longrightarrow> Targets h = [ownershipValue (ownerID p)]"
  shows "performable lib c zm (Calculate rd rc p desired cur)"
proof -
  have "operand_fits lib c zm (Calculate rd rc p desired cur) e" for e
    by (rule plan_operand_fits [where home = "\<lambda>_. True", OF z refl cur tidy r law ttl _ names owners])
      (use want in \<open>auto simp: publishable_def\<close>)
  then show ?thesis
    unfolding performable_def operand_fits_def using distinct_UpdateNew_keys [OF r(1)] tidy_Create_inj [OF tidy r(1)] by blast
qed


section \<open>An example server\<close>

definition serveL :: "msg \<Rightarrow> RR list \<Rightarrow> RR list" where
  "serveL m = fold (\<lambda>call z. case call of
       RemoveRRs rrs \<Rightarrow> fold (\<lambda>x. filter (\<lambda>r. \<not> sameRR x r)) rrs z
     | InsertRRs rrs \<Rightarrow> fold (\<lambda>x z. x # filter (\<lambda>r. \<not> replacedBy x r) z) rrs z
     | _ \<Rightarrow> z) m"

lemma set_serveL: "set (serveL m z) = serve m (set z)"
proof -
  have rem: "set (fold (\<lambda>x. filter (\<lambda>r. \<not> sameRR x r)) rrs z) = fold removeRR rrs (set z)" for rrs z
    by (induction rrs arbitrary: z) (simp_all add: removeRR_def)
  have ins: "set (fold (\<lambda>x z. x # filter (\<lambda>r. \<not> replacedBy x r) z) rrs z) = fold insertRR rrs (set z)" for rrs z
    by (induction rrs arbitrary: z) (simp_all add: insertRR_def)
  show ?thesis
    unfolding serveL_def by (induction m arbitrary: z) (auto simp: rem ins split: msg_call.splits)
qed

text \<open>On messages of readable records a server's other records play no part.\<close>

lemma readable_fold:
  assumes "\<And>x z. x \<in> set xs \<Longrightarrow> readable (f x z) = f x (readable z)"
  shows "readable (fold f xs z) = fold f xs (readable z)"
  using assms by (induction xs arbitrary: z) simp_all

lemma readable_serve:
  "\<forall>r \<in> set (insertedRRs m). rrToEndpoint r \<noteq> None \<Longrightarrow> readable (serve m z) = serve m (readable z)"
proof (induction m z rule: serve.induct)
  case (2 rrs m z)
  have "readable (fold removeRR rrs z) = fold removeRR rrs (readable z)"
    by (rule readable_fold) (auto simp: readable_def removeRR_def)
  then show ?case using 2 by (simp add: insertedRRs_def)
next
  case (3 rrs m z)
  have "readable (fold insertRR rrs z) = fold insertRR rrs (readable z)"
    using 3(2) by (intro readable_fold) (auto simp: readable_def insertRR_def insertedRRs_def)
  then show ?case using 3 by (simp add: insertedRRs_def)
qed (simp_all add: insertedRRs_def)

lemma acceptable_readable: "acceptable zn z m \<Longrightarrow> \<forall>r \<in> set (insertedRRs m). rrToEndpoint r \<noteq> None"
  by (simp add: acceptable_def)

definition ex_server :: "('t, 'e, RR list) network" where
  "ex_server = \<lparr>In = (\<lambda>_ _ _ n. (Inr (Envelope (Inr n) Closed), n)),
     ExchangeContext = (\<lambda>_ m _ n. (Inr 0, serveL m n)), NowUnix = (\<lambda>_. 0)\<rparr>"

definition ex_rfc :: "(unit, unit) rfc_provider" where
  "ex_rfc = newWithDeps ex_lib ex_cfg () ()"

lemma ex_rfc_cfg: "cfg ex_rfc = ex_cfg"
  by (simp add: ex_rfc_def newWithDeps_def ex_cfg_def)

lemma ex_server_law: "TSIGKeyName (cfg p) = [] \<Longrightarrow> server_law ex_lib ex_server p (\<lambda>n. n)"
  unfolding server_law_def
  by (auto simp: ex_server_def carried_out_def untouched_def set_serveL signMsg_def readable_serve [OF acceptable_readable])
    (simp_all add: ex_lib_def)

lemma ex_server_available: "available ex_lib ex_server p (\<lambda>n. n)"
  by (simp add: available_def ex_server_def) (simp add: ex_lib_def)

lemma ex_rfc_law: "server_law ex_lib ex_server ex_rfc (\<lambda>n. n)"
  by (rule ex_server_law) (simp add: ex_rfc_cfg ex_cfg_def)

lemma ex_absz: "absz ex_lib c (set []) (zoneOf [])"
  by (simp add: absz_def zoneOf_def List.map_filter_def)

lemma ex_publishable: "MinTTL c \<le> 300 \<Longrightarrow> publishable c (ex_A ''a.ex'' ''10.0.0.1'')"
  by (simp add: publishable_def plain_name_def no_escape_def canonical_def ex_A_def ex_target_ok HasSuffix_def)

lemma ex_create:
  "Calculate (\<lambda>m. m) rev ex_plan [ex_A ''a.ex'' ''10.0.0.1''] [] =
     \<lparr>Create = [ex_A ''a.ex'' ''10.0.0.1'', ownershipTXTFor ex_plan ''a.ex''], UpdateOld = [], UpdateNew = [], Delete = []\<rparr>"
  by (simp add: Calculate_def Let_def indexEndpoints_def filterOwnershipTXTs_def walkDesired_def no_changes_def ex_A_def)

text \<open>The message that publishes one record in an empty zone.\<close>

definition ex_hdr :: "string \<Rightarrow> 16 word \<Rightarrow> RR_Header" where
  "ex_hdr n t = \<lparr>hdrName = n, Rrtype = t, Class = 1, hdrTtl = 300\<rparr>"

definition ex_message :: msg where
  "ex_message = [SetUpdate ''ex.'', InsertRRs [RR_A (ex_hdr ''a.ex.'' 1) [10, 0, 0, 1]],
     InsertRRs [RR_TXT (ex_hdr ''external-dns-docker-owner.a.ex.'' 16)
       [''heritage=external-dns-docker,external-dns-docker/owner=external-dns-docker'']]]"

lemma ex_header:
  "MinTTL c = 0 \<Longrightarrow> rrHeader ex_lib c (ex_A n t) = ex_hdr (Fqdn ex_lib n) 1"
  "MinTTL c = 0 \<Longrightarrow> rrHeader ex_lib c (ownershipTXTFor p n) = ex_hdr (Fqdn ex_lib (ownershipName n)) 16"
  by (simp_all add: rrHeader_def rrType_def effectiveTTL_def ex_A_def ownershipTXTFor_def ex_hdr_def ex_lib_def)

lemma ex_message:
  assumes "Zone c = ''ex''" "MinTTL c = 0"
  shows "snd (buildUpdate ex_lib c (Calculate (\<lambda>m. m) rev ex_plan [ex_A ''a.ex'' ''10.0.0.1''] [])) = ex_message"
proof -
  have "endpointToRRs ex_lib c (ex_A ''a.ex'' ''10.0.0.1'') = Inr [RR_A (rrHeader ex_lib c (ex_A ''a.ex'' ''10.0.0.1'')) [10, 0, 0, 1]]"
    by (simp add: endpointToRRs_def targetToRR_def ex_A_def ex_target)
  moreover have "Fqdn ex_lib ''ex'' = ''ex.''" "Fqdn ex_lib ''a.ex'' = ''a.ex.''"
    "Fqdn ex_lib (ownershipName ''a.ex'') = ''external-dns-docker-owner.a.ex.''"
    by (simp_all add: ex_lib_def HasSuffix_def ownershipName_def ownerPrefix_def)
  moreover have "ownershipValue (ownerID ex_plan) = ''heritage=external-dns-docker,external-dns-docker/owner=external-dns-docker''"
    by (simp add: ownershipValue_def ex_plan_def plan_New_def DefaultOwnerID_def)
  ultimately show ?thesis
    unfolding ex_create buildUpdate_def ex_message_def
    by (simp add: createStep_def TXT_record ex_header [OF assms(2)] assms(1))
qed

lemma ex_message_records:
  "removedRRs ex_message = []"
  "insertedRRs ex_message = [RR_A (ex_hdr ''a.ex.'' 1) [10, 0, 0, 1], RR_TXT (ex_hdr ''external-dns-docker-owner.a.ex.'' 16)
     [''heritage=external-dns-docker,external-dns-docker/owner=external-dns-docker'']]"
  by (simp_all add: ex_message_def removedRRs_def insertedRRs_def)

lemma ex_message_plain: "acceptable ''ex.'' {} ex_message" "sendable ex_message"
proof -
  have lower: "ToLower ''a.ex.'' = ''a.ex.''" "ToLower ''external-dns-docker-owner.a.ex.'' = ''external-dns-docker-owner.a.ex.''"
    by code_simp+
  have "\<exists>us. ex_message = SetUpdate ''ex.'' # us \<and> (\<forall>u \<in> set us. \<exists>rrs. u = RemoveRRs rrs \<or> u = InsertRRs rrs)"
    by (simp add: ex_message_def)
  then show "acceptable ''ex.'' {} ex_message"
    unfolding acceptable_def ex_message_records by (simp add: lower ex_hdr_def inZone_def HasSuffix_def)
  show "sendable ex_message" by code_simp
qed

lemma ex_accepted:
  assumes "Zone c = ''ex''" "MinTTL c = 0"
  shows "acceptable (Fqdn ex_lib (Zone c)) {} (snd (buildUpdate ex_lib c (Calculate (\<lambda>m. m) rev ex_plan [ex_A ''a.ex'' ''10.0.0.1''] [])))"
    "sendable (snd (buildUpdate ex_lib c (Calculate (\<lambda>m. m) rev ex_plan [ex_A ''a.ex'' ''10.0.0.1''] [])))"
proof -
  have "Fqdn ex_lib ''ex'' = ''ex.''" by (simp add: ex_lib_def HasSuffix_def)
  then show "acceptable (Fqdn ex_lib (Zone c)) {} (snd (buildUpdate ex_lib c (Calculate (\<lambda>m. m) rev ex_plan [ex_A ''a.ex'' ''10.0.0.1''] [])))"
    "sendable (snd (buildUpdate ex_lib c (Calculate (\<lambda>m. m) rev ex_plan [ex_A ''a.ex'' ''10.0.0.1''] [])))"
    unfolding ex_message [OF assms] assms(1) using ex_message_plain by simp_all
qed

theorem rfc2136_refines_zone_witness:
  "\<exists>ws n'. rfc2136_ApplyChanges ex_lib ex_server ex_rfc [] (Calculate (\<lambda>m. m) rev ex_plan [ex_A ''a.ex'' ''10.0.0.1''] []) = (ws, None, n')
     \<and> zoneOf n' (epKey (ex_A ''a.ex'' ''10.0.0.1'')) = Some (ex_A ''a.ex'' ''10.0.0.1'')"
proof -
  let ?w = "ex_A ''a.ex'' ''10.0.0.1''" let ?ch = "Calculate (\<lambda>m. m) rev ex_plan [?w] []"
  have tidy: "tidy [?w] []" by (simp add: tidy_def plain_types_def ex_A_def isOwnershipTXT_def filterOwnershipTXTs_def)
  have c: "Zone ex_cfg = ''ex''" "MinTTL ex_cfg = 0" by (simp_all add: ex_cfg_def)
  have perf: "performable ex_lib (cfg ex_rfc) (zoneOf []) ?ch"
    using plan_performable [OF ex_absz _ tidy range_ok_id range_ok_rev ex_lib_law] ex_publishable [of ex_cfg]
    by (simp add: zone_list_def zoneOf_def List.map_filter_def ex_rfc_cfg c)
  have free: "conflict_free ?ch" by (rule tidy_conflict_free [OF tidy range_ok_id range_ok_rev])
  have new: "apply_spec ?ch (zoneOf []) (epKey ?w) = Some ?w"
    unfolding ex_create by (simp add: apply_spec_def epKey_def ex_A_def ownershipName_def ownerPrefix_def)
  obtain ws err n' where ap: "rfc2136_ApplyChanges ex_lib ex_server ex_rfc [] ?ch = (ws, err, n')" by (metis prod_cases3)
  have acc: "acceptable (Fqdn ex_lib (Zone (cfg ex_rfc))) (set []) (snd (buildUpdate ex_lib (cfg ex_rfc) ?ch))"
    "sendable (snd (buildUpdate ex_lib (cfg ex_rfc) ?ch))"
    unfolding ex_rfc_cfg using ex_accepted [OF c] by simp_all
  from rfc2136_refines_zone [OF ex_rfc_law ex_absz free perf acc ap]
  have "err = None" "zoneOf n' = apply_spec ?ch (zoneOf [])" using ex_server_available by blast+
  then show ?thesis using ap new by auto
qed

end
