(* ===== verification/MultiZoneServer.thy ===== *)
theory MultiZoneServer
  imports MultiZone Rfc2136Server
begin

text \<open>
  The multi-zone provider against DNS servers.  Each zone's server keeps \<open>server_law\<close>, and an update of one
  zone leaves the other zones as they are (the zone section of a message says which zone it changes); both are
  assumptions on the servers (\<open>multi_law\<close>).  Where answers are needed all of them are \<open>available\<close>.

  Shown here: over such servers, when every record lies in the zone that \<open>zoneFor\<close> chooses for its name, each
  zone takes its part of a change set or stays as it is, and the provider implements the contract
  \<open>zone_provider\<close> for the union of its zones, so splitting a change set by zone and sending one message per zone
  has the effect of the whole change set.
\<close>

definition multi_law ::
  "dns_lib \<Rightarrow> ('t, 'e, 'n) network \<Rightarrow> ('t, 'e) multi_provider \<Rightarrow> (string \<Rightarrow> 'n \<Rightarrow> RR list) \<Rightarrow> bool"
where
  "multi_law lib net zones contents \<longleftrightarrow>
     (\<forall>ze \<in> set zones. server_law lib net (prov ze) (contents (zone ze)))
   \<and> (\<forall>ze \<in> set zones. \<forall>z \<in> zone ` set zones - {zone ze}. \<forall>m n. hd m = SetUpdate (Fqdn lib (Zone (cfg (prov ze)))) \<longrightarrow>
        set (contents z (snd (ExchangeContext net (exchanger (prov ze)) m (server (prov ze)) n))) = set (contents z n))"

definition multi_available ::
  "dns_lib \<Rightarrow> ('t, 'e, 'n) network \<Rightarrow> ('t, 'e) multi_provider \<Rightarrow> (string \<Rightarrow> 'n \<Rightarrow> RR list) \<Rightarrow> bool"
where
  "multi_available lib net zones contents \<longleftrightarrow> (\<forall>ze \<in> set zones. available lib net (prov ze) (contents (zone ze)))"

text \<open>All zones as one map.\<close>

definition multi_zone :: "('t, 'e) multi_provider \<Rightarrow> (string \<Rightarrow> 'n \<Rightarrow> RR list) \<Rightarrow> 'n \<Rightarrow> zone" where
  "multi_zone zones contents n k =
     (case find (\<lambda>ze. zoneOf (contents (zone ze) n) k \<noteq> None) zones of
        None \<Rightarrow> None
      | Some ze \<Rightarrow> zoneOf (contents (zone ze) n) k)"

text \<open>Every zone is readable, and its records are at home in it.\<close>

definition multi_invar ::
  "dns_lib \<Rightarrow> ('t, 'e) multi_provider \<Rightarrow> (string \<Rightarrow> 'n \<Rightarrow> RR list) \<Rightarrow> 'n \<Rightarrow> bool"
where
  "multi_invar lib zones contents n \<longleftrightarrow>
     (\<forall>ze \<in> set zones. rfc_invar lib (cfg (prov ze)) (contents (zone ze)) n
        \<and> (\<forall>k e. zoneOf (contents (zone ze) n) k = Some e \<longrightarrow> routedTo zones (zone ze) (DNSName e)))"

definition operands :: "changes \<Rightarrow> endpoint set" where
  "operands ch = set (Create ch) \<union> set (UpdateOld ch) \<union> set (UpdateNew ch) \<union> set (Delete ch)"

definition multi_accepts ::
  "dns_lib \<Rightarrow> ('t, 'e) multi_provider \<Rightarrow> (string \<Rightarrow> 'n \<Rightarrow> RR list) \<Rightarrow> 'n \<Rightarrow> changes \<Rightarrow> bool"
where
  "multi_accepts lib zones contents n ch \<longleftrightarrow>
     (\<forall>ze \<in> set zones. rfc_accepts lib (cfg (prov ze)) (contents (zone ze)) n (zonePart zones ch (zone ze)))
   \<and> (\<forall>e \<in> operands ch. zoneFor zones (DNSName e) \<noteq> None \<and> CHR ''|'' \<notin> set (RecordType e))"


section \<open>Keys and zones\<close>

lemma invar_key:
  assumes "rfc_invar lib c contents n" "zoneOf (contents n) k = Some e"
  shows "epKey e = k \<and> CHR ''|'' \<notin> set (RecordType e)"
proof -
  obtain r where "rrToEndpoint r = Some e" "epKey e = k"
    using assms unfolding rfc_invar_def absz_def by blast
  then show ?thesis by (cases r) auto
qed

lemma zone_unique: "distinct (map zone zones) \<Longrightarrow> a \<in> set zones \<Longrightarrow> b \<in> set zones \<Longrightarrow> zone a = zone b \<Longrightarrow> a = b"
  by (metis distinct_map inj_onD)

lemma routedTo_unique: "routedTo zones y n \<Longrightarrow> routedTo zones z n \<Longrightarrow> y = z"
  by (auto simp: routedTo_def)

lemma routedTo_Some: "routedTo zones z n \<Longrightarrow> zoneFor zones n \<noteq> None"
  by (auto simp: routedTo_def)

lemma routed_entry: "zoneFor zones n \<noteq> None \<Longrightarrow> \<exists>ze \<in> set zones. routedTo zones (zone ze) n"
  using zoneFor_Some(1) by (fastforce simp: routedTo_def)

lemma multi_zone_Some:
  assumes "multi_invar lib zones contents n" "distinct (map zone zones)"
  shows "multi_zone zones contents n k = Some e \<longleftrightarrow> (\<exists>ze \<in> set zones. zoneOf (contents (zone ze) n) k = Some e)"
proof -
  have uniq: "a = b" if "a \<in> set zones" "b \<in> set zones" "zoneOf (contents (zone a) n) k = Some d"
      "zoneOf (contents (zone b) n) k = Some e" for a b d e
  proof -
    have "epKey d = epKey e" "CHR ''|'' \<notin> set (RecordType d)" "CHR ''|'' \<notin> set (RecordType e)"
      using invar_key assms(1) that unfolding multi_invar_def by metis+
    then have "DNSName d = DNSName e" using epKey_inj by blast
    then have "zone a = zone b" using assms(1) that routedTo_unique unfolding multi_invar_def by metis
    then show ?thesis using zone_unique [OF assms(2)] that by blast
  qed
  show ?thesis
  proof (cases "find (\<lambda>ze. zoneOf (contents (zone ze) n) k \<noteq> None) zones")
    case None
    then have "zoneOf (contents (zone ze) n) k = None" if "ze \<in> set zones" for ze
      using that unfolding find_None_iff by blast
    then show ?thesis unfolding multi_zone_def None by auto
  next
    case (Some a)
    then have a: "a \<in> set zones" "zoneOf (contents (zone a) n) k \<noteq> None" by (auto simp: find_Some_iff)
    then obtain d where d: "zoneOf (contents (zone a) n) k = Some d" by blast
    have sel: "multi_zone zones contents n k = Some d" unfolding multi_zone_def Some using d by simp
    have "e' = d" if "ze \<in> set zones" "zoneOf (contents (zone ze) n) k = Some e'" for ze e'
      using uniq [OF a(1) that(1) d that(2)] d that(2) by simp
    then show ?thesis unfolding sel using a(1) d by blast
  qed
qed


section \<open>The part of a change set for one zone\<close>

lemma conflict_free_length: "conflict_free ch \<Longrightarrow> length (UpdateOld ch) = length (UpdateNew ch)"
  unfolding conflict_free_def by (metis map_eq_imp_length_eq)

lemma conflict_free_pairs:
  assumes "conflict_free ch" "(h, w) \<in> set (zip (UpdateOld ch) (UpdateNew ch))"
  shows "epKey h = epKey w" "h \<in> set (UpdateOld ch)" "w \<in> set (UpdateNew ch)"
proof -
  obtain i where i: "i < length (UpdateOld ch)" "h = UpdateOld ch ! i" "w = UpdateNew ch ! i" "i < length (UpdateNew ch)"
    using assms(2) by (auto simp: set_zip)
  have "map epKey (UpdateOld ch) ! i = map epKey (UpdateNew ch) ! i" using assms(1) by (simp add: conflict_free_def)
  then show "epKey h = epKey w" "h \<in> set (UpdateOld ch)" "w \<in> set (UpdateNew ch)" using i by simp_all
qed

lemma zonePart_operands:
  assumes "conflict_free ch"
  shows "e \<in> set (Create (zonePart zones ch z)) \<longleftrightarrow> e \<in> set (Create ch) \<and> routedTo zones z (DNSName e)"
    and "e \<in> set (Delete (zonePart zones ch z)) \<longleftrightarrow> e \<in> set (Delete ch) \<and> routedTo zones z (DNSName e)"
    and "w \<in> set (UpdateNew (zonePart zones ch z)) \<Longrightarrow>
      w \<in> set (UpdateNew ch) \<and> (\<exists>h \<in> set (UpdateOld ch). epKey h = epKey w \<and> routedTo zones z (DNSName h))"
    and "h \<in> set (UpdateOld (zonePart zones ch z)) \<Longrightarrow> h \<in> set (UpdateOld ch) \<and> routedTo zones z (DNSName h)"
  using conflict_free_pairs [OF assms] by (fastforce simp: zonePart_def Let_def)+

lemma zonePart_keys:
  assumes "conflict_free ch"
  shows "map epKey (UpdateOld (zonePart zones ch z)) = map epKey (UpdateNew (zonePart zones ch z))"
  using conflict_free_pairs(1) [OF assms] by (auto simp: zonePart_def Let_def)

lemma zonePart_conflict_free:
  assumes "conflict_free ch" shows "conflict_free (zonePart zones ch z)"
proof -
  note part = zonePart_operands [OF assms, of _ zones z]
  have "epKey a \<noteq> epKey b" if "a \<in> set (Create ch) \<union> set (Delete ch)" "b \<in> set (UpdateNew ch)" for a b
    using that assms unfolding conflict_free_def by blast
  moreover have "epKey a \<noteq> epKey b" if "a \<in> set (Create ch)" "b \<in> set (Delete ch)" for a b
    using that assms unfolding conflict_free_def by blast
  ultimately show ?thesis
    unfolding conflict_free_def [of "zonePart zones ch z"] using zonePart_keys [OF assms] part(1-3) by blast
qed

lemma find_filter: "(\<And>x. x \<in> set xs \<Longrightarrow> Q x \<Longrightarrow> P x) \<Longrightarrow> find Q (filter P xs) = find Q xs"
  by (induction xs) auto

lemma find_map: "find Q (map f xs) = map_option f (find (\<lambda>x. Q (f x)) xs)"
  by (induction xs) auto

text \<open>On the keys that belong to its zone a part does what the change set does; other keys it leaves alone.\<close>

lemma part_here:
  assumes cf: "conflict_free ch" and here: "\<forall>e \<in> operands ch. epKey e = k \<longrightarrow> routedTo zones z (DNSName e)"
  shows "apply_spec (zonePart zones ch z) zm k = apply_spec ch zm k"
proof -
  let ?zs = "zip (UpdateOld ch) (UpdateNew ch)" and ?P = "\<lambda>hw. routedTo zones z (DNSName (fst hw))"
  have c: "find (\<lambda>e. epKey e = k) (rev (Create (zonePart zones ch z))) = find (\<lambda>e. epKey e = k) (rev (Create ch))"
    unfolding zonePart_def Let_def changes.simps rev_filter
    by (rule find_filter) (use here in \<open>auto simp: operands_def\<close>)
  have pairs: "?P hw" if "hw \<in> set ?zs" "epKey (snd hw) = k" for hw
    using that conflict_free_pairs [OF cf, of "fst hw" "snd hw"] here by (simp add: operands_def)
  have "find (\<lambda>e. epKey e = k) (rev (UpdateNew (zonePart zones ch z))) =
      map_option snd (find (\<lambda>hw. epKey (snd hw) = k) (filter ?P (rev ?zs)))"
    by (simp add: zonePart_def Let_def rev_map rev_filter find_map)
  also have "\<dots> = map_option snd (find (\<lambda>hw. epKey (snd hw) = k) (rev ?zs))"
    by (subst find_filter) (use pairs in auto)
  also have "\<dots> = find (\<lambda>e. epKey e = k) (rev (map snd ?zs))" by (simp add: rev_map find_map)
  also have "map snd ?zs = UpdateNew ch" using conflict_free_length [OF cf] by simp
  finally have u: "find (\<lambda>e. epKey e = k) (rev (UpdateNew (zonePart zones ch z))) = find (\<lambda>e. epKey e = k) (rev (UpdateNew ch))" .
  have d: "k \<in> epKey ` set (Delete (zonePart zones ch z)) \<longleftrightarrow> k \<in> epKey ` set (Delete ch)"
    using here by (auto simp: zonePart_operands(2) [OF cf] operands_def)
  have o: "k \<in> epKey ` set (UpdateOld (zonePart zones ch z)) \<longleftrightarrow> k \<in> epKey ` set (UpdateOld ch)"
  proof -
    have "map fst ?zs = UpdateOld ch" using conflict_free_length [OF cf] by simp
    then have "set (UpdateOld ch) = fst ` set ?zs" by (metis list.set_map)
    moreover have "set (UpdateOld (zonePart zones ch z)) = fst ` {hw \<in> set ?zs. ?P hw}" by (simp add: zonePart_def Let_def)
    moreover have "?P hw" if "hw \<in> set ?zs" "epKey (fst hw) = k" for hw
      using that conflict_free_pairs [OF cf, of "fst hw" "snd hw"] here by (simp add: operands_def)
    ultimately show ?thesis by (simp only: image_image image_iff mem_Collect_eq bex_simps) blast
  qed
  show ?thesis unfolding apply_spec_def c u d o ..
qed

lemma part_elsewhere:
  assumes cf: "conflict_free ch" and away: "\<forall>e \<in> operands ch. epKey e = k \<longrightarrow> \<not> routedTo zones z (DNSName e)"
  shows "apply_spec (zonePart zones ch z) zm k = zm k"
proof -
  have "find (\<lambda>e. epKey e = k) (rev (Create (zonePart zones ch z))) = None"
    unfolding find_rev_None using away by (auto simp: zonePart_operands(1) [OF cf] operands_def)
  moreover have "find (\<lambda>e. epKey e = k) (rev (UpdateNew (zonePart zones ch z))) = None"
    unfolding find_rev_None using away zonePart_operands(3) [OF cf] by (fastforce simp: operands_def)
  moreover have "k \<notin> epKey ` set (UpdateOld (zonePart zones ch z))" "k \<notin> epKey ` set (Delete (zonePart zones ch z))"
    using away zonePart_operands(2,4) [OF cf] by (fastforce simp: operands_def)+
  ultimately show ?thesis by (simp add: apply_spec_def)
qed


section \<open>One zone after another\<close>

lemma hd_signed: "length (UpdateOld ch) = length (UpdateNew ch) \<Longrightarrow>
    hd (signMsg lib p t (snd (buildUpdate lib c ch))) = SetUpdate (Fqdn lib (Zone c))"
  by (simp add: signMsg_def buildUpdate_calls)

lemma apply_state:
  assumes "length (UpdateOld ch) = length (UpdateNew ch)"
  shows "\<exists>m. hd m = SetUpdate (Fqdn lib (Zone (cfg p)))
    \<and> snd (snd (rfc2136_ApplyChanges lib net p n ch)) \<in> {n, snd (ExchangeContext net (exchanger p) m (server p) n)}"
  by (rule exI [of _ "signMsg lib p (NowUnix net n) (snd (buildUpdate lib (cfg p) ch))"])
    (auto simp: hd_signed [OF assms] rfc2136_ApplyChanges_def Let_def split: prod.splits sum.splits)

lemma same_records:
  assumes "rfc_invar lib c f n" "set (f n') = set (f n)"
  shows "rfc_invar lib c f n' \<and> zoneOf (f n') = zoneOf (f n) \<and> rfc_accepts lib c f n' ch = rfc_accepts lib c f n ch"
proof -
  have "zoneOf (f n') = zoneOf (f n)" using assms zoneOf_eq unfolding rfc_invar_def by metis
  then show ?thesis using assms by (simp add: rfc_invar_def rfc_accepts_def)
qed

lemma zone_apply:
  assumes law: "multi_law lib net zones contents" "ze \<in> set zones"
    and inv: "rfc_invar lib (cfg (prov ze)) (contents (zone ze)) n" and cf: "conflict_free ch"
    and acc: "rfc_accepts lib (cfg (prov ze)) (contents (zone ze)) n ch"
    and ap: "rfc2136_ApplyChanges lib net (prov ze) n ch = (ws, err, n')"
  shows "rfc_invar lib (cfg (prov ze)) (contents (zone ze)) n'
    \<and> zoneOf (contents (zone ze) n') \<in> {zoneOf (contents (zone ze) n), apply_spec ch (zoneOf (contents (zone ze) n))}
    \<and> (err = None \<longrightarrow> zoneOf (contents (zone ze) n') = apply_spec ch (zoneOf (contents (zone ze) n)))
    \<and> (\<forall>z \<in> zone ` set zones - {zone ze}. set (contents z n') = set (contents z n))"
proof -
  have "server_law lib net (prov ze) (contents (zone ze))" using law unfolding multi_law_def by blast
  note effect = rfc2136_apply_effect [OF this inv cf acc ap]
  have "set (contents z n') = set (contents z n)" if "z \<in> zone ` set zones - {zone ze}" for z
    using apply_state [OF conflict_free_length [OF cf], of lib "prov ze" net n] ap law that
    unfolding multi_law_def by auto
  then show ?thesis using effect by blast
qed

text \<open>One turn of the loop: the zone has its part and the loop goes on, or the loop ends with an error.\<close>

lemma dispatch_step:
  assumes law: "multi_law lib net zones contents" "ze \<in> set zones" and bz: "map_of bz (zone ze) = Some c" and cf: "conflict_free c"
    and inv: "rfc_invar lib (cfg (prov ze)) (contents (zone ze)) n"
    and acc: "rfc_accepts lib (cfg (prov ze)) (contents (zone ze)) n c"
  shows "\<exists>n1 w1 err. rfc_invar lib (cfg (prov ze)) (contents (zone ze)) n1
    \<and> zoneOf (contents (zone ze) n1) \<in> {zoneOf (contents (zone ze) n), apply_spec c (zoneOf (contents (zone ze) n))}
    \<and> (\<forall>z \<in> zone ` set zones - {zone ze}. set (contents z n1) = set (contents z n))
    \<and> (case err of None \<Rightarrow> dispatch lib net bz (ze # zs) n ws = dispatch lib net bz zs n1 w1
           \<and> zoneOf (contents (zone ze) n1) = apply_spec c (zoneOf (contents (zone ze) n))
       | Some e \<Rightarrow> dispatch lib net bz (ze # zs) n ws = (w1, Some e, n1))
    \<and> (available lib net (prov ze) (contents (zone ze)) \<longrightarrow> err = None)"
proof (cases "IsEmpty c")
  case True
  then have "dispatch lib net bz (ze # zs) n ws = dispatch lib net bz zs n ws" using bz by simp
  then show ?thesis using inv apply_spec_empty [OF True] by (intro exI [of _ n] exI [of _ ws] exI [of _ None]) simp
next
  case False
  obtain ws1 err n1 where ap: "rfc2136_ApplyChanges lib net (prov ze) n c = (ws1, err, n1)" by (metis prod_cases3)
  note effect = zone_apply [OF law inv cf acc ap]
  have "dispatch lib net bz (ze # zs) n ws = (case err of
      None \<Rightarrow> dispatch lib net bz zs n1 (ws @ map ZoneWarning ws1) | Some e \<Rightarrow> (ws @ map ZoneWarning ws1, Some e, n1))"
    using False bz ap by (cases err) simp_all
  moreover have "available lib net (prov ze) (contents (zone ze)) \<longrightarrow> err = None"
    using available_applies [OF _ acc ap] by blast
  ultimately show ?thesis
    using effect by (intro exI [of _ n1] exI [of _ "ws @ map ZoneWarning ws1"] exI [of _ err]) (auto split: option.splits)
qed

lemma others_kept:
  assumes "\<forall>y \<in> set zones. rfc_invar lib (cfg (prov y)) (contents (zone y)) n"
    and "\<forall>z \<in> zone ` set zones - {z0}. set (contents z n1) = set (contents z n)"
    and "y \<in> set zones" "zone y \<noteq> z0"
  shows "rfc_invar lib (cfg (prov y)) (contents (zone y)) n1 \<and> zoneOf (contents (zone y) n1) = zoneOf (contents (zone y) n)
    \<and> rfc_accepts lib (cfg (prov y)) (contents (zone y)) n1 ch = rfc_accepts lib (cfg (prov y)) (contents (zone y)) n ch"
proof -
  have "set (contents (zone y) n1) = set (contents (zone y) n)" using assms(2-4) by blast
  then show ?thesis using same_records [of lib "cfg (prov y)" "contents (zone y)" n n1 ch] assms(1,3) by blast
qed

text \<open>What a zone may be after the loop: as before, or changed by its part.\<close>

definition zone_outcome ::
  "dns_lib \<Rightarrow> (string \<Rightarrow> 'n \<Rightarrow> RR list) \<Rightarrow> (string \<Rightarrow> changes) \<Rightarrow> 'n \<Rightarrow> 'n \<Rightarrow> ('t, 'e) zoneEntry \<Rightarrow> bool"
where
  "zone_outcome lib contents part n n' ze \<longleftrightarrow> rfc_invar lib (cfg (prov ze)) (contents (zone ze)) n'
     \<and> zoneOf (contents (zone ze) n') \<in>
         {zoneOf (contents (zone ze) n), apply_spec (part (zone ze)) (zoneOf (contents (zone ze) n))}"

lemma dispatch_updates:
  assumes law: "multi_law lib net zones contents" "distinct (map zone zones)" and zs: "set zs \<subseteq> set zones" "distinct (map zone zs)"
    and bz: "\<And>ze. ze \<in> set zones \<Longrightarrow> map_of bz (zone ze) = Some (part (zone ze))" and cf: "\<And>z. conflict_free (part z)"
    and inv: "\<forall>ze \<in> set zones. rfc_invar lib (cfg (prov ze)) (contents (zone ze)) n"
    and acc: "\<forall>ze \<in> set zs. rfc_accepts lib (cfg (prov ze)) (contents (zone ze)) n (part (zone ze))"
    and run: "dispatch lib net bz zs n ws = (ws', err, n')"
  shows "(\<forall>ze \<in> set zones. zone_outcome lib contents part n n' ze
        \<and> (zone ze \<notin> zone ` set zs \<longrightarrow> zoneOf (contents (zone ze) n') = zoneOf (contents (zone ze) n)))
    \<and> (err = None \<longrightarrow> (\<forall>ze \<in> set zs. zoneOf (contents (zone ze) n') = apply_spec (part (zone ze)) (zoneOf (contents (zone ze) n))))
    \<and> (multi_available lib net zones contents \<longrightarrow> err = None)"
  using zs inv acc run
proof (induction zs arbitrary: n ws)
  case Nil
  then show ?case by (simp add: zone_outcome_def)
next
  case (Cons ze zs)
  let ?z = "\<lambda>y. zoneOf (contents (zone y) n)" and ?z' = "\<lambda>y. zoneOf (contents (zone y) n')"
  have ze: "ze \<in> set zones" "zone ze \<notin> zone ` set zs" using Cons.prems(1,2) by auto
  obtain n1 w1 e1 where n1: "rfc_invar lib (cfg (prov ze)) (contents (zone ze)) n1"
      "zoneOf (contents (zone ze) n1) \<in> {?z ze, apply_spec (part (zone ze)) (?z ze)}"
      "\<forall>z \<in> zone ` set zones - {zone ze}. set (contents z n1) = set (contents z n)"
    and turn: "case e1 of None \<Rightarrow> dispatch lib net bz (ze # zs) n ws = dispatch lib net bz zs n1 w1
          \<and> zoneOf (contents (zone ze) n1) = apply_spec (part (zone ze)) (?z ze)
        | Some e \<Rightarrow> dispatch lib net bz (ze # zs) n ws = (w1, Some e, n1)"
    and av: "available lib net (prov ze) (contents (zone ze)) \<longrightarrow> e1 = None"
    using dispatch_step [OF law(1) ze(1) bz [OF ze(1)] cf, of n zs ws] Cons.prems(3,4) ze(1) by (metis list.set_intros(1))
  note kept = others_kept [OF Cons.prems(3) n1(3)]
  have one: "y = ze" if "y \<in> set zones" "zone y = zone ze" for y using zone_unique [OF law(2)] that ze(1) by blast
  have inv1: "\<forall>y \<in> set zones. rfc_invar lib (cfg (prov y)) (contents (zone y)) n1" using kept one n1(1) by metis
  have av': "multi_available lib net zones contents \<Longrightarrow> e1 = None" using av ze(1) by (simp add: multi_available_def)
  show ?case
  proof (cases e1)
    case (Some e)
    then have "n1 = n'" "err = Some e" using turn Cons.prems(5) by auto
    then show ?thesis using n1 kept one inv1 av' Some unfolding zone_outcome_def by (metis (no_types, lifting) image_eqI insertCI
        list.set_intros(1) option.distinct(1))
  next
    case None
    then have go: "dispatch lib net bz zs n1 w1 = (ws', err, n')" "zoneOf (contents (zone ze) n1) = apply_spec (part (zone ze)) (?z ze)"
      using turn Cons.prems(5) by auto
    have here: "y \<in> set zones \<and> zone y \<noteq> zone ze" if "y \<in> set zs" for y
      using that Cons.prems(1) ze(2) by (auto, metis image_eqI)
    then have acc1: "\<forall>y \<in> set zs. rfc_accepts lib (cfg (prov y)) (contents (zone y)) n1 (part (zone y))"
      using kept Cons.prems(4) by simp
    have IH: "\<forall>y \<in> set zones. zone_outcome lib contents part n1 n' y \<and> (zone y \<notin> zone ` set zs \<longrightarrow> ?z' y = zoneOf (contents (zone y) n1))"
      "err = None \<longrightarrow> (\<forall>y \<in> set zs. ?z' y = apply_spec (part (zone y)) (zoneOf (contents (zone y) n1)))"
      "multi_available lib net zones contents \<longrightarrow> err = None"
      using Cons.IH [OF _ _ inv1 acc1 go(1)] Cons.prems(1,2) by simp_all
    have "zone_outcome lib contents part n n' y \<and> (zone y \<notin> zone ` set (ze # zs) \<longrightarrow> ?z' y = ?z y)" if y: "y \<in> set zones" for y
    proof (cases "zone y = zone ze")
      case True
      then show ?thesis using IH(1) one [OF y] ze go(2) y unfolding zone_outcome_def by auto
    next
      case False
      have "zoneOf (contents (zone y) n1) = ?z y" using kept [OF y False] by blast
      then show ?thesis using bspec [OF IH(1) y] False by (simp add: zone_outcome_def)
    qed
    moreover have "?z' y = apply_spec (part (zone y)) (?z y)" if "err = None" "y \<in> set (ze # zs)" for y
      using that IH(1,2) ze go(2) kept here by (cases "y = ze") auto
    ultimately show ?thesis using IH(3) by blast
  qed
qed


section \<open>The union of the zones\<close>

lemma multi_reads:
  assumes law: "multi_law lib net zones contents" "distinct (map zone zones)" and sched: "mset sched = mset [0..<length zones]"
    and inv: "multi_invar lib zones contents n" and r: "multi_Records lib net sched zones n = (res, n')"
  shows "n' = n \<and> (\<forall>eps. res = Inr eps \<longrightarrow> zone_list (multi_zone zones contents n) eps)
    \<and> (multi_available lib net zones contents \<longrightarrow> (\<exists>eps. res = Inr eps))"
proof -
  let ?r = "\<lambda>ze. fst (rfc2136_Records lib net (prov ze) n)" and ?rs = "map (\<lambda>ze. fst (rfc2136_Records lib net (prov ze) n)) zones"
  have one: "snd (rfc2136_Records lib net (prov ze) n) = n \<and> (\<forall>eps. ?r ze = Inr eps \<longrightarrow> zone_list (zoneOf (contents (zone ze) n)) eps)
      \<and> (multi_available lib net zones contents \<longrightarrow> \<not> is_err (?r ze))" if "ze \<in> set zones" for ze
  proof -
    have ze: "server_law lib net (prov ze) (contents (zone ze))" "rfc_invar lib (cfg (prov ze)) (contents (zone ze)) n"
      using law inv that unfolding multi_law_def multi_invar_def by blast+
    have "\<not> is_err (?r ze)" if av: "multi_available lib net zones contents"
      using available_reads [OF ze(1) _ ze(2)] av \<open>ze \<in> set zones\<close> unfolding multi_available_def by (metis fst_conv is_err.simps(2))
    then show ?thesis using rfc2136_reads [OF ze prod.collapse [symmetric]] by blast
  qed
  then have "reads_only lib net zones n" by (simp add: reads_only_def)
  from multi_Records_sequential [OF this sched] r
  have res: "res = (case find is_err ?rs of Some (Inl e) \<Rightarrow> Inl e | _ \<Rightarrow> Inr (concat (map projr ?rs)))" and n': "n' = n"
    by (simp_all add: Let_def)
  have "zone_list (multi_zone zones contents n) eps" if ok: "\<forall>ze \<in> set zones. \<not> is_err (?r ze)" and "eps = concat (map projr ?rs)" for eps
  proof -
    have "zone_list (zoneOf (contents (zone ze) n)) (projr (?r ze))" if "ze \<in> set zones" for ze
      using one [OF that] ok that by (cases "?r ze") auto
    then show ?thesis
      using that(2) unfolding zone_list_def ran_def by (auto simp: multi_zone_Some [OF inv law(2)])
  qed
  moreover have "(\<forall>ze \<in> set zones. \<not> is_err (?r ze)) \<longleftrightarrow> find is_err ?rs = None" unfolding find_None_iff by auto
  moreover have "\<exists>e. x = Inl e" if "find is_err ?rs = Some x" for x
  proof -
    have "is_err x" using that unfolding find_Some_iff by blast
    then show ?thesis by (cases x) simp_all
  qed
  ultimately show ?thesis using res n' one by (cases "find is_err ?rs") fastforce+
qed

text \<open>An operand's key determines the zone it is routed to.\<close>

lemma operand_zone:
  assumes "multi_accepts lib zones contents n ch" "e \<in> operands ch" "epKey e = k"
  shows "\<exists>ze \<in> set zones. (\<forall>x \<in> operands ch. epKey x = k \<longrightarrow> routedTo zones (zone ze) (DNSName x))
    \<and> routedTo zones (zone ze) (DNSName e)"
proof -
  have plain: "zoneFor zones (DNSName x) \<noteq> None" "CHR ''|'' \<notin> set (RecordType x)" if "x \<in> operands ch" for x
    using assms(1) that by (auto simp: multi_accepts_def)
  obtain ze where ze: "ze \<in> set zones" "routedTo zones (zone ze) (DNSName e)" using routed_entry plain(1) [OF assms(2)] by blast
  have "routedTo zones (zone ze) (DNSName x)" if "x \<in> operands ch" "epKey x = k" for x
    using epKey_inj [of x e] plain(2) that assms(2,3) ze(2) by simp
  with ze show ?thesis by blast
qed

lemma multi_effect:
  assumes cf: "conflict_free ch" and inv: "multi_invar lib zones contents n" and acc: "multi_accepts lib zones contents n ch"
    and out: "\<forall>ze \<in> set zones. zone_outcome lib contents (zonePart zones ch) n n' ze"
  shows "multi_invar lib zones contents n'"
proof -
  have "routedTo zones (zone ze) (DNSName e)"
    if ze: "ze \<in> set zones" and e: "apply_spec (zonePart zones ch (zone ze)) (zoneOf (contents (zone ze) n)) k = Some e" for ze k e
  proof -
    note part = zonePart_operands [OF cf, of _ zones "zone ze"]
    have "routedTo zones (zone ze) (DNSName w)" if w: "w \<in> set (UpdateNew (zonePart zones ch (zone ze)))" for w
    proof -
      obtain h where h: "w \<in> set (UpdateNew ch)" "h \<in> set (UpdateOld ch)" "epKey h = epKey w" "routedTo zones (zone ze) (DNSName h)"
        using part(3) [OF w] by blast
      then show ?thesis using acc epKey_inj [of h w] by (auto simp: multi_accepts_def operands_def)
    qed
    then show ?thesis
      using e part(1) inv ze unfolding multi_invar_def apply_spec_def
      by (auto dest!: find_rev_Some split: option.splits if_splits)
  qed
  moreover have "routedTo zones (zone ze) (DNSName e)" if "ze \<in> set zones" "zoneOf (contents (zone ze) n) k = Some e" for ze k e
    using inv that by (simp add: multi_invar_def)
  ultimately show ?thesis unfolding multi_invar_def using out unfolding zone_outcome_def by fastforce
qed

lemma apply_spec_other: "\<forall>e \<in> operands ch. epKey e \<noteq> k \<Longrightarrow> apply_spec ch zm k = zm k"
proof -
  assume none: "\<forall>e \<in> operands ch. epKey e \<noteq> k"
  then have "find (\<lambda>e. epKey e = k) (rev (Create ch)) = None" "find (\<lambda>e. epKey e = k) (rev (UpdateNew ch)) = None"
    unfolding find_rev_None operands_def by blast+
  with none show ?thesis by (auto simp: apply_spec_def operands_def)
qed

lemma apply_spec_cong: "z k = z' k \<Longrightarrow> apply_spec c z k = apply_spec c z' k"
  by (auto simp: apply_spec_def split: option.splits)

lemma multi_zone_at:
  assumes "multi_invar lib zones contents n" and dist: "distinct (map zone zones)" and "ze \<in> set zones"
    and "routedTo zones (zone ze) (DNSName e)" and plain: "CHR ''|'' \<notin> set (RecordType e)"
  shows "multi_zone zones contents n (epKey e) = zoneOf (contents (zone ze) n) (epKey e)"
proof -
  have only: "y = ze" if y: "y \<in> set zones" "zoneOf (contents (zone y) n) (epKey e) = Some d" for y d
  proof -
    have "rfc_invar lib (cfg (prov y)) (contents (zone y)) n" "routedTo zones (zone y) (DNSName d)"
      using assms(1) y unfolding multi_invar_def by blast+
    moreover have "DNSName d = DNSName e" using invar_key [OF calculation(1) y(2)] epKey_inj [of d e] plain by blast
    ultimately have "zone y = zone ze" using routedTo_unique assms(4) by metis
    then show ?thesis using zone_unique [OF dist] y(1) assms(3) by blast
  qed
  have "multi_zone zones contents n (epKey e) = Some d \<longleftrightarrow> zoneOf (contents (zone ze) n) (epKey e) = Some d" for d
    unfolding multi_zone_Some [OF assms(1,2)] using only assms(3) by blast
  then show ?thesis by (metis not_None_eq)
qed

lemma multi_zone_effect:
  assumes dist: "distinct (map zone zones)" and cf: "conflict_free ch"
    and inv: "multi_invar lib zones contents n" "multi_invar lib zones contents n'" and acc: "multi_accepts lib zones contents n ch"
    and parts: "\<forall>ze \<in> set zones. zoneOf (contents (zone ze) n') =
        apply_spec (zonePart zones ch (zone ze)) (zoneOf (contents (zone ze) n))"
  shows "multi_zone zones contents n' = apply_spec ch (multi_zone zones contents n)"
proof (rule ext)
  fix k
  let ?z = "\<lambda>ze. zoneOf (contents (zone ze) n)" and ?z' = "\<lambda>ze. zoneOf (contents (zone ze) n')"
  show "multi_zone zones contents n' k = apply_spec ch (multi_zone zones contents n) k"
  proof (cases "\<exists>e \<in> operands ch. epKey e = k")
    case False
    then have "?z' ze k = ?z ze k" if "ze \<in> set zones" for ze
      using parts that part_elsewhere [OF cf, of k zones "zone ze" "?z ze"] by simp
    then have "multi_zone zones contents n' k = multi_zone zones contents n k"
      by (metis (no_types, lifting) multi_zone_Some [OF inv(1) dist] multi_zone_Some [OF inv(2) dist] not_None_eq)
    moreover have "apply_spec ch zm k = zm k" for zm
      using False by (intro apply_spec_other) blast
    ultimately show ?thesis by simp
  next
    case True
    then obtain e where e: "e \<in> operands ch" "epKey e = k" by blast
    from operand_zone [OF acc e] obtain ze where ze: "ze \<in> set zones"
        "\<forall>x \<in> operands ch. epKey x = k \<longrightarrow> routedTo zones (zone ze) (DNSName x)" "routedTo zones (zone ze) (DNSName e)"
      by blast
    have plain: "CHR ''|'' \<notin> set (RecordType e)" using acc e(1) by (auto simp: multi_accepts_def)
    have "multi_zone zones contents n' k = ?z' ze k" "multi_zone zones contents n k = ?z ze k"
      using multi_zone_at [OF _ dist ze(1,3) plain] inv e(2) by auto
    moreover have "?z' ze k = apply_spec ch (?z ze) k" using parts ze(1) part_here [OF cf ze(2), of "?z ze"] by simp
    ultimately show ?thesis using apply_spec_cong [of "?z ze" k "multi_zone zones contents n" ch] by simp
  qed
qed

lemma multi_apply_effect:
  assumes law: "multi_law lib net zones contents" and dist: "distinct (map zone zones)"
    and inv: "multi_invar lib zones contents n" and cf: "conflict_free ch" and acc: "multi_accepts lib zones contents n ch"
    and ap: "multi_ApplyChanges lib net zones n ch = (ws, err, n')"
  shows "multi_invar lib zones contents n' \<and> (\<forall>ze \<in> set zones. zone_outcome lib contents (zonePart zones ch) n n' ze)
    \<and> (err = None \<longrightarrow> multi_zone zones contents n' = apply_spec ch (multi_zone zones contents n))
    \<and> (multi_available lib net zones contents \<longrightarrow> err = None)"
proof -
  obtain ws0 bz where rt: "routeChanges zones ch = (ws0, bz)" by fastforce
  have bz: "map_of bz (zone ze) = Some (zonePart zones ch (zone ze))" if "ze \<in> set zones" for ze
    using routeChanges_zonePart [OF _ conflict_free_length [OF cf], of "zone ze" zones] that rt by simp
  have one: "\<forall>ze \<in> set zones. rfc_invar lib (cfg (prov ze)) (contents (zone ze)) n"
    "\<forall>ze \<in> set zones. rfc_accepts lib (cfg (prov ze)) (contents (zone ze)) n (zonePart zones ch (zone ze))"
    using inv acc by (simp_all add: multi_invar_def multi_accepts_def)
  have "dispatch lib net bz zones n ws0 = (ws, err, n')" using ap by (simp add: multi_ApplyChanges_def rt)
  from dispatch_updates [OF law dist subset_refl dist, where part = "zonePart zones ch", OF bz zonePart_conflict_free [OF cf] one this]
  have out: "\<forall>ze \<in> set zones. zone_outcome lib contents (zonePart zones ch) n n' ze"
    and new: "err = None \<Longrightarrow> \<forall>ze \<in> set zones. zoneOf (contents (zone ze) n') = apply_spec (zonePart zones ch (zone ze)) (zoneOf (contents (zone ze) n))"
    and av: "multi_available lib net zones contents \<longrightarrow> err = None"
    by blast+
  have inv': "multi_invar lib zones contents n'" by (rule multi_effect [OF cf inv acc out])
  show ?thesis using out av inv' multi_zone_effect [OF dist cf inv inv' acc new] by blast
qed

lemma multi_is_zone_provider:
  assumes law: "multi_law lib net zones contents" "multi_available lib net zones contents" and dist: "distinct (map zone zones)"
    and sched: "mset sched = mset [0..<length zones]"
  shows "zone_provider (multi_methods lib net sched zones) (multi_zone zones contents) (multi_invar lib zones contents)
    (multi_accepts lib zones contents)"
proof unfold_locales
  fix n assume inv: "multi_invar lib zones contents n"
  from multi_reads [OF law(1) dist sched inv prod.collapse [symmetric]] law(2)
  show "\<exists>eps. Records (multi_methods lib net sched zones) n = (Inr eps, n) \<and> zone_list (multi_zone zones contents n) eps"
    by (metis multi_methods_def prod.collapse provider.select_convs(1))
next
  fix n ch
  assume inv: "multi_invar lib zones contents n" and cf: "conflict_free ch" and acc: "multi_accepts lib zones contents n ch"
  obtain ws err n' where ap: "multi_ApplyChanges lib net zones n ch = (ws, err, n')" by (metis prod_cases3)
  from multi_apply_effect [OF law(1) dist inv cf acc ap] law(2) ap
  show "\<exists>s'. ApplyChanges (multi_methods lib net sched zones) n ch = (None, s') \<and> multi_invar lib zones contents s'
      \<and> multi_zone zones contents s' = apply_spec ch (multi_zone zones contents n)"
    by (simp add: multi_methods_def)
qed


text \<open>
  C10. Refinement of many zones: over servers that keep \<open>multi_law\<close>, with every record in the zone its name is
  routed to and a change set whose parts can be performed with plain messages, applying it zone by zone leaves
  each zone as it was or changed by exactly the part that is routed to it, whatever fails.  When it reports
  success, the union of the zones has changed by exactly the abstract effect of the whole change set.  A read that succeeds, in whatever order the
  zones are transferred, lists that union.  When the servers are available, both do succeed.
\<close>

theorem multi_refines_zone:
  assumes "multi_law lib net zones contents" and "distinct (map zone zones)" and "mset sched = mset [0..<length zones]"
    and "multi_invar lib zones contents n" and "conflict_free ch" and "multi_accepts lib zones contents n ch"
    and "multi_ApplyChanges lib net zones n ch = (ws, err, n')"
  shows "(\<forall>ze \<in> set zones. zoneOf (contents (zone ze) n') \<in>
        {zoneOf (contents (zone ze) n), apply_spec (zonePart zones ch (zone ze)) (zoneOf (contents (zone ze) n))})
    \<and> (err = None \<longrightarrow> multi_zone zones contents n' = apply_spec ch (multi_zone zones contents n))
    \<and> (\<forall>eps n''. multi_Records lib net sched zones n' = (Inr eps, n'') \<longrightarrow>
        n'' = n' \<and> zone_list (multi_zone zones contents n') eps)
    \<and> (multi_available lib net zones contents \<longrightarrow> err = None \<and> (\<exists>eps. multi_Records lib net sched zones n' = (Inr eps, n')))"
proof -
  note effect = multi_apply_effect [OF assms(1,2,4-7)]
  note reads = multi_reads [OF assms(1-3) effect [THEN conjunct1]]
  have "n'' = n' \<and> zone_list (multi_zone zones contents n') eps" if "multi_Records lib net sched zones n' = (Inr eps, n'')" for eps n''
    using reads [OF that] by blast
  moreover have "\<exists>eps. multi_Records lib net sched zones n' = (Inr eps, n')" if "multi_available lib net zones contents"
    using reads [OF prod.collapse [symmetric]] that by (metis prod.collapse)
  ultimately show ?thesis using effect unfolding zone_outcome_def by blast
qed

text \<open>An example: servers of two zones.\<close>

definition msgZone :: "msg \<Rightarrow> string" where
  "msgZone m = (case hd m of SetAxfr z \<Rightarrow> z | SetUpdate z \<Rightarrow> z | _ \<Rightarrow> [])"

definition ex_farm :: "('t, 'e, string \<Rightarrow> RR list) network" where
  "ex_farm = \<lparr>In = (\<lambda>_ m _ n. (Inr (Envelope (Inr (n (msgZone m))) Closed), n)),
     ExchangeContext = (\<lambda>_ m _ n. (Inr 0, n(msgZone m := serveL m (n (msgZone m))))), NowUnix = (\<lambda>_. 0)\<rparr>"

definition ex_zc :: "string \<Rightarrow> ZoneConfig" where
  "ex_zc z = \<lparr>zcHost = ''ns'', zcPort = 53, zcZone = z, zcTSIGKey = [], zcTSIGSecret = [], zcTSIGSecretFile = [],
     zcTSIGAlg = [], zcMinTTL = 0, zcTimeout = 0\<rparr>"

definition ex_multi :: "(dns_Transfer, dns_Client) multi_provider" where
  "ex_multi = NewMulti ex_lib [ex_zc ''ex'', ex_zc ''org'']"

lemma ex_multi_cfg:
  "ze \<in> set ex_multi \<Longrightarrow> zone ze = Fqdn ex_lib (Zone (cfg (prov ze))) \<and> TSIGKeyName (cfg (prov ze)) = [] \<and> MinTTL (cfg (prov ze)) = 0"
  by (auto simp: ex_multi_def NewMulti_def rfc2136_New_def zoneCfg_def ex_zc_def Let_def)

lemma ex_farm_server:
  assumes "TSIGKeyName (cfg p) = []"
  shows "server_law ex_lib ex_farm p (\<lambda>n. n (Fqdn ex_lib (Zone (cfg p))))"
proof -
  let ?z = "Fqdn ex_lib (Zone (cfg p))"
  have "carried_out (\<lambda>n. n ?z) m n (n(msgZone m := serveL m (n (msgZone m))))" if "acceptable ?z (set (n ?z)) m" for m n
  proof -
    have "msgZone m = ?z" using that by (auto simp: acceptable_def msgZone_def)
    then show ?thesis using readable_serve [OF acceptable_readable [OF that], of "set (n ?z)"]
      by (simp add: carried_out_def set_serveL)
  qed
  moreover have "RcodeSuccess ex_lib = 0" by (simp add: ex_lib_def)
  ultimately show ?thesis
    unfolding server_law_def using assms by (auto simp: ex_farm_def signMsg_def) (simp_all add: msgZone_def)
qed

lemma ex_farm_law: "multi_law ex_lib ex_farm ex_multi (\<lambda>z n. n z)"
proof -
  have "server_law ex_lib ex_farm (prov ze) (\<lambda>n. n (zone ze))" if "ze \<in> set ex_multi" for ze
    using ex_multi_cfg [OF that] ex_farm_server [of "prov ze"] by simp
  then show ?thesis
    unfolding multi_law_def using ex_multi_cfg by (auto simp: ex_farm_def msgZone_def)
qed

lemma ex_farm_available: "multi_available ex_lib ex_farm zones contents"
  by (simp add: multi_available_def available_def ex_farm_def) (simp add: ex_lib_def)

definition ex_multi_changes :: changes where
  "ex_multi_changes = \<lparr>Create = [ex_A ''a.ex'' ''10.0.0.1'', ex_A ''a.org'' ''10.0.0.1''], UpdateOld = [], UpdateNew = [], Delete = []\<rparr>"

lemma ex_multi_zones:
  "map zone ex_multi = [''ex.'', ''org.'']"
  "routedTo ex_multi z ''a.ex'' \<longleftrightarrow> z = ''ex.''" "routedTo ex_multi z ''a.org'' \<longleftrightarrow> z = ''org.''"
  by (auto simp: routedTo_def ex_multi_def NewMulti_def ex_zc_def ex_lib_def zoneFor_def zoneForStep_def zoneMatches_def zoneName_def
      TrimSuffix_def HasSuffix_def)

lemma ex_multi_part:
  "zonePart ex_multi ex_multi_changes ''ex.'' = no_changes\<lparr>Create := [ex_A ''a.ex'' ''10.0.0.1'']\<rparr>"
  "zonePart ex_multi ex_multi_changes ''org.'' = no_changes\<lparr>Create := [ex_A ''a.org'' ''10.0.0.1'']\<rparr>"
  by (simp_all add: zonePart_def ex_multi_changes_def ex_multi_zones ex_A_def no_changes_def)

lemma ex_one_plain:
  assumes "zn = ''ex.'' \<and> nm = ''a.ex.'' \<or> zn = ''org.'' \<and> nm = ''a.org.''"
  shows "acceptable zn {} [SetUpdate zn, InsertRRs [RR_A (ex_hdr nm 1) [10, 0, 0, 1]]]"
    "sendable [SetUpdate zn, InsertRRs [RR_A (ex_hdr nm 1) [10, 0, 0, 1]]]"
proof -
  have "ToLower ''a.ex.'' = ''a.ex.''" "ToLower ''a.org.'' = ''a.org.''" by code_simp+
  then show "acceptable zn {} [SetUpdate zn, InsertRRs [RR_A (ex_hdr nm 1) [10, 0, 0, 1]]]"
    using assms by (auto simp: acceptable_def removedRRs_def insertedRRs_def inZone_def HasSuffix_def ex_hdr_def)
  have "sendable [SetUpdate ''ex.'', InsertRRs [RR_A (ex_hdr ''a.ex.'' 1) [10, 0, 0, 1]]]"
    "sendable [SetUpdate ''org.'', InsertRRs [RR_A (ex_hdr ''a.org.'' 1) [10, 0, 0, 1]]]" by code_simp+
  then show "sendable [SetUpdate zn, InsertRRs [RR_A (ex_hdr nm 1) [10, 0, 0, 1]]]" using assms by auto
qed

lemma ex_one_accepted:
  assumes "zn = ''ex'' \<and> nm = ''a.ex'' \<or> zn = ''org'' \<and> nm = ''a.org''" and "Fqdn ex_lib (Zone c) = zn @ ''.''" "MinTTL c = 0"
  shows "rfc_accepts ex_lib c (\<lambda>n. n z) (\<lambda>_. []) (no_changes\<lparr>Create := [ex_A nm ''10.0.0.1'']\<rparr>)"
proof -
  let ?w = "ex_A nm ''10.0.0.1''"
  have "publishable c ?w"
    using assms(1,3) by (auto simp: publishable_def plain_name_def no_escape_def canonical_def ex_A_def ex_target_ok HasSuffix_def)
  then have "faithful ex_lib c ?w" using publishable_faithful [OF ex_lib_law] assms(3) by simp
  moreover have "fits ex_lib c (zoneOf []) ?w" by (rule fits_None) (simp add: zoneOf_def List.map_filter_def)
  ultimately have perf: "performable ex_lib c (zoneOf []) (no_changes\<lparr>Create := [?w]\<rparr>)" by (simp add: performable_def no_changes_def)
  have "endpointToRRs ex_lib c ?w = Inr [RR_A (rrHeader ex_lib c ?w) [10, 0, 0, 1]]"
    by (simp add: endpointToRRs_def targetToRR_def ex_A_def ex_target)
  moreover have "Fqdn ex_lib nm = nm @ ''.''" using assms(1) by (auto simp: ex_lib_def HasSuffix_def)
  ultimately have "snd (buildUpdate ex_lib c (no_changes\<lparr>Create := [?w]\<rparr>)) =
      [SetUpdate (zn @ ''.''), InsertRRs [RR_A (ex_hdr (nm @ ''.'') 1) [10, 0, 0, 1]]]"
    using assms(2) by (simp add: buildUpdate_def createStep_def ex_header [OF assms(3)])
  then show ?thesis
    using perf assms(1,2) ex_one_plain [of "zn @ ''.''" "nm @ ''.''"] by (auto simp: rfc_accepts_def)
qed

lemma ex_multi_accepted: "multi_accepts ex_lib ex_multi (\<lambda>z n. n z) (\<lambda>_. []) ex_multi_changes"
proof -
  have "rfc_accepts ex_lib (cfg (prov ze)) (\<lambda>n. n (zone ze)) (\<lambda>_. []) (zonePart ex_multi ex_multi_changes (zone ze))"
    if ze: "ze \<in> set ex_multi" for ze
  proof -
    have "zone ze \<in> set (map zone ex_multi)" using ze by simp
    then consider "zone ze = ''ex.''" | "zone ze = ''org.''" unfolding ex_multi_zones by auto
    then show ?thesis
    proof cases
      case 1
      then show ?thesis
        unfolding 1 ex_multi_part using ex_multi_cfg [OF ze] 1 by (intro ex_one_accepted [of "''ex''"]) simp_all
    next
      case 2
      then show ?thesis
        unfolding 2 ex_multi_part using ex_multi_cfg [OF ze] 2 by (intro ex_one_accepted [of "''org''"]) simp_all
    qed
  qed
  moreover have "zoneFor ex_multi ''a.ex'' \<noteq> None" "zoneFor ex_multi ''a.org'' \<noteq> None"
    using routedTo_Some ex_multi_zones(2,3) by blast+
  ultimately show ?thesis by (auto simp: multi_accepts_def operands_def ex_multi_changes_def ex_A_def)
qed

theorem multi_refines_zone_witness:
  "\<exists>ws n' eps. multi_ApplyChanges ex_lib ex_farm ex_multi (\<lambda>_. []) ex_multi_changes = (ws, None, n')
     \<and> multi_Records ex_lib ex_farm [1, 0] ex_multi n' = (Inr eps, n') \<and> ex_A ''a.org'' ''10.0.0.1'' \<in> set eps"
proof -
  let ?w = "ex_A ''a.org'' ''10.0.0.1''" and ?n = "(\<lambda>_. []) :: string \<Rightarrow> RR list"
  have none: "zoneOf [] k = None" for k by (simp add: zoneOf_def List.map_filter_def)
  have inv: "multi_invar ex_lib ex_multi (\<lambda>z n. n z) ?n"
    using ex_absz by (simp add: multi_invar_def rfc_invar_def none)
  have free: "conflict_free ex_multi_changes" by (simp add: conflict_free_def ex_multi_changes_def)
  have "length ex_multi = 2" by (simp add: ex_multi_def NewMulti_def)
  then have sched: "mset [1, 0] = mset [0..<length ex_multi]" by (simp add: upt_rec)
  have dist: "distinct (map zone ex_multi)" by (simp add: ex_multi_zones)
  obtain ws err n' where ap: "multi_ApplyChanges ex_lib ex_farm ex_multi ?n ex_multi_changes = (ws, err, n')" by (metis prod_cases3)
  note all = multi_refines_zone [OF ex_farm_law dist sched inv free ex_multi_accepted ap]
  have err: "err = None" using all ex_farm_available by blast
  obtain eps where eps: "multi_Records ex_lib ex_farm [1, 0] ex_multi n' = (Inr eps, n')" using all ex_farm_available by blast
  have "zone_list (apply_spec ex_multi_changes (multi_zone ex_multi (\<lambda>z n. n z) ?n)) eps" using all err eps by metis
  moreover have "apply_spec ex_multi_changes zm (epKey ?w) = Some ?w" for zm
    by (simp add: apply_spec_def ex_multi_changes_def)
  ultimately have "?w \<in> set eps" using zone_list_mem by blast
  then show ?thesis using ap err eps by blast
qed

end
