(* ===== verification/ManagedZones.thy ===== *)
theory ManagedZones
  imports MultiZoneServer
begin

text \<open>
  Zones a cycle can settle.  The contract \<open>zone_provider\<close> of the two RFC 2136 providers speaks of change
  sets that can be performed and of messages the servers accept.  Here both are derived for the plans of
  the program, from conditions on the data alone: the wanted records, what the zones hold, and how
  the zones are configured.  So one cycle settles one zone or many.
\<close>


section \<open>Conditions on the data\<close>

text \<open>
  What the plan can work with: no name with two record types, names without escapes, and no ownership record
  of another owner.
\<close>

definition plannable :: "plan \<Rightarrow> endpoint list \<Rightarrow> endpoint list \<Rightarrow> bool" where
  "plannable p desired cur \<longleftrightarrow> tidy desired cur \<and> (\<forall>h \<in> set cur. plain_name (DNSName h))
     \<and> (\<forall>h \<in> set cur. isOwnershipTXT h \<longrightarrow> Targets h = [ownershipValue (ownerID p)])"

text \<open>The records a plan may write: the desired ones and their ownership records.\<close>

definition wanted :: "plan \<Rightarrow> endpoint list \<Rightarrow> endpoint set" where
  "wanted p desired = set desired \<union> (\<lambda>w. ownershipTXTFor p (DNSName w)) ` set desired"

text \<open>
  A zone that takes the records \<open>ws\<close> beside the records \<open>z\<close> it has: names and CNAME targets in lower case, and no
  CNAME at a name that has another record.
\<close>

definition zone_takes :: "dns_lib \<Rightarrow> RR set \<Rightarrow> endpoint set \<Rightarrow> bool" where
  "zone_takes lib z ws \<longleftrightarrow>
     (\<forall>r \<in> z. lowerRR r) \<and> (\<forall>w \<in> ws. ToLower (DNSName w) = DNSName w
        \<and> (RecordType w = RecordTypeCNAME \<longrightarrow> (\<forall>t \<in> set (Targets w). ToLower (Fqdn lib t) = Fqdn lib t)))
   \<and> (\<forall>a \<in> z. \<forall>b \<in> z. rrName a = rrName b \<and> is_CNAME a \<longrightarrow> is_CNAME b)
   \<and> (\<forall>r \<in> z. \<forall>w \<in> ws. rrName r = Fqdn lib (DNSName w) \<longrightarrow> (is_CNAME r \<longleftrightarrow> RecordType w = RecordTypeCNAME))
   \<and> (\<forall>v \<in> ws. \<forall>w \<in> ws. DNSName v = DNSName w \<and> RecordType v = RecordTypeCNAME \<longrightarrow> RecordType w = RecordTypeCNAME)"

lemma lowerRR_name: "lowerRR r \<Longrightarrow> ToLower (rrName r) = rrName r"
  by (cases r) auto

lemma sameRR_lower: "sameRR x r \<Longrightarrow> lowerRR x \<longleftrightarrow> lowerRR r"
  by (cases "(x, r)" rule: sameRR.cases) auto

lemma zone_takes_fewer: "zone_takes lib z ws \<Longrightarrow> ws' \<subseteq> ws \<Longrightarrow> zone_takes lib z ws'"
  unfolding zone_takes_def by (meson subsetD)


section \<open>The records of a message\<close>

lemma targetToRR_CNAME: "targetToRR lib c e t = Inr r \<Longrightarrow> is_CNAME r \<longleftrightarrow> RecordType e = RecordTypeCNAME"
  by (auto simp: targetToRR_def split: if_splits option.splits)

lemma endpointToRRs_mem:
  assumes "endpointToRRs lib c e = Inr rrs" "r \<in> set rrs"
  shows "rrName r = Fqdn lib (DNSName e)" "is_CNAME r \<longleftrightarrow> RecordType e = RecordTypeCNAME"
proof -
  obtain t where "targetToRR lib c e t = Inr r"
    using assms unfolding endpointToRRs_Inr by (auto simp: in_set_conv_nth list_all2_conv_all_nth)
  then show "rrName r = Fqdn lib (DNSName e)" "is_CNAME r \<longleftrightarrow> RecordType e = RecordTypeCNAME"
    using targetToRR_header targetToRR_CNAME by (simp_all add: rrHeader_def)
qed

lemma set_removedRRs: "r \<in> set (removedRRs m) \<longleftrightarrow> (\<exists>rrs. RemoveRRs rrs \<in> set m \<and> r \<in> set rrs)"
  by (induction m) (auto simp: removedRRs_def split: msg_call.splits)

lemma set_insertedRRs: "r \<in> set (insertedRRs m) \<longleftrightarrow> (\<exists>rrs. InsertRRs rrs \<in> set m \<and> r \<in> set rrs)"
  by (induction m) (auto simp: insertedRRs_def split: msg_call.splits)

lemma inserted_calls [simp]:
  "InsertRRs rrs \<in> set (createCalls lib c e) \<longleftrightarrow> endpointToRRs lib c e = Inr rrs"
  "InsertRRs rrs \<notin> set (deleteCalls lib c e)"
  "InsertRRs rrs \<in> set (updateCalls lib c hw) \<longleftrightarrow>
     (\<exists>rs. endpointToRRs lib c (fst hw) = Inr rs) \<and> endpointToRRs lib c (snd hw) = Inr rrs"
  by (auto simp: deleteCalls_def createCalls_def) (auto simp: createCalls_def updateCalls_def split: sum.splits dest: sym)

lemma inserted_from:
  assumes "length (UpdateOld ch) = length (UpdateNew ch)"
    and "InsertRRs rrs \<in> set (snd (buildUpdate lib c ch))"
  shows "\<exists>e \<in> set (Create ch) \<union> set (UpdateNew ch). endpointToRRs lib c e = Inr rrs"
  using assms(2) unfolding buildUpdate_calls [OF assms(1)] by (fastforce dest: set_zip_rightD)

lemma plain_Fqdn: "fqdn_law lib \<Longrightarrow> plain_name n \<Longrightarrow> Fqdn lib n = n @ ''.''"
  by (simp add: fqdn_law_def plain_name_def)

lemma ToLower_Fqdn:
  "fqdn_law lib \<Longrightarrow> plain_name n \<Longrightarrow> ToLower (Fqdn lib n) = Fqdn lib n \<longleftrightarrow> ToLower n = n"
  by (simp add: plain_Fqdn ToLower_def lower_byte_def)

lemma targetToRR_lower:
  "targetToRR lib c e t = Inr r \<Longrightarrow> ToLower (Fqdn lib (DNSName e)) = Fqdn lib (DNSName e) \<Longrightarrow>
    (RecordType e = RecordTypeCNAME \<Longrightarrow> ToLower (Fqdn lib t) = Fqdn lib t) \<Longrightarrow> lowerRR r"
  by (auto simp: targetToRR_def rrHeader_def split: if_splits option.splits)

lemma targetToRR_readable: "targetToRR lib c e t = Inr r \<Longrightarrow> rrToEndpoint r \<noteq> None"
  by (auto simp: targetToRR_def split: if_splits option.splits)

lemma records_lower:
  assumes "endpointToRRs lib c e = Inr rrs" "r \<in> set rrs" "fqdn_law lib" "plain_name (DNSName e)" "ToLower (DNSName e) = DNSName e"
    and "RecordType e = RecordTypeCNAME \<longrightarrow> (\<forall>t \<in> set (Targets e). ToLower (Fqdn lib t) = Fqdn lib t)"
  shows "lowerRR r"
proof -
  obtain t where t: "t \<in> set (Targets e)" "targetToRR lib c e t = Inr r" using endpointToRRs_target [OF assms(1,2)] by blast
  then show ?thesis using targetToRR_lower [OF t(2)] ToLower_Fqdn [OF assms(3,4)] assms(5,6) by blast
qed

text \<open>A record that was read is written in lower case when the zone is.\<close>

lemma current_lower:
  assumes "absz lib c z zm" "zm (epKey h) = Some h" "\<forall>r \<in> z. lowerRR r" "endpointToRRs lib c h = Inr rrs" "r \<in> set rrs"
  shows "lowerRR r"
proof -
  obtain g where g: "g \<in> z" "rrToEndpoint g = Some h" using assms(1,2) unfolding absz_def by metis
  then obtain x where "endpointToRRs lib c h = Inr [x]" "sameRR x g" using assms(1) unfolding absz_def good_def by blast
  then show ?thesis using sameRR_lower assms(3-5) g(1) by auto
qed

lemma companion_lower:
  assumes "fqdn_law lib" "plain_name n" "ToLower n = n" "endpointToRRs lib c (ownershipTXTFor p n) = Inr rrs" "r \<in> set rrs"
  shows "lowerRR r"
proof -
  have "plain_name (ownershipName n)"
    using companion_publishable [OF assms(2), of "undefined\<lparr>MinTTL := 0\<rparr>"] by (simp add: publishable_def)
  moreover have "ToLower ownerPrefix = ownerPrefix" by code_simp
  then have "ToLower (ownershipName n) = ownershipName n" using assms(3) by (simp add: ownershipName_def ToLower_def)
  ultimately show ?thesis using records_lower [OF assms(4,5,1)] by simp
qed

text \<open>
  What a performable change set inserts meets at its name and type only records with the same data, or records that the
  same message removes.
\<close>

lemma inserted_record:
  assumes cf: "conflict_free ch" and perf: "performable lib c zm ch" and x: "x \<in> set (insertedRRs (snd (buildUpdate lib c ch)))"
  shows "\<exists>e \<in> set (Create ch) \<union> set (UpdateNew ch). endpointToRRs lib c e = Inr [x] \<and> rrToEndpoint x = Some e"
proof -
  obtain e rrs where e: "e \<in> set (Create ch) \<union> set (UpdateNew ch)" "endpointToRRs lib c e = Inr rrs" "x \<in> set rrs"
    using x inserted_from conflict_free_length [OF cf] unfolding set_insertedRRs by blast
  then have "faithful lib c e" using perf by (auto simp: performable_def)
  then show ?thesis using e by (auto simp: faithful_def)
qed

lemma removed_old:
  assumes "conflict_free ch" and "h \<in> set (UpdateOld ch)" "endpointToRRs lib c h = Inr rrs"
  shows "set rrs \<subseteq> set (removedRRs (snd (buildUpdate lib c ch)))"
proof -
  note len = conflict_free_length [OF assms(1)]
  obtain w where "(h, w) \<in> set (zip (UpdateOld ch) (UpdateNew ch))"
    using in_set_impl_in_set_zip1 [OF len assms(2)] by blast
  moreover have "RemoveRRs rrs \<in> set (updateCalls lib c (h, w))" using assms(3) by simp
  ultimately have "RemoveRRs rrs \<in> set (snd (buildUpdate lib c ch))"
    unfolding buildUpdate_calls [OF len] by (auto intro!: bexI [of _ "(h, w)"])
  then show ?thesis using set_removedRRs by blast
qed

lemma performable_sets:
  assumes z: "absz lib c z zm" and cf: "conflict_free ch" and perf: "performable lib c zm ch"
    and x: "x \<in> set (insertedRRs (snd (buildUpdate lib c ch)))" and same: "sameSet x r"
  shows "r \<in> set (insertedRRs (snd (buildUpdate lib c ch))) \<Longrightarrow> sameRR x r"
    and "r \<in> z \<Longrightarrow> sameRR x r \<or> (\<exists>y \<in> set (removedRRs (snd (buildUpdate lib c ch))). sameRR y r)"
proof -
  obtain e where e: "e \<in> set (Create ch) \<union> set (UpdateNew ch)" "endpointToRRs lib c e = Inr [x]" "rrToEndpoint x = Some e"
    using inserted_record [OF cf perf x] by blast
  obtain g where g: "rrToEndpoint r = Some g" "epKey g = epKey e" using sameSet_key [OF same] e(3) by auto
  have inj: "inj_on epKey (set (Create ch))" "inj_on epKey (set (UpdateNew ch))" "epKey ` set (Create ch) \<inter> epKey ` set (UpdateNew ch) = {}"
    using perf cf by (auto simp: performable_def distinct_map conflict_free_def)
  show "sameRR x r" if r: "r \<in> set (insertedRRs (snd (buildUpdate lib c ch)))"
  proof -
    obtain d where d: "d \<in> set (Create ch) \<union> set (UpdateNew ch)" "endpointToRRs lib c d = Inr [r]" "rrToEndpoint r = Some d"
      using inserted_record [OF cf perf r] by blast
    then have "d = g" using g(1) by simp
    then have "d = e" using d(1) e(1) g(2) inj by (auto dest: inj_onD)
    then show ?thesis using d(2) e(2) sameRR_refl [OF e(3)] by simp
  qed
  show "sameRR x r \<or> (\<exists>y \<in> set (removedRRs (snd (buildUpdate lib c ch))). sameRR y r)" if r: "r \<in> z"
  proof (cases "e \<in> set (Create ch)")
    case True
    then have "fits lib c zm e" using perf by (simp add: performable_def)
    then show ?thesis using fits_same [OF z e(2,3) refl _ r same] by blast
  next
    case False
    then have "epKey e \<in> epKey ` set (UpdateNew ch)" using e(1) by blast
    then have "epKey e \<in> set (map epKey (UpdateOld ch))" using cf by (simp add: conflict_free_def)
    then obtain h where h: "h \<in> set (UpdateOld ch)" "epKey h = epKey e" by auto
    then have "zm (epKey e) = Some h" using perf unfolding performable_def by metis
    then have "g = h" using z r g unfolding absz_def by (metis option.inject)
    then obtain y where "endpointToRRs lib c h = Inr [y]" "sameRR y r" using z r g(1) unfolding absz_def good_def by blast
    then show ?thesis using removed_old [OF cf h(1)] by fastforce
  qed
qed

lemma changes_acceptable:
  assumes law: "fqdn_law lib" and zn: "zn = Fqdn lib (Zone c)" and takes: "zone_takes lib z ws"
    and z: "absz lib c z zm" and cf: "conflict_free ch" and perf: "performable lib c zm ch"
    and ins: "\<forall>e \<in> set (Create ch) \<union> set (UpdateNew ch). e \<in> ws \<and> plain_name (DNSName e)"
    and del: "\<And>e rrs r. e \<in> set (Delete ch) \<union> set (UpdateOld ch) \<Longrightarrow> endpointToRRs lib c e = Inr rrs \<Longrightarrow> r \<in> set rrs \<Longrightarrow> lowerRR r"
    and here: "\<forall>e \<in> operands ch. inZone zn (Fqdn lib (DNSName e))"
  shows "acceptable zn z (snd (buildUpdate lib c ch))"
proof -
  let ?m = "snd (buildUpdate lib c ch)"
  note mem = endpointToRRs_mem [of lib c] and len = conflict_free_length [OF cf]
  have rem: "inZone zn (rrName r) \<and> lowerRR r \<and> rrToEndpoint r \<noteq> None" if r: "r \<in> set (removedRRs ?m)" for r
  proof -
    obtain e rrs where e: "e \<in> set (Delete ch) \<union> set (UpdateOld ch)" "endpointToRRs lib c e = Inr rrs" "r \<in> set rrs"
      using r removed_from [OF len] unfolding set_removedRRs by blast
    then have "inZone zn (Fqdn lib (DNSName e))" using here by (auto simp: operands_def)
    then show ?thesis using mem(1) [OF e(2,3)] del [OF e] endpointToRRs_target [OF e(2,3)] targetToRR_readable by metis
  qed
  have new: "\<exists>w \<in> ws. plain_name (DNSName w) \<and> rrName r = Fqdn lib (DNSName w) \<and> (is_CNAME r \<longleftrightarrow> RecordType w = RecordTypeCNAME)"
    "inZone zn (rrName r) \<and> lowerRR r \<and> rrToEndpoint r \<noteq> None" if r: "r \<in> set (insertedRRs ?m)" for r
  proof -
    obtain e where e: "e \<in> set (Create ch) \<union> set (UpdateNew ch)" "endpointToRRs lib c e = Inr [r]" "rrToEndpoint r = Some e"
      using inserted_record [OF cf perf r] by blast
    then have w: "e \<in> ws" "plain_name (DNSName e)" "inZone zn (Fqdn lib (DNSName e))" using ins here by (auto simp: operands_def)
    have "lowerRR r"
      by (rule records_lower [OF e(2) _ law w(2)]) (use takes w(1) in \<open>auto simp: zone_takes_def\<close>)
    then show "inZone zn (rrName r) \<and> lowerRR r \<and> rrToEndpoint r \<noteq> None" using w(3) mem(1) [OF e(2)] e(3) by simp
    show "\<exists>w \<in> ws. plain_name (DNSName w) \<and> rrName r = Fqdn lib (DNSName w) \<and> (is_CNAME r \<longleftrightarrow> RecordType w = RecordTypeCNAME)"
      using w(1,2) mem [OF e(2)] by (intro bexI [of _ e]) simp_all
  qed
  have apart: "is_CNAME b" if "a \<in> z \<union> set (insertedRRs ?m)" "b \<in> z \<union> set (insertedRRs ?m)" "rrName a = rrName b" "is_CNAME a" for a b
  proof -
    have old: "is_CNAME r \<longleftrightarrow> RecordType w = RecordTypeCNAME" if "r \<in> z" "w \<in> ws" "rrName r = Fqdn lib (DNSName w)" for r w
      using takes that unfolding zone_takes_def by blast
    have two: "RecordType w = RecordTypeCNAME" if "v \<in> ws" "w \<in> ws" "plain_name (DNSName v)" "plain_name (DNSName w)"
        "Fqdn lib (DNSName v) = Fqdn lib (DNSName w)" "RecordType v = RecordTypeCNAME" for v w
      using takes that plain_Fqdn [OF law] unfolding zone_takes_def by (metis append_same_eq)
    have "is_CNAME b" if "a \<in> z" "b \<in> z" using takes that \<open>rrName a = rrName b\<close> \<open>is_CNAME a\<close> unfolding zone_takes_def by blast
    then show ?thesis using that new(1) [of a] new(1) [of b] old two by (metis Un_iff)
  qed
  have form: "\<exists>us. ?m = SetUpdate zn # us \<and> (\<forall>u \<in> set us. \<exists>rrs. u = RemoveRRs rrs \<or> u = InsertRRs rrs)"
    unfolding buildUpdate_calls [OF len] zn
    by (auto simp: deleteCalls_def updateCalls_def createCalls_def split: sum.splits)
  have low: "\<forall>r \<in> z. lowerRR r" using takes by (simp add: zone_takes_def)
  show ?thesis
    unfolding acceptable_def
    using form rem new(2) low apart performable_sets [OF z cf perf] by (intro conjI) (simp_all, blast+)
qed


section \<open>The plan for one zone\<close>

lemma companion_inZone:
  assumes "fqdn_law lib" "plain_name n" "inZone zn (Fqdn lib n)"
  shows "inZone zn (Fqdn lib (ownershipName n))"
proof -
  have o: "ownershipName n = ''external-dns-docker-owner'' @ ''.'' @ n" by (simp add: ownershipName_def ownerPrefix_def)
  have "plain_name (ownershipName n)" using companion_publishable [OF assms(2), of "undefined\<lparr>MinTTL := 0\<rparr>"]
    by (simp add: publishable_def)
  then have "Fqdn lib (ownershipName n) = ''external-dns-docker-owner'' @ ''.'' @ Fqdn lib n"
    using assms(1,2) plain_Fqdn o by simp
  then show ?thesis
    using assms(3) suffix_after_label [of "''external-dns-docker-owner''" "Fqdn lib n" zn] by (auto simp: inZone_def)
qed

lemma plain_ownershipName: "plain_name n \<Longrightarrow> plain_name (ownershipName n)"
  using companion_publishable [of n "undefined\<lparr>MinTTL := 0\<rparr>"] by (simp add: publishable_def)

lemma lower_ownershipName: "ToLower n = n \<Longrightarrow> ToLower (ownershipName n) = ownershipName n"
proof -
  have "ToLower ownerPrefix = ownerPrefix" by code_simp
  then show "ToLower n = n \<Longrightarrow> ToLower (ownershipName n) = ownershipName n" by (simp add: ownershipName_def ToLower_def)
qed

text \<open>The name of a record that was read is the name of a record in the zone.\<close>

lemma zone_name:
  assumes "absz lib c z zm" "zm (epKey h) = Some h"
  shows "\<exists>r \<in> z. rrName r = Fqdn lib (DNSName h)"
proof -
  obtain r where r: "r \<in> z" "rrToEndpoint r = Some h" using assms unfolding absz_def by metis
  then obtain x where x: "endpointToRRs lib c h = Inr [x]" "sameRR x r" using assms(1) unfolding absz_def good_def by blast
  then have "rrName x = rrName r" by (cases "(x, r)" rule: sameRR.cases) auto
  then show ?thesis using endpointToRRs_mem(1) [OF x(1)] r(1) by auto
qed

text \<open>Where the operands of a plan come from.\<close>

lemma plan_inserts:
  assumes "range_ok rd" "e \<in> set (Create (Calculate rd rc p desired cur)) \<union> set (UpdateNew (Calculate rd rc p desired cur))"
  shows "e \<in> wanted p desired"
  using assms by (auto simp: mem_Create mem_UpdateNew wanted_def dest: effective_mem)

lemma plan_removes:
  assumes "range_ok rd" "range_ok rc"
    and "e \<in> set (Delete (Calculate rd rc p desired cur)) \<union> set (UpdateOld (Calculate rd rc p desired cur))"
  shows "\<exists>h \<in> set cur. e = h \<or> e = ownershipTXTFor p (DNSName h)"
  using assms by (auto simp: mem_Delete mem_UpdateOld dest: effective_records)

lemma wanted_plain: "\<forall>w \<in> set desired. plain_name (DNSName w) \<Longrightarrow> e \<in> wanted p desired \<Longrightarrow> plain_name (DNSName e)"
  by (auto simp: wanted_def plain_ownershipName)

lemma plan_acceptable:
  assumes law: "fqdn_law lib" and z: "absz lib c z zm" and cur: "zone_list zm cur" and pl: "plannable p desired cur"
    and r: "range_ok rd" "range_ok rc" and want: "\<forall>w \<in> set desired. plain_name (DNSName w)"
    and perf: "performable lib c zm (Calculate rd rc p desired cur)"
    and takes: "zone_takes lib z (wanted p desired)"
    and home: "\<forall>w \<in> set desired. inZone (Fqdn lib (Zone c)) (Fqdn lib (DNSName w))"
      "\<forall>r \<in> z. inZone (Fqdn lib (Zone c)) (rrName r)"
  shows "acceptable (Fqdn lib (Zone c)) z (snd (buildUpdate lib c (Calculate rd rc p desired cur)))"
proof -
  let ?ch = "Calculate rd rc p desired cur" and ?in = "\<lambda>n. inZone (Fqdn lib (Zone c)) (Fqdn lib n)"
  have cf: "conflict_free ?ch" using tidy_conflict_free pl r unfolding plannable_def by blast
  have low: "\<forall>r \<in> z. lowerRR r" using takes by (simp add: zone_takes_def)
  have old: "plain_name (DNSName h) \<and> ?in (DNSName h) \<and> ToLower (DNSName h) = DNSName h \<and> zm (epKey h) = Some h"
    if h: "h \<in> set cur" for h
  proof -
    have n: "plain_name (DNSName h)" using pl h by (auto simp: plannable_def)
    have at: "zm (epKey h) = Some h" using h zone_list_mem [OF cur] by blast
    obtain r where r: "r \<in> z" "rrName r = Fqdn lib (DNSName h)" using zone_name [OF z at] by blast
    then have "ToLower (Fqdn lib (DNSName h)) = Fqdn lib (DNSName h)" using low lowerRR_name by metis
    then show ?thesis using n r home(2) ToLower_Fqdn [OF law n] at by metis
  qed
  have new: "e \<in> wanted p desired \<and> plain_name (DNSName e) \<and> ?in (DNSName e)"
    if "e \<in> set (Create ?ch) \<union> set (UpdateNew ?ch)" for e
  proof -
    have e: "e \<in> wanted p desired" using plan_inserts [OF r(1) that] .
    then have "?in (DNSName e)" using home(1) want companion_inZone [OF law] by (auto simp: wanted_def)
    with e show ?thesis using wanted_plain [OF want] by blast
  qed
  show ?thesis
  proof (rule changes_acceptable [OF law refl takes z cf perf])
    show "\<forall>e \<in> set (Create ?ch) \<union> set (UpdateNew ?ch). e \<in> wanted p desired \<and> plain_name (DNSName e)"
      using new by blast
  next
    fix e rrs x assume e: "e \<in> set (Delete ?ch) \<union> set (UpdateOld ?ch)" "endpointToRRs lib c e = Inr rrs" "x \<in> set rrs"
    obtain h where h: "h \<in> set cur" "e = h \<or> e = ownershipTXTFor p (DNSName h)" using plan_removes [OF r e(1)] by blast
    note o = old [OF h(1)]
    show "lowerRR x"
      using h(2) current_lower [OF z _ low e(2,3)] companion_lower [OF law, of "DNSName h" c p rrs x] o e(2,3) by blast
  next
    show "\<forall>e \<in> operands ?ch. ?in (DNSName e)"
    proof
      fix e assume "e \<in> operands ?ch"
      then consider "e \<in> set (Create ?ch) \<union> set (UpdateNew ?ch)" | h where "h \<in> set cur" "e = h \<or> e = ownershipTXTFor p (DNSName h)"
        unfolding operands_def using plan_removes [OF r] by blast
      then show "?in (DNSName e)" using new old companion_inZone [OF law] by cases auto
    qed
  qed
qed

text \<open>
  A published record read back from a zone is the desired one, and the zone has a record for it.
\<close>

lemma read_equals:
  assumes "rrToEndpoint r = Some h" "epKey h = epKey w" "endpointsEqual h w" "publishable c w" "CHR ''|'' \<notin> set (RecordType w)"
  shows "h = w"
proof (rule endpoint.equality)
  have "CHR ''|'' \<notin> set (RecordType h)" "Labels h = []" using assms(1) by (cases r; auto)+
  then show "DNSName h = DNSName w" "RecordType h = RecordType w" "Labels h = Labels w"
    using epKey_inj [OF assms(2)] assms(4,5) by (simp_all add: publishable_def)
  show "TTL h = TTL w" using assms(3) by (simp add: endpointsEqual_iff)
  show "Targets h = Targets w" using assms(3,4) by (auto simp: endpointsEqual_iff publishable_def)
qed simp_all

lemma published_there:
  assumes z: "absz lib c (set rrs) (zoneOf rrs)" and cur: "zoneOf rrs (epKey w) = Some h" and eq: "endpointsEqual h w"
    and w: "publishable c w" "CHR ''|'' \<notin> set (RecordType w)"
  shows "h = w \<and> (\<exists>r \<in> set rrs. rrToEndpoint r = Some w)"
proof -
  obtain r where r: "r \<in> set rrs" "rrToEndpoint r = Some h" "epKey h = epKey w" using z cur unfolding absz_def by blast
  then show ?thesis using read_equals [OF r(2,3) eq w] by blast
qed

text \<open>
  One zone: over an available server that keeps \<open>server_law\<close>, when the desired endpoints can be written unchanged, the
  zone takes them, nobody else's record is in the way and the message can be sent, one cycle of the controller
  succeeds and the zone has what is desired; the next cycle, with the same desired endpoints, sends no update and
  leaves the server as it is.
\<close>

lemma rfc2136_cycle_settles:
  assumes law: "fqdn_law lib" "server_law lib net p contents" "available lib net p contents"
    and src: "Endpoints src (ctlSource ctl) = (Inr desired, ctlSource ctl)"
    and z: "absz lib (cfg p) (set (contents (ctlProvider ctl))) (zoneOf (contents (ctlProvider ctl)))"
    and cur: "fst (rfc2136_Records lib net p (ctlProvider ctl)) = Inr cur" and pl: "plannable (ctlPlan ctl) desired cur"
    and free: "unclaimed (ctlPlan ctl) desired cur"
    and r: "range_ok rd" "range_ok rc" "range_ok rd'" "range_ok rc'"
    and ttl: "MinTTL (cfg p) \<le> 300" and want: "\<forall>w \<in> set desired. publishable (cfg p) w"
    and takes: "zone_takes lib (set (contents (ctlProvider ctl))) (wanted (ctlPlan ctl) desired)"
    and home: "\<forall>w \<in> set desired. inZone (Fqdn lib (Zone (cfg p))) (Fqdn lib (DNSName w))"
      "\<forall>r \<in> set (contents (ctlProvider ctl)). inZone (Fqdn lib (Zone (cfg p))) (rrName r)"
    and send: "sendable (snd (buildUpdate lib (cfg p) (Calculate rd rc (ctlPlan ctl) desired cur)))"
    and dry: "\<not> DryRun (ctlCfg ctl)"
  shows "let (err1, c1) = reconcile src (rfc2136_methods lib net p) rd rc ctl;
             (err2, c2) = reconcile src (rfc2136_methods lib net p) rd' rc' c1
         in err1 = None \<and> err2 = None \<and> ctlProvider c2 = ctlProvider c1 \<and> last (logs c2) = NoChanges
          \<and> (\<forall>w. effective desired w \<longrightarrow> (\<exists>r \<in> set (contents (ctlProvider c1)). rrToEndpoint r = Some w))
          \<and> (\<exists>cur'. fst (rfc2136_Records lib net p (ctlProvider c1)) = Inr cur' \<and> converged (ctlPlan ctl) desired cur'
              \<and> (\<forall>w. effective desired w \<longrightarrow> w \<in> set cur' \<and> owns (ctlPlan ctl) cur' (DNSName w)))"
proof -
  let ?n = "ctlProvider ctl" and ?c1 = "snd (reconcile src (rfc2136_methods lib net p) rd rc ctl)"
  note prov = rfc2136_is_zone_provider [OF law(2,3)]
  have tidy: "tidy desired cur" and names: "\<forall>h \<in> set cur. plain_name (DNSName h)"
    and owners: "\<forall>h \<in> set cur. isOwnershipTXT h \<longrightarrow> Targets h = [ownershipValue (ownerID (ctlPlan ctl))]"
    using pl by (simp_all add: plannable_def)
  have inv: "rfc_invar lib (cfg p) contents ?n" using z by (simp add: rfc_invar_def)
  have rec: "Records (rfc2136_methods lib net p) ?n = (Inr cur, ?n)" and zl: "zone_list (zoneOf (contents ?n)) cur"
    using available_reads [OF law(2,3) inv] cur by (auto simp: rfc2136_methods_def)
  have perf: "performable lib (cfg p) (zoneOf (contents ?n)) (Calculate rd rc (ctlPlan ctl) desired cur)"
    by (rule plan_performable [OF z zl tidy r(1,2) law(1) ttl want names owners])
  have "\<forall>w \<in> set desired. plain_name (DNSName w)" using want by (simp add: publishable_def)
  then have acc: "rfc_accepts lib (cfg p) contents ?n (Calculate rd rc (ctlPlan ctl) desired cur)"
    using perf plan_acceptable [OF law(1) z zl pl r(1,2) _ perf takes home] send by (simp add: rfc_accepts_def)
  note settled = zone_provider.reconcile_settles [OF prov inv src rec tidy r acc dry]
  then obtain cur' where cur': "fst (rfc2136_Records lib net p (ctlProvider ?c1)) = Inr cur'" "converged (ctlPlan ctl) desired cur'"
      "published (ctlPlan ctl) desired cur'" and inv': "rfc_invar lib (cfg p) contents (ctlProvider ?c1)"
    using free by (auto simp: rfc2136_methods_def)
  have zl': "zone_list (zoneOf (contents (ctlProvider ?c1))) cur'"
    using rfc2136_reads [OF law(2) inv' prod.collapse [symmetric]] cur'(1) by simp
  have there: "w \<in> set cur' \<and> owns (ctlPlan ctl) cur' (DNSName w) \<and> (\<exists>r \<in> set (contents (ctlProvider ?c1)). rrToEndpoint r = Some w)"
    if w: "effective desired w" for w
  proof -
    obtain h where h: "h \<in> set cur'" "epKey h = epKey w" "endpointsEqual h w" "owns (ctlPlan ctl) cur' (DNSName w)"
      using cur'(3) w unfolding published_def by blast
    have "publishable (cfg p) w" "CHR ''|'' \<notin> set (RecordType w)"
      using want tidyD(2) [OF tidy] effective_mem [OF w] by blast+
    then show ?thesis using published_there [OF inv' [unfolded rfc_invar_def] _ h(3)] h zone_list_mem [OF zl'] by metis
  qed
  show ?thesis using settled cur' there by (auto simp: Let_def rfc2136_methods_def split: prod.splits)
qed


section \<open>The plan for many zones\<close>

text \<open>How a multi-zone provider is built: the zone of an entry is the fully qualified name of its provider's zone.\<close>

definition well_built :: "dns_lib \<Rightarrow> ('t, 'e) multi_provider \<Rightarrow> bool" where
  "well_built lib zones \<longleftrightarrow> distinct (map zone zones)
     \<and> (\<forall>ze \<in> set zones. zone ze = Fqdn lib (Zone (cfg (prov ze))) \<and> HasSuffix (zone ze) ''.'')"

lemma NewMulti_well_built:
  assumes "fqdn_law lib" "\<forall>zc \<in> set configs. CHR 0x5C \<notin> set (zcZone zc)" "distinct (map (\<lambda>zc. Fqdn lib (zcZone zc)) configs)"
  shows "well_built lib (NewMulti lib configs)"
  using assms by (auto simp: well_built_def NewMulti_def rfc2136_New_def zoneCfg_def Let_def fqdn_law_def comp_def HasSuffix_iff)

lemma routed_inZone:
  assumes "fqdn_law lib" "well_built lib zones" "routedTo zones z n" "plain_name n"
  shows "inZone z (Fqdn lib n)"
proof -
  obtain ze where ze: "zoneFor zones n = Some ze" "zone ze = z" using assms(3) by (auto simp: routedTo_def)
  then have "ze \<in> set zones" "zoneMatches (TrimSuffix n ''.'') ze" using zoneFor_Some by blast+
  moreover have "TrimSuffix n ''.'' = n" using assms(4) by (simp add: plain_name_def)
  ultimately have "n = zoneName ze \<or> HasSuffix n (''.'' @ zoneName ze)" "HasSuffix z ''.''"
    using assms(2) ze(2) by (auto simp: zoneMatches_def well_built_def)
  then show ?thesis
    using plain_Fqdn [OF assms(1,4)] ze(2) by (auto simp: inZone_def zoneName_def HasSuffix_iff)
qed

lemma companion_routed: "plain_name n \<Longrightarrow> zoneFor zones n \<noteq> None \<Longrightarrow> zoneFor zones (ownershipName n) \<noteq> None"
proof
  assume n: "plain_name n" "zoneFor zones n \<noteq> None" "zoneFor zones (ownershipName n) = None"
  then obtain ze where ze: "ze \<in> set zones" "zoneMatches (TrimSuffix n ''.'') ze" "zoneName ze \<noteq> []" using zoneFor_Some by blast
  have "n \<noteq> []" using n(1) by (simp add: plain_name_def)
  then have "zoneMatches (TrimSuffix (ownershipName n) ''.'') ze"
    using ze(2) companion_matches [of n ze] TrimSuffix_ownershipName [of n]
    by (cases "zoneName ze = ownershipName (TrimSuffix n ''.'')") (simp_all add: zoneMatches_def)
  then show False using n(3) ze(1,3) unfolding zoneFor_None by blast
qed

text \<open>Every wanted name has a zone, can be written there, and each zone takes the records that are routed to it.\<close>

definition multi_ready ::
  "dns_lib \<Rightarrow> ('t, 'e) multi_provider \<Rightarrow> (string \<Rightarrow> 'n \<Rightarrow> RR list) \<Rightarrow> plan \<Rightarrow> endpoint list \<Rightarrow> 'n \<Rightarrow> bool"
where
  "multi_ready lib zones contents p desired n \<longleftrightarrow>
     (\<forall>w \<in> set desired. plain_name (DNSName w) \<and> zoneFor zones (DNSName w) \<noteq> None)
   \<and> (\<forall>ze \<in> set zones. MinTTL (cfg (prov ze)) \<le> 300
        \<and> (\<forall>w \<in> set desired. routedTo zones (zone ze) (DNSName w) \<longrightarrow> publishable (cfg (prov ze)) w)
        \<and> zone_takes lib (set (contents (zone ze) n)) {w \<in> wanted p desired. routedTo zones (zone ze) (DNSName w)})"

lemma part_keys_distinct:
  assumes "conflict_free ch" "distinct (map epKey (UpdateNew ch))"
  shows "distinct (map epKey (UpdateNew (zonePart zones ch z)))"
proof -
  have "map snd (zip (UpdateOld ch) (UpdateNew ch)) = UpdateNew ch" using conflict_free_length [OF assms(1)] by simp
  then have "distinct (map (epKey \<circ> snd) (zip (UpdateOld ch) (UpdateNew ch)))" using assms(2) by (metis map_map)
  then show ?thesis by (simp add: zonePart_def Let_def distinct_map_filter)
qed

lemma part_performable:
  assumes cf: "conflict_free ch" and keys: "distinct (map epKey (UpdateNew ch))" "inj_on epKey (set (Create ch))"
    and plain: "\<forall>e \<in> operands ch. CHR ''|'' \<notin> set (RecordType e)"
    and fit: "\<And>e. routedTo zones z (DNSName e) \<Longrightarrow> operand_fits lib c zm ch e"
  shows "performable lib c zm (zonePart zones ch z)"
proof -
  note part = zonePart_operands [OF cf, of _ zones z]
  have "faithful lib c w" if w: "w \<in> set (UpdateNew (zonePart zones ch z))" for w
  proof -
    obtain h where h: "w \<in> set (UpdateNew ch)" "h \<in> set (UpdateOld ch)" "epKey h = epKey w" "routedTo zones z (DNSName h)"
      using part(3) [OF w] by blast
    then have "DNSName h = DNSName w" using epKey_inj [of h w] plain by (auto simp: operands_def)
    then show ?thesis using fit [of w] h by (simp add: operand_fits_def)
  qed
  moreover have "set (Create (zonePart zones ch z)) \<subseteq> set (Create ch)" using part(1) by blast
  ultimately show ?thesis
    unfolding performable_def using fit part(1,2) part(4) part_keys_distinct [OF cf keys(1)] inj_on_subset [OF keys(2)]
    by (auto simp: operand_fits_def)
qed

lemma part_operands: "conflict_free ch \<Longrightarrow> \<forall>e \<in> operands ch. CHR ''|'' \<notin> set (RecordType e) \<Longrightarrow>
    e \<in> operands (zonePart zones ch z) \<Longrightarrow> e \<in> operands ch \<and> routedTo zones z (DNSName e)"
  using zonePart_operands [of ch] epKey_inj unfolding operands_def by (metis (no_types, lifting) Un_iff)

lemma plan_operands_plain:
  assumes "tidy desired cur" "range_ok rd" "range_ok rc" "e \<in> operands (Calculate rd rc p desired cur)"
  shows "CHR ''|'' \<notin> set (RecordType e)"
proof -
  consider "e \<in> wanted p desired" | h where "h \<in> set cur" "e = h \<or> e = ownershipTXTFor p (DNSName h)"
    using assms(4) plan_inserts [OF assms(2)] plan_removes [OF assms(2,3)] unfolding operands_def by blast
  then show ?thesis using tidyD(2,3) [OF assms(1)] by cases (auto simp: wanted_def)
qed

definition servable :: "('t, 'e) multi_provider \<Rightarrow> string \<Rightarrow> bool" where
  "servable zones n \<longleftrightarrow> plain_name n \<and> zoneFor zones n \<noteq> None \<and> ToLower n = n"

lemma servable_companion: "servable zones n \<Longrightarrow> servable zones (ownershipName n)"
  using plain_ownershipName lower_ownershipName companion_routed unfolding servable_def by blast

lemma current_servable:
  assumes law: "fqdn_law lib" "well_built lib zones" and inv: "multi_invar lib zones contents n"
    and cur: "zone_list (multi_zone zones contents n) cur" and pl: "plannable p desired cur"
    and rdy: "multi_ready lib zones contents p desired n" and h: "h \<in> set cur"
  shows "servable zones (DNSName h)"
proof -
  have n: "plain_name (DNSName h)" using pl h by (auto simp: plannable_def)
  have "distinct (map zone zones)" using law(2) by (simp add: well_built_def)
  then obtain ze where ze: "ze \<in> set zones" "zoneOf (contents (zone ze) n) (epKey h) = Some h"
    using h multi_zone_Some [OF inv] unfolding zone_list_mem [OF cur] by blast
  then have "routedTo zones (zone ze) (DNSName h)"
    "absz lib (cfg (prov ze)) (set (contents (zone ze) n)) (zoneOf (contents (zone ze) n))"
    using inv by (auto simp: multi_invar_def rfc_invar_def)
  moreover obtain x where "x \<in> set (contents (zone ze) n)" "rrName x = Fqdn lib (DNSName h)"
    using zone_name [OF calculation(2) ze(2)] by blast
  moreover have "\<forall>r \<in> set (contents (zone ze) n). lowerRR r" using rdy ze(1) by (simp add: multi_ready_def zone_takes_def)
  ultimately show ?thesis
    using n routedTo_Some ToLower_Fqdn [OF law(1) n] lowerRR_name unfolding servable_def by metis
qed

lemma multi_operand:
  assumes law: "fqdn_law lib" "well_built lib zones" and inv: "multi_invar lib zones contents n"
    and cur: "zone_list (multi_zone zones contents n) cur" and pl: "plannable p desired cur"
    and rdy: "multi_ready lib zones contents p desired n" and r: "range_ok rd" "range_ok rc"
    and e: "e \<in> operands (Calculate rd rc p desired cur)"
  shows "servable zones (DNSName e)"
proof -
  note old = current_servable [OF law inv cur pl rdy]
  have new: "servable zones (DNSName w)" if w: "w \<in> set desired" for w
  proof -
    have n: "plain_name (DNSName w)" "zoneFor zones (DNSName w) \<noteq> None" using rdy w by (auto simp: multi_ready_def)
    then obtain ze where "ze \<in> set zones" "routedTo zones (zone ze) (DNSName w)" using routed_entry by blast
    then have "ToLower (DNSName w) = DNSName w" using rdy w by (auto simp: multi_ready_def zone_takes_def wanted_def)
    with n show ?thesis unfolding servable_def by blast
  qed
  consider w where "w \<in> set desired" "e = w \<or> e = ownershipTXTFor p (DNSName w)"
    | h where "h \<in> set cur" "e = h \<or> e = ownershipTXTFor p (DNSName h)"
    using e plan_inserts [OF r(1), of e] plan_removes [OF r, of e] unfolding operands_def wanted_def by blast
  then show ?thesis
  proof cases
    case 1
    then show ?thesis using servable_companion [OF new [OF 1(1)]] new [OF 1(1)] by auto
  next
    case 2
    then show ?thesis using servable_companion [OF old [OF 2(1)]] old [OF 2(1)] by auto
  qed
qed

text \<open>Every wanted record is in the message of its own zone only, and each message can be sent.\<close>

definition multi_sendable :: "dns_lib \<Rightarrow> ('t, 'e) multi_provider \<Rightarrow> changes \<Rightarrow> bool" where
  "multi_sendable lib zones ch \<longleftrightarrow>
     (\<forall>ze \<in> set zones. sendable (snd (buildUpdate lib (cfg (prov ze)) (zonePart zones ch (zone ze)))))"

lemma plan_part_accepted:
  assumes law: "fqdn_law lib" "well_built lib zones" and inv: "multi_invar lib zones contents n"
    and cur: "zone_list (multi_zone zones contents n) cur" and pl: "plannable p desired cur"
    and rdy: "multi_ready lib zones contents p desired n" and r: "range_ok rd" "range_ok rc" and ze: "ze \<in> set zones"
    and send: "multi_sendable lib zones (Calculate rd rc p desired cur)"
  shows "rfc_accepts lib (cfg (prov ze)) (contents (zone ze)) n (zonePart zones (Calculate rd rc p desired cur) (zone ze))"
proof -
  let ?ch = "Calculate rd rc p desired cur" and ?c = "cfg (prov ze)" and ?z = "zone ze"
  let ?part = "zonePart zones ?ch ?z" and ?here = "\<lambda>e. routedTo zones ?z (DNSName e)"
  have tidy: "tidy desired cur" using pl by (simp add: plannable_def)
  have cf: "conflict_free ?ch" by (rule tidy_conflict_free [OF tidy r])
  note cf' = zonePart_conflict_free [OF cf, of zones ?z]
  have dist: "distinct (map zone zones)" and zn: "?z = Fqdn lib (Zone ?c)" using law(2) ze by (auto simp: well_built_def)
  have plain: "\<forall>e \<in> operands ?ch. CHR ''|'' \<notin> set (RecordType e)" using plan_operands_plain [OF tidy r] by blast
  have want: "\<forall>w \<in> set desired. plain_name (DNSName w) \<and> (?here w \<longrightarrow> publishable ?c w)" and ttl: "MinTTL ?c \<le> 300"
    and takes: "zone_takes lib (set (contents ?z n)) {w \<in> wanted p desired. ?here w}"
    using rdy ze by (auto simp: multi_ready_def)
  have names: "\<forall>h \<in> set cur. plain_name (DNSName h)" using pl by (simp add: plannable_def)
  have z: "absz lib ?c (set (contents ?z n)) (zoneOf (contents ?z n))" using inv ze by (simp add: multi_invar_def rfc_invar_def)
  note at = multi_zone_at [OF inv dist ze]
  have "operand_fits lib ?c (zoneOf (contents ?z n)) ?ch e" if "?here e" for e
    by (rule plan_operand_fits [where home = "routedTo zones ?z", OF z _ cur tidy r law(1) ttl want names])
      (use pl that at in \<open>auto simp: plannable_def\<close>)
  then have perf: "performable lib ?c (zoneOf (contents ?z n)) ?part"
    using part_performable [OF cf distinct_UpdateNew_keys [OF r(1)] tidy_Create_inj [OF tidy r(1)] plain] by blast
  have "acceptable ?z (set (contents ?z n)) (snd (buildUpdate lib ?c ?part))"
  proof (rule changes_acceptable [OF law(1) zn takes z cf' perf])
    have part: "e \<in> operands ?ch \<and> ?here e \<and> plain_name (DNSName e) \<and> ToLower (DNSName e) = DNSName e"
      if "e \<in> operands ?part" for e
      using part_operands [OF cf plain that] multi_operand [OF law inv cur pl rdy r] unfolding servable_def by blast
    then show "\<forall>e \<in> operands ?part. inZone ?z (Fqdn lib (DNSName e))" using routed_inZone [OF law] by blast
    show "\<forall>e \<in> set (Create ?part) \<union> set (UpdateNew ?part). e \<in> {w \<in> wanted p desired. ?here w} \<and> plain_name (DNSName e)"
      using part plan_inserts [OF r(1)] zonePart_operands(1,3) [OF cf] unfolding operands_def [of ?part] by blast
    fix e rrs x assume e: "e \<in> set (Delete ?part) \<union> set (UpdateOld ?part)" "endpointToRRs lib ?c e = Inr rrs" "x \<in> set rrs"
    then have o: "e \<in> operands ?part" by (auto simp: operands_def)
    have "e \<in> set (Delete ?ch) \<union> set (UpdateOld ?ch)" using e(1) zonePart_operands(2,4) [OF cf] by blast
    then obtain h where h: "h \<in> set cur" "e = h \<or> e = ownershipTXTFor p (DNSName h)" using plan_removes [OF r] by blast
    have low: "\<forall>r \<in> set (contents ?z n). lowerRR r" using takes by (simp add: zone_takes_def)
    show "lowerRR x"
    proof (cases "e = h")
      case True
      then have "zoneOf (contents ?z n) (epKey e) = Some e"
        using part [OF o] at [of e] plain h(1) zone_list_mem [OF cur, of h] by auto
      then show ?thesis using current_lower [OF z _ low e(2,3)] by blast
    next
      case False
      then have "e = ownershipTXTFor p (DNSName h)" using h(2) by blast
      moreover have "servable zones (DNSName h)" by (rule current_servable [OF law inv cur pl rdy h(1)])
      ultimately show ?thesis using companion_lower [OF law(1), of "DNSName h" ?c p rrs x] e(2,3) unfolding servable_def by blast
    qed
  qed
  with perf send ze show ?thesis by (simp add: rfc_accepts_def zn [symmetric] multi_sendable_def)
qed

text \<open>
  Many zones: over available servers that keep \<open>multi_law\<close>, when every zone takes what is routed to it, one cycle of the
  controller succeeds and every desired record is in the zone its name is routed to; the next cycle sends no update.
\<close>

lemma multi_cycle_settles:
  assumes law: "fqdn_law lib" "multi_law lib net zones contents" "multi_available lib net zones contents" "well_built lib zones"
      "mset sched = mset [0..<length zones]"
    and src: "Endpoints src (ctlSource c) = (Inr desired, ctlSource c)"
    and inv: "multi_invar lib zones contents (ctlProvider c)"
    and cur: "fst (multi_Records lib net sched zones (ctlProvider c)) = Inr cur" and pl: "plannable (ctlPlan c) desired cur"
    and free: "unclaimed (ctlPlan c) desired cur"
    and rdy: "multi_ready lib zones contents (ctlPlan c) desired (ctlProvider c)"
    and r: "range_ok rd" "range_ok rc" "range_ok rd'" "range_ok rc'"
    and send: "multi_sendable lib zones (Calculate rd rc (ctlPlan c) desired cur)" and dry: "\<not> DryRun (ctlCfg c)"
  shows "let (err1, c1) = reconcile src (multi_methods lib net sched zones) rd rc c;
             (err2, c2) = reconcile src (multi_methods lib net sched zones) rd' rc' c1
         in err1 = None \<and> err2 = None \<and> ctlProvider c2 = ctlProvider c1 \<and> last (logs c2) = NoChanges
          \<and> (\<forall>w. effective desired w \<longrightarrow> (\<exists>ze. zoneFor zones (DNSName w) = Some ze
                \<and> (\<exists>r \<in> set (contents (zone ze) (ctlProvider c1)). rrToEndpoint r = Some w)))
          \<and> (\<exists>cur'. fst (multi_Records lib net sched zones (ctlProvider c1)) = Inr cur' \<and> converged (ctlPlan c) desired cur'
              \<and> (\<forall>w. effective desired w \<longrightarrow> w \<in> set cur' \<and> owns (ctlPlan c) cur' (DNSName w)))"
proof -
  let ?n = "ctlProvider c" and ?c1 = "snd (reconcile src (multi_methods lib net sched zones) rd rc c)"
  have dist: "distinct (map zone zones)" using law(4) by (simp add: well_built_def)
  note prov = multi_is_zone_provider [OF law(2,3) dist law(5)]
  note read = multi_reads [OF law(2) dist law(5) _ prod.collapse [symmetric]]
  have rec: "Records (multi_methods lib net sched zones) ?n = (Inr cur, ?n)" and zl: "zone_list (multi_zone zones contents ?n) cur"
    using zone_provider.records_law [OF prov inv] cur by (auto simp: multi_methods_def)
  have tidy: "tidy desired cur" using pl by (simp add: plannable_def)
  have acc: "multi_accepts lib zones contents ?n (Calculate rd rc (ctlPlan c) desired cur)"
    unfolding multi_accepts_def
    using plan_part_accepted [OF law(1,4) inv zl pl rdy r(1,2) _ send] multi_operand [OF law(1,4) inv zl pl rdy r(1,2)]
      plan_operands_plain [OF tidy r(1,2)] unfolding servable_def by blast
  note settled = zone_provider.reconcile_settles [OF prov inv src rec tidy r acc dry]
  then obtain cur' where cur': "fst (multi_Records lib net sched zones (ctlProvider ?c1)) = Inr cur'" "converged (ctlPlan c) desired cur'"
      "published (ctlPlan c) desired cur'" and inv': "multi_invar lib zones contents (ctlProvider ?c1)"
    using free by (auto simp: multi_methods_def)
  have zl': "zone_list (multi_zone zones contents (ctlProvider ?c1)) cur'" using read [OF inv'] cur'(1) by simp
  have there: "w \<in> set cur' \<and> owns (ctlPlan c) cur' (DNSName w) \<and> (\<exists>ze. zoneFor zones (DNSName w) = Some ze
      \<and> (\<exists>r \<in> set (contents (zone ze) (ctlProvider ?c1)). rrToEndpoint r = Some w))" if w: "effective desired w" for w
  proof -
    obtain h where h: "h \<in> set cur'" "epKey h = epKey w" "endpointsEqual h w" "owns (ctlPlan c) cur' (DNSName w)"
      using cur'(3) w unfolding published_def by blast
    have mem: "w \<in> set desired" by (rule effective_mem [OF w])
    then obtain ze where ze: "zoneFor zones (DNSName w) = Some ze" using rdy by (auto simp: multi_ready_def)
    then have at: "ze \<in> set zones" "routedTo zones (zone ze) (DNSName w)" using zoneFor_Some by (auto simp: routedTo_def)
    have pub: "publishable (cfg (prov ze)) w" "CHR ''|'' \<notin> set (RecordType w)"
      using rdy at mem tidyD(2) [OF tidy mem] by (auto simp: multi_ready_def)
    have "zoneOf (contents (zone ze) (ctlProvider ?c1)) (epKey w) = Some h"
      using multi_zone_at [OF inv' dist at pub(2)] h(1,2) zone_list_mem [OF zl'] by simp
    moreover have "absz lib (cfg (prov ze)) (set (contents (zone ze) (ctlProvider ?c1))) (zoneOf (contents (zone ze) (ctlProvider ?c1)))"
      using inv' at(1) by (simp add: multi_invar_def rfc_invar_def)
    ultimately show ?thesis using published_there [OF _ _ h(3) pub] h(1,4) ze by metis
  qed
  show ?thesis using settled cur' there by (auto simp: Let_def multi_methods_def split: prod.splits)
qed

end
