(* ===== verification/ControllerLoop.thy ===== *)
theory ControllerLoop
  imports Controller
begin

text \<open>
  \<open>Controller.Run\<close> as a step relation.  The loop's goroutine is either in its \<open>select\<close>, inside
  \<open>doReconcile\<close>, or has returned; beside it run the handler called by the source, the timers, and the
  functions that expired debounce timers start.  Every interleaving of these is a run.

  \<^item> \<open>nextTimer\<close> holds the deadline of the scheduling timer while it is armed; receiving from its
    channel and \<open>Stop\<close> disarm it, \<open>Reset\<close> arms it.  As of Go 1.23 (the module requires 1.24) no stale
    tick survives \<open>Stop\<close> or \<open>Reset\<close>.
  \<^item> \<open>debounceTimer\<close> is the deadline of the \<open>AfterFunc\<close> timer while it is pending; when it expires,
    its function runs in a goroutine of its own (counted in \<open>firing\<close>) and offers a value to
    \<open>reconcileCh\<close>, a channel of capacity one, dropping it when the channel is full.
  \<^item> The mutex makes the handler atomic.
  \<^item> The world (containers, DNS) may change at any time: \<open>AWorld\<close>.

  A trace lists the actions with their times, latest first.
\<close>

datatype phase = Selecting | Reconciling | Returned goerror

datatype action =
    ATick
  | AWorld
  | AEvent
  | AExpire
  | ASend
  | AStartTimer
  | AStartEvent
  | AFinish "goerror option"
  | ACancel
  | AReturn

record ('s, 'p) run_state =
  ctl :: "('s, 'p) controller"
  now :: int
  phase :: phase
  nextTimer :: "int option"
  debounceTimer :: "int option"
  firing :: nat
  reconcileCh :: bool
  ctxDone :: bool
  consecutiveErrors :: nat

type_synonym trace = "(int \<times> action) list"

text \<open>The setup before the loop: the handler is registered and the timer fires at once.\<close>

definition run_init :: "('h, 's) source \<Rightarrow> 'h \<Rightarrow> int \<Rightarrow> ('s, 'p) controller \<Rightarrow> ('s, 'p) run_state" where
  "run_init src h t c =
     \<lparr>ctl = c\<lparr>ctlSource := AddEventHandler src h (ctlSource c)\<rparr>, now = t, phase = Selecting,
      nextTimer = Some t, debounceTimer = None, firing = 0, reconcileCh = False, ctxDone = False,
      consecutiveErrors = 0\<rparr>"

text \<open>The event handler, the function of the debounce timer, and the end of \<open>doReconcile\<close>.\<close>

definition onEvent :: "('s, 'p) run_state \<Rightarrow> ('s, 'p) run_state" where
  "onEvent s = s\<lparr>debounceTimer := Some (now s + DebounceDuration (ctlCfg (ctl s)))\<rparr>"

definition onSend :: "('s, 'p) run_state \<Rightarrow> ('s, 'p) run_state" where
  "onSend s = s\<lparr>firing := firing s - 1, reconcileCh := True\<rparr>"

definition onReconciled :: "goerror option \<times> ('s, 'p) controller \<Rightarrow> ('s, 'p) run_state \<Rightarrow> ('s, 'p) run_state" where
  "onReconciled r s = (case r of
     (Some err, c) \<Rightarrow>
       (let n = Suc (consecutiveErrors s); b = backoffDuration (ctlCfg c) (int n)
        in s\<lparr>ctl := c, phase := Selecting, consecutiveErrors := n, nextTimer := Some (now s + b)\<rparr>)
   | (None, c) \<Rightarrow>
       s\<lparr>ctl := c, phase := Selecting, consecutiveErrors := 0, nextTimer := Some (now s + Interval (ctlCfg c))\<rparr>)"

inductive run_step ::
  "('h, 's) source \<Rightarrow> 'p provider \<Rightarrow> ('s, 'p) run_state \<Rightarrow> action \<Rightarrow> ('s, 'p) run_state \<Rightarrow> bool"
  for src prov
where
  tick: "now s \<le> t \<Longrightarrow> run_step src prov s ATick (s\<lparr>now := t\<rparr>)"
| world: "run_step src prov s AWorld (s\<lparr>ctl := (ctl s)\<lparr>ctlSource := so, ctlProvider := pr\<rparr>\<rparr>)"
| event: "run_step src prov s AEvent (onEvent s)"
| expire: "debounceTimer s = Some d \<Longrightarrow> d \<le> now s \<Longrightarrow>
    run_step src prov s AExpire (s\<lparr>debounceTimer := None, firing := Suc (firing s)\<rparr>)"
| send: "0 < firing s \<Longrightarrow> run_step src prov s ASend (onSend s)"
| start_timer: "phase s = Selecting \<Longrightarrow> nextTimer s = Some d \<Longrightarrow> d \<le> now s \<Longrightarrow>
    run_step src prov s AStartTimer (s\<lparr>phase := Reconciling, nextTimer := None\<rparr>)"
| start_event: "phase s = Selecting \<Longrightarrow> reconcileCh s \<Longrightarrow>
    run_step src prov s AStartEvent (s\<lparr>phase := Reconciling, reconcileCh := False, nextTimer := None\<rparr>)"
| finish: "phase s = Reconciling \<Longrightarrow> range_ok rd \<Longrightarrow> range_ok rc \<Longrightarrow>
    reconcile src prov rd rc (ctl s) = r \<Longrightarrow> run_step src prov s (AFinish (fst r)) (onReconciled r s)"
| cancel: "run_step src prov s ACancel (s\<lparr>ctxDone := True\<rparr>)"
| return: "phase s = Selecting \<Longrightarrow> ctxDone s \<Longrightarrow>
    run_step src prov s AReturn (s\<lparr>phase := Returned (ContextError ''context canceled''), nextTimer := None\<rparr>)"

inductive_cases run_stepE: "run_step src prov s a s'"

inductive run_from ::
  "('h, 's) source \<Rightarrow> 'p provider \<Rightarrow> ('s, 'p) run_state \<Rightarrow> trace \<Rightarrow> ('s, 'p) run_state \<Rightarrow> bool"
  for src prov s0
where
  start: "run_from src prov s0 [] s0"
| step: "run_from src prov s0 tr s \<Longrightarrow> run_step src prov s a s' \<Longrightarrow> run_from src prov s0 ((now s, a) # tr) s'"

text \<open>\<open>Run\<close> with \<open>Once\<close> set is one cycle; otherwise it is the loop, for as long as it does not return.\<close>

definition Run_once ::
  "('h, 's) source \<Rightarrow> 'p provider \<Rightarrow> (string, endpoint) range_order \<Rightarrow> (string, endpoint) range_order \<Rightarrow>
   ('s, 'p) controller \<Rightarrow> (goerror option \<times> ('s, 'p) controller) option"
where
  "Run_once src prov rd rc c = (if Once (ctlCfg c) then Some (reconcile src prov rd rc c) else None)"


section \<open>What a trace says\<close>

fun failStreak :: "trace \<Rightarrow> nat" where
  "failStreak [] = 0"
| "failStreak ((t, AFinish (Some e)) # tr) = Suc (failStreak tr)"
| "failStreak ((t, AFinish None) # tr) = 0"
| "failStreak (_ # tr) = failStreak tr"

fun lastEvent :: "trace \<Rightarrow> int option" where
  "lastEvent [] = None"
| "lastEvent ((t, a) # tr) = (if a = AEvent then Some t else lastEvent tr)"

text \<open>An event that no cycle has started after.\<close>

fun unserved :: "trace \<Rightarrow> bool" where
  "unserved [] = False"
| "unserved ((t, a) # tr) =
     (if a = AEvent then True else if a = AStartTimer \<or> a = AStartEvent then False else unserved tr)"

definition occurrences :: "action \<Rightarrow> trace \<Rightarrow> nat" where
  "occurrences a tr = length (filter (\<lambda>x. snd x = a) tr)"

text \<open>When the next cycle is due.\<close>

fun dueTime :: "ctrl_config \<Rightarrow> int \<Rightarrow> trace \<Rightarrow> int" where
  "dueTime c t0 [] = t0"
| "dueTime c t0 ((t, AFinish None) # tr) = t + Interval c"
| "dueTime c t0 ((t, AFinish (Some e)) # tr) = t + backoffDuration c (int (Suc (failStreak tr)))"
| "dueTime c t0 (_ # tr) = dueTime c t0 tr"

definition pendingSignal :: "('s, 'p) run_state \<Rightarrow> bool" where
  "pendingSignal s \<longleftrightarrow> debounceTimer s \<noteq> None \<or> 0 < firing s \<or> reconcileCh s"

lemmas run_defs = onEvent_def onSend_def onReconciled_def Let_def

lemma run_step_cfg: "run_step src prov s a s' \<Longrightarrow> ctlCfg (ctl s') = ctlCfg (ctl s)"
  by (erule run_stepE) (auto simp: run_defs split: prod.splits option.splits,
      (metis reconcile_keeps(2) snd_conv)+)

lemma run_from_cfg: "run_from src prov s0 tr s \<Longrightarrow> ctlCfg (ctl s) = ctlCfg (ctl s0)"
  by (induction rule: run_from.induct) (simp_all add: run_step_cfg)

lemma run_step_plan: "run_step src prov s a s' \<Longrightarrow> ctlPlan (ctl s') = ctlPlan (ctl s)"
  by (erule run_stepE) (auto simp: run_defs split: prod.splits option.splits,
      (metis reconcile_keeps(1) snd_conv)+)

lemma run_from_plan: "run_from src prov s0 tr s \<Longrightarrow> ctlPlan (ctl s) = ctlPlan (ctl s0)"
  by (induction rule: run_from.induct) (simp_all add: run_step_plan)

lemma run_streak:
  "run_from src prov s0 tr s \<Longrightarrow> consecutiveErrors s0 = 0 \<Longrightarrow> consecutiveErrors s = failStreak tr"
proof (induction rule: run_from.induct)
  case (step tr s a s')
  from step.hyps(2) step.IH step.prems show ?case
    by (cases rule: run_step.cases) (auto simp: run_defs split: prod.splits option.splits)
qed simp

lemma run_timer:
  assumes "run_from src prov s0 tr s" and "nextTimer s0 = Some t0" "consecutiveErrors s0 = 0" "phase s0 = Selecting"
  shows "phase s = Selecting \<Longrightarrow> nextTimer s = Some (dueTime (ctlCfg (ctl s0)) t0 tr)"
  using assms
proof (induction rule: run_from.induct)
  case (step tr s a s')
  have cfg: "ctlCfg (ctl s') = ctlCfg (ctl s0)" using run_from_cfg run_step_cfg step.hyps by metis
  have streak: "consecutiveErrors s = failStreak tr" using run_streak step.hyps(1) step.prems by blast
  from step.hyps(2) step.IH step.prems cfg streak show ?case
    by (cases rule: run_step.cases) (auto simp: run_defs split: prod.splits option.splits)
qed simp

lemma run_init_sel [simp]:
  "nextTimer (run_init src h t c) = Some t" "consecutiveErrors (run_init src h t c) = 0"
  "phase (run_init src h t c) = Selecting" "ctlCfg (ctl (run_init src h t c)) = ctlCfg c"
  "debounceTimer (run_init src h t c) = None" "firing (run_init src h t c) = 0"
  "reconcileCh (run_init src h t c) = False" "ctxDone (run_init src h t c) = False" "now (run_init src h t c) = t"
  "ready (ctl (run_init src h t c)) = ready c"
  by (simp_all add: run_init_def)

lemma run_append:
  "run_from src prov s tr2 s' \<Longrightarrow> run_from src prov s0 tr1 s \<Longrightarrow> run_from src prov s0 (tr2 @ tr1) s'"
proof (induction rule: run_from.induct)
  case (step tr u a u')
  then show ?case using run_from.step by fastforce
qed simp

lemma run_two:
  assumes "run_step src prov s a u" and "run_step src prov u b s'"
  shows "run_from src prov s [(now u, b), (now s, a)] s'"
  using run_from.step [OF run_from.step [OF run_from.start assms(1)] assms(2)] .

text \<open>A tick that brings the clock to \<open>t\<close>, or leaves it when \<open>t\<close> has passed.\<close>

lemma tick_to: "run_step src prov s ATick (s\<lparr>now := max t (now s)\<rparr>)"
  by (rule run_step.tick) simp


section \<open>Scheduling\<close>

text \<open>
  C16. The loop is never without a next cycle: whenever it waits in its \<open>select\<close>, its timer is armed, at
  the start for now, after a successful cycle for the interval after it ended, and after a
  failed one for the backoff of the length of the current run of failures.  So from every such state
  the next cycle can start once that time is reached.
\<close>

theorem next_cycle_scheduled:
  assumes "run_from src prov (run_init src h t0 c) tr s" and "phase s = Selecting"
  shows "nextTimer s = Some (dueTime (ctlCfg c) t0 tr)
    \<and> (\<exists>s'. run_from src prov s [(max (dueTime (ctlCfg c) t0 tr) (now s), AStartTimer), (now s, ATick)] s'
          \<and> phase s' = Reconciling)"
proof -
  let ?due = "dueTime (ctlCfg c) t0 tr" let ?u = "s\<lparr>now := max ?due (now s)\<rparr>"
  have timer: "nextTimer s = Some ?due" using run_timer [OF assms(1), of t0] assms(2) by simp
  have "run_step src prov ?u AStartTimer (?u\<lparr>phase := Reconciling, nextTimer := None\<rparr>)"
    using timer assms(2) by (intro run_step.start_timer [of _ ?due]) simp_all
  from run_two [OF tick_to [of src prov s ?due] this] timer show ?thesis by auto
qed

definition ex_ctl :: "(string fake_source, fake_provider) controller" where
  "ex_ctl = controller_New (fakesrc_New []) (fake_New []) ex_ctl_cfg"

theorem next_cycle_scheduled_witness:
  "\<exists>s :: (string fake_source, fake_provider) run_state.
     run_from fakesrc_methods (fake_methods rev) (run_init fakesrc_methods ''h'' 7 ex_ctl) [(7, AEvent)] s
   \<and> nextTimer s = Some 7"
proof -
  let ?s0 = "run_init fakesrc_methods ''h'' 7 ex_ctl" let ?prov = "fake_methods rev"
  have r: "run_from fakesrc_methods ?prov ?s0 [(7, AEvent)] (onEvent ?s0)"
    using run_from.step [OF run_from.start run_step.event, of fakesrc_methods ?prov ?s0] by simp
  from next_cycle_scheduled [OF r] show ?thesis using r by (auto simp: onEvent_def)
qed


section \<open>Events\<close>

lemma run_pending:
  assumes "run_from src prov s0 tr s" shows "unserved tr \<Longrightarrow> pendingSignal s"
  using assms
proof (induction rule: run_from.induct)
  case (step tr s a s')
  from step.hyps(2) step.IH step.prems show ?case
    by (cases rule: run_step.cases) (auto simp: run_defs pendingSignal_def split: prod.splits option.splits)
qed simp

lemma run_debounce:
  assumes "run_from src prov s0 tr s" "debounceTimer s0 = None"
  shows "debounceTimer s = Some d \<Longrightarrow> \<exists>t. lastEvent tr = Some t \<and> d = t + DebounceDuration (ctlCfg (ctl s0))"
  using assms
proof (induction rule: run_from.induct)
  case (step tr s a s')
  have cfg: "ctlCfg (ctl s) = ctlCfg (ctl s0)" using run_from_cfg step.hyps by metis
  from step.hyps(2) step.IH step.prems cfg show ?case
    by (cases rule: run_step.cases) (auto simp: run_defs split: prod.splits option.splits)
qed simp

definition signals :: "('s, 'p) run_state \<Rightarrow> nat" where
  "signals s = (if debounceTimer s = None then 0 else 1) + firing s + (if reconcileCh s then 1 else 0)"

lemma occurrences_Cons [simp]:
  "occurrences a ((t, b) # tr) = (if b = a then Suc (occurrences a tr) else occurrences a tr)"
  by (simp add: occurrences_def)

lemma run_signals:
  assumes "run_from src prov s0 tr s" "signals s0 = 0"
  shows "occurrences AStartEvent tr + signals s \<le> occurrences AEvent tr"
  using assms
proof (induction rule: run_from.induct)
  case (step tr s a s')
  from step.hyps(2) step.IH step.prems show ?case
    by (cases rule: run_step.cases) (auto simp: run_defs signals_def split: prod.splits option.splits if_splits)
qed (simp add: occurrences_def)

text \<open>
  C31. Debouncing: a debounce timer that expires has been quiet, no event having arrived for
  \<open>DebounceDuration\<close>, and event-driven cycles never outnumber the events, however their timers, the
  goroutines they start and the loop interleave.
\<close>

theorem debounce_quiet_period:
  assumes "run_from src prov (run_init src h t0 c) tr s"
  shows "(run_step src prov s AExpire s' \<longrightarrow>
            (\<exists>t. lastEvent tr = Some t \<and> t + DebounceDuration (ctlCfg c) \<le> now s))
       \<and> occurrences AStartEvent tr \<le> occurrences AEvent tr"
proof -
  have "\<exists>d. debounceTimer s = Some d \<and> d \<le> now s" if "run_step src prov s AExpire s'"
    using that by (cases rule: run_step.cases) auto
  then show ?thesis
    using run_debounce [OF assms] run_signals [OF assms] by (fastforce simp: signals_def)
qed

theorem debounce_quiet_period_witness:
  "\<exists>s s' :: (string fake_source, fake_provider) run_state.
     run_from fakesrc_methods (fake_methods rev) (run_init fakesrc_methods ''h'' 7 ex_ctl)
       [(7, ATick), (7, AEvent)] s \<and> run_step fakesrc_methods (fake_methods rev) s AExpire s'
   \<and> 7 + DebounceDuration (ctlCfg ex_ctl) \<le> now s"
proof -
  let ?src = "fakesrc_methods :: (string, string fake_source) source" and ?prov = "fake_methods rev"
  let ?s0 = "run_init ?src ''h'' 7 ex_ctl" let ?t = "7 + DebounceDuration (ctlCfg ex_ctl)"
  let ?u = "(onEvent ?s0)\<lparr>now := max ?t (now (onEvent ?s0))\<rparr>"
  have r: "run_from ?src ?prov ?s0 [(7, ATick), (7, AEvent)] ?u"
    using run_two [OF run_step.event [of ?src ?prov ?s0] tick_to [of ?src ?prov "onEvent ?s0" ?t]]
    by (simp add: onEvent_def)
  have x: "run_step ?src ?prov ?u AExpire (?u\<lparr>debounceTimer := None, firing := Suc (firing ?u)\<rparr>)"
    by (rule run_step.expire [of _ ?t]) (simp_all add: onEvent_def)
  from debounce_quiet_period [OF r] x have "?t \<le> now ?u" by fastforce
  with r x show ?thesis by blast
qed

text \<open>
  From \<open>s\<close> the loop's own actions and the passage of time until \<open>b\<close> lead to an event-driven cycle.
\<close>

definition cycle_within :: "('h, 's) source \<Rightarrow> 'p provider \<Rightarrow> ('s, 'p) run_state \<Rightarrow> int \<Rightarrow> bool" where
  "cycle_within src prov s b \<longleftrightarrow>
     (\<exists>t tr s'. run_from src prov s ((t, AStartEvent) # tr) s' \<and> phase s' = Reconciling \<and> now s' \<le> b
        \<and> snd ` set tr \<subseteq> {ATick, AExpire, ASend})"

lemma cycle_within_step:
  assumes "run_step src prov s a u" "a \<in> {ATick, AExpire, ASend}" "cycle_within src prov u b"
  shows "cycle_within src prov s b"
proof -
  obtain t tr s' where "run_from src prov u ((t, AStartEvent) # tr) s'" "phase s' = Reconciling" "now s' \<le> b"
      "snd ` set tr \<subseteq> {ATick, AExpire, ASend}"
    using assms(3) by (auto simp: cycle_within_def)
  moreover have "run_from src prov s [(now s, a)] u" using run_from.step [OF run_from.start assms(1)] .
  ultimately have "run_from src prov s ((t, AStartEvent) # tr @ [(now s, a)]) s'"
    "snd ` set (tr @ [(now s, a)]) \<subseteq> {ATick, AExpire, ASend}"
    using run_append assms(2) by fastforce+
  with \<open>phase s' = Reconciling\<close> \<open>now s' \<le> b\<close> show ?thesis unfolding cycle_within_def by blast
qed

lemma channel_to_cycle:
  assumes "phase s = Selecting" "reconcileCh s" "now s \<le> b"
  shows "cycle_within src prov s b"
  using run_from.step [OF run_from.start run_step.start_event [OF assms(1,2)], of src prov] assms(3)
  unfolding cycle_within_def by fastforce

lemma firing_to_cycle:
  assumes "phase s = Selecting" "0 < firing s" "now s \<le> b"
  shows "cycle_within src prov s b"
proof -
  have "cycle_within src prov (onSend s) b" using assms by (intro channel_to_cycle) (simp_all add: onSend_def)
  then show ?thesis using cycle_within_step [OF run_step.send [OF assms(2)]] by blast
qed

lemma debounce_to_cycle:
  assumes "phase s = Selecting" "debounceTimer s = Some d"
  shows "cycle_within src prov s (max d (now s))"
proof -
  let ?u = "s\<lparr>now := max d (now s)\<rparr>"
  have "run_step src prov ?u AExpire (?u\<lparr>debounceTimer := None, firing := Suc (firing ?u)\<rparr>)"
    using assms(2) by (intro run_step.expire [of _ d]) simp_all
  moreover have "cycle_within src prov (?u\<lparr>debounceTimer := None, firing := Suc (firing ?u)\<rparr>) (max d (now s))"
    using assms(1) by (intro firing_to_cycle) simp_all
  ultimately have "cycle_within src prov ?u (max d (now s))" using cycle_within_step by blast
  then show ?thesis using cycle_within_step [OF tick_to [of src prov s d]] by blast
qed

lemma unserved_to_cycle:
  assumes "run_from src prov s0 tr s" "debounceTimer s0 = None" and "unserved tr" and "phase s = Selecting"
    and "lastEvent tr = Some t"
  shows "cycle_within src prov s (max (t + DebounceDuration (ctlCfg (ctl s0))) (now s))"
proof -
  have "pendingSignal s" using run_pending [OF assms(1,3)] .
  then consider d where "debounceTimer s = Some d" | "0 < firing s" | "reconcileCh s"
    by (auto simp: pendingSignal_def)
  then show ?thesis
  proof cases
    case 1
    then have "d = t + DebounceDuration (ctlCfg (ctl s0))"
      using run_debounce [OF assms(1,2), of d] assms(5) by simp
    then show ?thesis using debounce_to_cycle [OF assms(4) 1, of src prov] by simp
  next
    case 2
    then show ?thesis by (intro firing_to_cycle [OF assms(4)]) simp_all
  next
    case 3
    then show ?thesis by (intro channel_to_cycle [OF assms(4)]) simp_all
  qed
qed

lemma unserved_lastEvent: "unserved tr \<Longrightarrow> \<exists>t. lastEvent tr = Some t"
  by (induction tr rule: unserved.induct) (auto split: if_splits)

text \<open>
  C15. No event is lost: when an event has arrived and no cycle has started since, and the loop waits in
  its \<open>select\<close>, then its own actions alone (timers expiring, the signal being sent and received)
  lead to a new cycle, no later than \<open>DebounceDuration\<close> after the latest event or at once if that has
  passed.
\<close>

theorem event_leads_to_cycle:
  assumes "run_from src prov (run_init src h t0 c) tr s" and "unserved tr" and "phase s = Selecting"
    and "lastEvent tr = Some t"
  shows "cycle_within src prov s (max (t + DebounceDuration (ctlCfg c)) (now s))"
  using unserved_to_cycle [OF assms(1) _ assms(2-4)] by simp

theorem event_leads_to_cycle_witness:
  "\<exists>s :: (string fake_source, fake_provider) run_state.
     run_from fakesrc_methods (fake_methods rev) (run_init fakesrc_methods ''h'' 7 ex_ctl) [(7, AEvent)] s
   \<and> cycle_within fakesrc_methods (fake_methods rev) s 5000000007"
proof -
  let ?src = "fakesrc_methods :: (string, string fake_source) source"
  let ?s0 = "run_init ?src ''h'' 7 ex_ctl" let ?prov = "fake_methods rev"
  have r: "run_from ?src ?prov ?s0 [(7, AEvent)] (onEvent ?s0)"
    using run_from.step [OF run_from.start run_step.event, of ?src ?prov ?s0] by simp
  have "DebounceDuration (ctlCfg ex_ctl) = 5000000000"
    by (simp add: ex_ctl_def controller_New_def ex_ctl_cfg_def applyDefaults_def)
  with event_leads_to_cycle [OF r, of 7] r show ?thesis by (auto simp: onEvent_def)
qed


section \<open>Readiness and return\<close>

lemma run_ready:
  assumes "run_from src prov s0 tr s"
  shows "ready (ctl s) \<longleftrightarrow> ready (ctl s0) \<or> AFinish None \<in> snd ` set tr"
  using assms
proof (induction rule: run_from.induct)
  case (step tr s a s')
  from step.hyps(2) step.IH show ?case
  proof (cases rule: run_step.cases)
    case (finish rd rc r)
    then show ?thesis using step.IH reconcile_ready [of src prov rd rc "ctl s"]
      by (cases "fst r") (auto simp: run_defs split: prod.splits)
  qed (auto simp: run_defs)
qed simp

lemma run_returned:
  assumes "run_from src prov s0 tr s" "phase s0 = Selecting"
  shows "phase s = Returned e \<Longrightarrow> ctxDone s \<and> e = ContextError ''context canceled''"
  using assms
proof (induction rule: run_from.induct)
  case (step tr s a s')
  from step.hyps(2) step.IH step.prems show ?case
    by (cases rule: run_step.cases) (auto simp: run_defs split: prod.splits option.splits)
qed simp

text \<open>
  C36. Readiness over a run: the controller reports ready exactly from the first successful cycle on, and
  the loop returns only after its context was cancelled, with the context's error.
\<close>

theorem run_ready_and_return:
  assumes "run_from src prov (run_init src h t0 (controller_New so pr cf)) tr s"
  shows "(IsReady (ctl s) \<longleftrightarrow> AFinish None \<in> snd ` set tr)
    \<and> (\<forall>e. phase s = Returned e \<longrightarrow> ctxDone s \<and> e = ContextError ''context canceled'')"
  using run_ready [OF assms] run_returned [OF assms] by (simp add: IsReady_def controller_New_def Let_def)

theorem run_ready_and_return_witness:
  "\<exists>s :: (string fake_source, fake_provider) run_state.
     run_from fakesrc_methods (fake_methods rev) (run_init fakesrc_methods ''h'' 7 ex_ctl) [(7, AEvent)] s
   \<and> \<not> IsReady (ctl s)"
proof -
  let ?src = "fakesrc_methods :: (string, string fake_source) source"
  let ?s0 = "run_init ?src ''h'' 7 ex_ctl" let ?prov = "fake_methods rev"
  have r: "run_from ?src ?prov ?s0 [(7, AEvent)] (onEvent ?s0)"
    using run_from.step [OF run_from.start run_step.event, of ?src ?prov ?s0] by simp
  from run_ready_and_return [OF this [unfolded ex_ctl_def]] r show ?thesis by (auto simp: ex_ctl_def)
qed

end
