(* ===== verification/GoTime.thy ===== *)
theory GoTime
  imports GoStrings Prelude
begin

text \<open>
  \<open>time.ParseDuration\<close> and \<open>strconv.ParseBool\<close>, as the command line program uses them.  The sums are
  \<open>uint64\<close> values, checked against \<open>2^63\<close>.  The value of a fraction is computed with floating-point
  numbers in the library; that expression, for a fraction of \<open>k\<close> digits with value \<open>f\<close> and a unit, is the
  argument \<open>frac f k unit\<close>.  Errors carry no text here: the callers that show it wrap the value.
\<close>

definition ParseBool :: "string \<Rightarrow> bool option" where
  "ParseBool s =
     (if s \<in> set [''1'', ''t'', ''T'', ''true'', ''TRUE'', ''True''] then Some True
      else if s \<in> set [''0'', ''f'', ''F'', ''false'', ''FALSE'', ''False''] then Some False
      else None)"

fun leadingInt :: "nat \<Rightarrow> string \<Rightarrow> (nat \<times> string) option" where
  "leadingInt x [] = Some (x, [])"
| "leadingInt x (c # cs) =
     (if \<not> is_digit c then Some (x, c # cs)
      else if x > 2 ^ 63 div 10 then None
      else let y = x * 10 + digit_val c in if y > 2 ^ 63 then None else leadingInt y cs)"

fun leadingFraction :: "nat \<Rightarrow> nat \<Rightarrow> bool \<Rightarrow> string \<Rightarrow> nat \<times> nat \<times> string" where
  "leadingFraction x k overflow [] = (x, k, [])"
| "leadingFraction x k overflow (c # cs) =
     (if \<not> is_digit c then (x, k, c # cs)
      else if overflow then leadingFraction x k overflow cs
      else if x > (2 ^ 63 - 1) div 10 then leadingFraction x k True cs
      else let y = x * 10 + digit_val c in
           if y > 2 ^ 63 then leadingFraction x k True cs else leadingFraction y (Suc k) overflow cs)"

text \<open>The unit names; the micro sign and the Greek letter are given by their UTF-8 bytes.\<close>

definition unitOf :: "string \<Rightarrow> nat option" where
  "unitOf u =
     (if u = ''ns'' then Some 1
      else if u = ''us'' \<or> u = [CHR 0xC2, CHR 0xB5, CHR ''s''] \<or> u = [CHR 0xCE, CHR 0xBC, CHR ''s''] then Some 1000
      else if u = ''ms'' then Some 1000000
      else if u = ''s'' then Some 1000000000
      else if u = ''m'' then Some 60000000000
      else if u = ''h'' then Some 3600000000000
      else None)"

definition unit_char :: "char \<Rightarrow> bool" where
  "unit_char c \<longleftrightarrow> \<not> (c = CHR ''.'' \<or> is_digit c)"

text \<open>One number with its unit: its value in nanoseconds and the rest of the text.\<close>

definition durPiece :: "(nat \<Rightarrow> nat \<Rightarrow> nat \<Rightarrow> nat) \<Rightarrow> string \<Rightarrow> (nat \<times> string) option" where
  "durPiece frac s =
     (if unit_char (hd s) then None
      else case leadingInt 0 s of
        None \<Rightarrow> None
      | Some (v, s1) \<Rightarrow>
          (let pre = (length s \<noteq> length s1);
               (f, k, post, s2) =
                 (if s1 \<noteq> [] \<and> hd s1 = CHR ''.'' then
                    (case leadingFraction 0 0 False (tl s1) of (f, k, r) \<Rightarrow> (f, k, length (tl s1) \<noteq> length r, r))
                  else (0, 0, False, s1));
               u = takeWhile unit_char s2
           in if \<not> pre \<and> \<not> post then None
              else if u = [] then None
              else case unitOf u of
                None \<Rightarrow> None
              | Some unit \<Rightarrow>
                  if v > 2 ^ 63 div unit then None
                  else if f > 0 then
                    (if v * unit + frac f k unit > 2 ^ 63 then None
                     else Some (v * unit + frac f k unit, dropWhile unit_char s2))
                  else Some (v * unit, dropWhile unit_char s2)))"

lemma leadingInt_length: "leadingInt x s = Some (v, r) \<Longrightarrow> length r \<le> length s"
  by (induction x s rule: leadingInt.induct) (auto simp: Let_def split: if_splits)

lemma leadingFraction_length: "leadingFraction x k b s = (f, k', r) \<Longrightarrow> length r \<le> length s"
  by (induction x k b s rule: leadingFraction.induct) (auto simp: Let_def split: if_splits)

lemma dropWhile_shorter: "takeWhile P s \<noteq> [] \<Longrightarrow> length (dropWhile P s) < length s"
  by (cases s) (auto split: if_splits simp: le_imp_less_Suc length_dropWhile_le)

lemma durPiece_shorter: "durPiece frac s = Some (v, r) \<Longrightarrow> length r < length s"
proof -
  assume some: "durPiece frac s = Some (v, r)"
  then obtain w s1 where w: "leadingInt 0 s = Some (w, s1)"
    by (auto simp: durPiece_def split: if_splits option.splits)
  let ?s2 = "if s1 \<noteq> [] \<and> hd s1 = CHR ''.'' then snd (snd (leadingFraction 0 0 False (tl s1))) else s1"
  have "length ?s2 \<le> length s1"
    using leadingFraction_length [of 0 0 False "tl s1"] by (cases "leadingFraction 0 0 False (tl s1)") fastforce
  moreover have "takeWhile unit_char ?s2 \<noteq> [] \<and> r = dropWhile unit_char ?s2"
    using some w by (auto simp: durPiece_def Let_def split: if_splits option.splits prod.splits)
  ultimately have "length ?s2 \<le> length s1 \<and> length r < length ?s2" using dropWhile_shorter by blast
  then show ?thesis using leadingInt_length [OF w] by linarith
qed

function parseDurLoop :: "(nat \<Rightarrow> nat \<Rightarrow> nat \<Rightarrow> nat) \<Rightarrow> nat \<Rightarrow> string \<Rightarrow> nat option" where
  "parseDurLoop frac d s =
     (if s = [] then Some d
      else case durPiece frac s of
        None \<Rightarrow> None
      | Some (v, r) \<Rightarrow>
          (let d' = (d + v) mod 2 ^ 64 in if d' > 2 ^ 63 then None else parseDurLoop frac d' r))"
  by pat_completeness auto
termination
  by (relation "measure (\<lambda>(_, _, s). length s)") (auto dest: durPiece_shorter)

declare parseDurLoop.simps [simp del]

definition ParseDuration :: "(nat \<Rightarrow> nat \<Rightarrow> nat \<Rightarrow> nat) \<Rightarrow> string \<Rightarrow> int option" where
  "ParseDuration frac orig =
     (case parse_sign orig of (neg, s) \<Rightarrow>
        if s = ''0'' then Some 0
        else if s = [] then None
        else (case parseDurLoop frac 0 s of
                None \<Rightarrow> None
              | Some d \<Rightarrow>
                  if neg then Some (- int d)
                  else if d > 2 ^ 63 - 1 then None else Some (int d)))"

lemma parseDurLoop_bound: "parseDurLoop frac d s = Some r \<Longrightarrow> d \<le> 2 ^ 63 \<Longrightarrow> r \<le> 2 ^ 63"
proof (induction frac d s rule: parseDurLoop.induct)
  case (1 frac d s)
  from 1(2) have run: "(if s = [] then Some d else case durPiece frac s of None \<Rightarrow> None
      | Some (v, t) \<Rightarrow> (let d' = (d + v) mod 2 ^ 64 in if d' > 2 ^ 63 then None else parseDurLoop frac d' t)) = Some r"
    by (subst (asm) parseDurLoop.simps)
  show ?case
  proof (cases "s = []")
    case False
    with run obtain v t where p: "durPiece frac s = Some (v, t)" and b: "\<not> (d + v) mod 2 ^ 64 > 2 ^ 63"
        and rec: "parseDurLoop frac ((d + v) mod 2 ^ 64) t = Some r"
      by (auto simp: Let_def split: option.splits if_splits prod.splits)
    show ?thesis using 1(1) [OF False p refl refl b rec] b by simp
  qed (use run 1(3) in simp)
qed

lemma ParseDuration_range: "ParseDuration frac s = Some d \<Longrightarrow> in_int64 d"
  using parseDurLoop_bound [of frac 0 "snd (parse_sign s)"]
  by (auto simp: ParseDuration_def in_int64_def split: prod.splits if_splits option.splits)

text \<open>A whole number with a unit is read exactly, as long as it fits.\<close>

lemma leadingInt_showNat:
  assumes "n \<le> 2 ^ 63" and "c = [] \<or> \<not> is_digit (hd c)"
  shows "leadingInt 0 (showNat n @ c) = Some (n, c)"
proof -
  have "leadingInt x (ds @ c) = Some (dec_val x ds, c)"
    if "\<forall>d \<in> set ds. is_digit d" "dec_val x ds \<le> 2 ^ 63" for x ds
    using that
  proof (induction ds arbitrary: x)
    case Nil
    then show ?case using assms(2) by (cases c) (auto simp: dec_val_def)
  next
    case (Cons d ds)
    have step: "dec_val x (d # ds) = dec_val (x * 10 + digit_val d) ds" by (simp add: dec_val_def)
    then have "x * 10 + digit_val d \<le> 2 ^ 63" using Cons.prems(2) dec_val_mono [of "x * 10 + digit_val d" ds] by simp
    moreover from this have "x \<le> 2 ^ 63 div 10" by simp
    ultimately show ?case using Cons step by (simp add: Let_def)
  qed
  from this [of "showNat n" 0] show ?thesis using assms(1) showNat_digits by (simp add: dec_val_showNat)
qed

lemma ParseDuration_whole:
  assumes "unitOf u = Some unit" and "u \<noteq> []" and "\<forall>c \<in> set u. unit_char c"
    and "0 < unit" and "n * unit < 2 ^ 63"
  shows "ParseDuration frac (showNat n @ u) = Some (int (n * unit))"
proof -
  obtain d ds where dig: "showNat n = d # ds" by (meson showNat_nonempty list.exhaust)
  then have d: "is_digit d" using showNat_digits [of d n] by simp
  have hd: "\<not> is_digit (hd u)" "hd u \<noteq> CHR ''.''"
    using assms(2,3) by (auto simp: unit_char_def dest!: bspec [where x = "hd u"])
  have "n \<le> n * unit" using assms(4) by simp
  then have "n \<le> 2 ^ 63" using assms(5) by linarith
  then have lead: "leadingInt 0 (showNat n @ u) = Some (n, u)" using hd by (intro leadingInt_showNat) auto
  have split: "takeWhile unit_char u = u" "dropWhile unit_char u = []" using assms(3) by simp_all
  have fits: "\<not> n > 2 ^ 63 div unit"
    using assms(4,5) by (simp add: not_less less_eq_div_iff_mult_less_eq)
  have "\<not> unit_char (hd (showNat n @ u))" using d dig by (simp add: unit_char_def)
  then have piece: "durPiece frac (showNat n @ u) = Some (n * unit, [])"
    unfolding durPiece_def lead Let_def using hd(2) fits assms(1,2) by (simp add: split)
  have "parse_sign (showNat n @ u) = (False, showNat n @ u)"
    using d dig by (auto simp: parse_sign_def is_digit_def)
  moreover have "showNat n @ u \<noteq> ''0''"
    using assms(2) showNat_nonempty [of n] by (cases "showNat n"; cases u) auto
  moreover have "parseDurLoop frac 0 (showNat n @ u) = Some (n * unit)"
    using assms(5) piece by (simp add: parseDurLoop.simps)
  ultimately show ?thesis using assms(5) by (simp add: ParseDuration_def)
qed

end
