(* ===== verification/MainConfig.thy ===== *)
theory MainConfig
  imports GoTime MultiZone Controller
begin

text \<open>
  \<open>cmd/external-dns-docker/main.go\<close>: environment and flag defaults, the two multi-zone
  configurations, the choice of the provider mode and the startup sequence.

  The environment is the list of \<open>key=value\<close> strings that \<open>os.Environ\<close> returns; the flags after \<open>flag.Parse\<close> are a record.  Outside
  the repository and therefore arguments: \<open>readFile\<close> (the file system), \<open>unmarshal\<close> (the YAML library),
  \<open>frac\<close> (floating point in \<open>ParseDuration\<close>), the DNS library and network, and the Docker client.

  Shown here: which environment variable sets which field, that the zones of both configurations are
  complete and in a fixed order, and which configurations start in which mode.
\<close>


section \<open>Environment\<close>

type_synonym environ = "string list"

definition Getenv :: "environ \<Rightarrow> string \<Rightarrow> string" where
  "Getenv environ key =
     (case find (\<lambda>e. case CutByte e CHR ''='' of (k, v, ok) \<Rightarrow> ok \<and> k = key) environ of
        None \<Rightarrow> []
      | Some e \<Rightarrow> fst (snd (CutByte e CHR ''='')))"

definition envOr :: "environ \<Rightarrow> string \<Rightarrow> string \<Rightarrow> string" where
  "envOr environ key fallback = (let v = Getenv environ key in if v \<noteq> [] then v else fallback)"

definition envOrInt :: "environ \<Rightarrow> string \<Rightarrow> int \<Rightarrow> int" where
  "envOrInt environ key fallback =
     (let v = Getenv environ key in
      if v = [] then fallback else case ParseInt v of Inl e \<Rightarrow> fallback | Inr n \<Rightarrow> n)"

definition envOrInt64 :: "environ \<Rightarrow> string \<Rightarrow> int \<Rightarrow> int" where
  "envOrInt64 environ key fallback =
     (let v = Getenv environ key in
      if v = [] then fallback else case ParseInt v of Inl e \<Rightarrow> fallback | Inr n \<Rightarrow> n)"

definition envOrBool :: "environ \<Rightarrow> string \<Rightarrow> bool \<Rightarrow> bool" where
  "envOrBool environ key fallback =
     (let v = Getenv environ key in
      if v = [] then fallback else case ParseBool v of None \<Rightarrow> fallback | Some b \<Rightarrow> b)"

definition envOrDuration ::
  "(nat \<Rightarrow> nat \<Rightarrow> nat \<Rightarrow> nat) \<Rightarrow> environ \<Rightarrow> string \<Rightarrow> int \<Rightarrow> int"
where
  "envOrDuration frac environ key fallback =
     (let v = Getenv environ key in
      if v = [] then fallback else case ParseDuration frac v of None \<Rightarrow> fallback | Some d \<Rightarrow> d)"


section \<open>Flags\<close>

record flags =
  fHost :: string
  fPort :: int
  fZone :: string
  fTSIGKey :: string
  fTSIGSecret :: string
  fTSIGSecretFile :: string
  fTSIGAlg :: string
  fMinTTL :: int
  fTimeout :: int
  fConfigFile :: string
  fDockerHost :: string
  fDockerTLSCA :: string
  fDockerTLSCert :: string
  fDockerTLSKey :: string
  fInterval :: int
  fDebounce :: int
  fOnce :: bool
  fDryRun :: bool
  fOwnerID :: string
  fSkipPreflight :: bool
  fBackoffBase :: int
  fBackoffMax :: int
  fHealthPort :: int
  fMetricsPath :: string
  fShutdownTimeout :: int
  fLogLevel :: string

text \<open>The values of the flags when the command line sets none.\<close>

definition flagDefaults :: "(nat \<Rightarrow> nat \<Rightarrow> nat \<Rightarrow> nat) \<Rightarrow> environ \<Rightarrow> flags" where
  "flagDefaults frac env =
     \<lparr>fHost = envOr env ''EXTERNAL_DNS_RFC2136_HOST'' [],
      fPort = envOrInt env ''EXTERNAL_DNS_RFC2136_PORT'' 53,
      fZone = envOr env ''EXTERNAL_DNS_RFC2136_ZONE'' [],
      fTSIGKey = envOr env ''EXTERNAL_DNS_RFC2136_TSIG_KEY'' [],
      fTSIGSecret = envOr env ''EXTERNAL_DNS_RFC2136_TSIG_SECRET'' [],
      fTSIGSecretFile = envOr env ''EXTERNAL_DNS_RFC2136_TSIG_SECRET_FILE'' [],
      fTSIGAlg = envOr env ''EXTERNAL_DNS_RFC2136_TSIG_ALG'' ''hmac-sha256'',
      fMinTTL = envOrInt64 env ''EXTERNAL_DNS_RFC2136_MIN_TTL'' 0,
      fTimeout = envOrDuration frac env ''EXTERNAL_DNS_RFC2136_TIMEOUT'' 10000000000,
      fConfigFile = envOr env ''EXTERNAL_DNS_RFC2136_CONFIG_FILE'' [],
      fDockerHost = envOr env ''EXTERNAL_DNS_DOCKER_HOST'' [],
      fDockerTLSCA = envOr env ''EXTERNAL_DNS_DOCKER_TLS_CA'' [],
      fDockerTLSCert = envOr env ''EXTERNAL_DNS_DOCKER_TLS_CERT'' [],
      fDockerTLSKey = envOr env ''EXTERNAL_DNS_DOCKER_TLS_KEY'' [],
      fInterval = envOrDuration frac env ''EXTERNAL_DNS_INTERVAL'' 60000000000,
      fDebounce = envOrDuration frac env ''EXTERNAL_DNS_DEBOUNCE'' 5000000000,
      fOnce = envOrBool env ''EXTERNAL_DNS_ONCE'' False,
      fDryRun = envOrBool env ''EXTERNAL_DNS_DRY_RUN'' False,
      fOwnerID = envOr env ''EXTERNAL_DNS_OWNER_ID'' [],
      fSkipPreflight = envOrBool env ''EXTERNAL_DNS_SKIP_PREFLIGHT'' False,
      fBackoffBase = envOrDuration frac env ''EXTERNAL_DNS_RECONCILE_BACKOFF_BASE'' 5000000000,
      fBackoffMax = envOrDuration frac env ''EXTERNAL_DNS_RECONCILE_BACKOFF_MAX'' 300000000000,
      fHealthPort = envOrInt env ''EXTERNAL_DNS_HEALTH_PORT'' 8080,
      fMetricsPath = envOr env ''EXTERNAL_DNS_METRICS_PATH'' ''/metrics'',
      fShutdownTimeout = envOrDuration frac env ''EXTERNAL_DNS_SHUTDOWN_TIMEOUT'' 30000000000,
      fLogLevel = envOr env ''EXTERNAL_DNS_LOG_LEVEL'' ''info''\<rparr>"

datatype slog_level = LevelDebug | LevelInfo | LevelWarn | LevelError

definition newLogger :: "string \<Rightarrow> slog_level" where
  "newLogger level =
     (let l = ToLower level in
      if l = ''debug'' then LevelDebug
      else if l = ''warn'' then LevelWarn
      else if l = ''error'' then LevelError
      else LevelInfo)"


section \<open>Zones from the environment\<close>

type_synonym setter = "ZoneConfig \<Rightarrow> string \<Rightarrow> ZoneConfig result"

definition noZone :: ZoneConfig where
  "noZone = \<lparr>zcHost = [], zcPort = 0, zcZone = [], zcTSIGKey = [], zcTSIGSecret = [], zcTSIGSecretFile = [],
     zcTSIGAlg = [], zcMinTTL = 0, zcTimeout = 0\<rparr>"

definition setMinTTL :: setter where
  "setMinTTL zc val = (case ParseInt val of
     Inl e \<Rightarrow> Inl (InvalidValue ''invalid MIN_TTL'' val) | Inr n \<Rightarrow> Inr (zc\<lparr>zcMinTTL := n\<rparr>))"

definition setTimeout :: "(nat \<Rightarrow> nat \<Rightarrow> nat \<Rightarrow> nat) \<Rightarrow> setter" where
  "setTimeout frac zc val = (case ParseDuration frac val of
     None \<Rightarrow> Inl (InvalidValue ''invalid TIMEOUT'' val) | Some d \<Rightarrow> Inr (zc\<lparr>zcTimeout := d\<rparr>))"

definition setPort :: setter where
  "setPort zc val = (case ParseInt val of
     Inl e \<Rightarrow> Inl (InvalidValue ''invalid PORT'' val) | Inr n \<Rightarrow> Inr (zc\<lparr>zcPort := n\<rparr>))"

definition zoneFieldSetters :: "(nat \<Rightarrow> nat \<Rightarrow> nat \<Rightarrow> nat) \<Rightarrow> (string \<times> setter) list" where
  "zoneFieldSetters frac =
     [(''TSIG_SECRET_FILE'', \<lambda>zc val. Inr (zc\<lparr>zcTSIGSecretFile := val\<rparr>)),
      (''TSIG_SECRET'', \<lambda>zc val. Inr (zc\<lparr>zcTSIGSecret := val\<rparr>)),
      (''TSIG_KEY'', \<lambda>zc val. Inr (zc\<lparr>zcTSIGKey := val\<rparr>)),
      (''TSIG_ALG'', \<lambda>zc val. Inr (zc\<lparr>zcTSIGAlg := val\<rparr>)),
      (''MIN_TTL'', setMinTTL),
      (''TIMEOUT'', setTimeout frac),
      (''HOST'', \<lambda>zc val. Inr (zc\<lparr>zcHost := val\<rparr>)),
      (''PORT'', setPort),
      (''ZONE'', \<lambda>zc val. Inr (zc\<lparr>zcZone := val\<rparr>))]"

definition zonePrefix :: string where "zonePrefix = ''EXTERNAL_DNS_RFC2136_ZONE_''"

text \<open>The inner loop, with its \<open>break\<close>s; \<open>k\<close> is the variable's name, for the error text.\<close>

fun applySetter ::
  "string \<Rightarrow> string \<Rightarrow> string \<Rightarrow> (string \<times> setter) list \<Rightarrow> (string, ZoneConfig) gomap \<Rightarrow>
   (string, ZoneConfig) gomap result"
where
  "applySetter k rest v [] configs = Inr configs"
| "applySetter k rest v ((suffix, setf) # fs) configs =
     (let sfx = ''_'' @ suffix in
      if \<not> HasSuffix rest sfx then applySetter k rest v fs configs
      else
        (let name = take (length rest - length sfx) rest in
         if name = [] then Inr configs
         else
           (let zc = (case map_of configs name of None \<Rightarrow> noZone | Some zc \<Rightarrow> zc) in
            case setf zc v of
              Inl serr \<Rightarrow> Inl (Wrap (''env '' @ k) serr)
            | Inr zc' \<Rightarrow> Inr (AList.update name zc' configs))))"

fun scanEnviron ::
  "(string \<times> setter) list \<Rightarrow> environ \<Rightarrow> (string, ZoneConfig) gomap \<Rightarrow> (string, ZoneConfig) gomap result"
where
  "scanEnviron fs [] configs = Inr configs"
| "scanEnviron fs (env # envs) configs =
     (case CutByte env CHR ''='' of (k, v, ok) \<Rightarrow>
        if \<not> ok \<or> \<not> HasPrefix k zonePrefix then scanEnviron fs envs configs
        else (case applySetter k (drop (length zonePrefix) k) v fs configs of
                Inl err \<Rightarrow> Inl err
              | Inr configs' \<Rightarrow> scanEnviron fs envs configs'))"

fun resolveZones ::
  "(string \<Rightarrow> string result) \<Rightarrow> (string, ZoneConfig) gomap \<Rightarrow> string list \<Rightarrow> ZoneConfig list \<Rightarrow>
   ZoneConfig list result"
where
  "resolveZones readFile configs [] result = Inr result"
| "resolveZones readFile configs (name # names) result =
     (let zc = the (map_of configs name) in
      if zcHost zc = [] then Inl (Errorf (''zone '' @ name @ '': HOST is required''))
      else if zcZone zc = [] then Inl (Errorf (''zone '' @ name @ '': ZONE is required''))
      else if zcTSIGSecretFile zc \<noteq> [] then
        (case readFile (zcTSIGSecretFile zc) of
           Inl rerr \<Rightarrow> Inl (Wrap (''zone '' @ name @ '': reading TSIG_SECRET_FILE'') rerr)
         | Inr data \<Rightarrow> resolveZones readFile configs names
             (result @ [zc\<lparr>zcTSIGSecret := TrimSpace data, zcTSIGSecretFile := []\<rparr>]))
      else resolveZones readFile configs names (result @ [zc]))"

text \<open>The result and whether any variable matched; \<open>rng\<close> is the order of \<open>range configs\<close>.\<close>

definition loadZoneConfigsFromEnv ::
  "(nat \<Rightarrow> nat \<Rightarrow> nat \<Rightarrow> nat) \<Rightarrow> (string \<Rightarrow> string result) \<Rightarrow> (string, ZoneConfig) range_order \<Rightarrow> environ \<Rightarrow>
   (ZoneConfig list \<times> bool) result"
where
  "loadZoneConfigsFromEnv frac readFile rng environ =
     (case scanEnviron (zoneFieldSetters frac) environ [] of
        Inl err \<Rightarrow> Inl err
      | Inr configs \<Rightarrow>
          if length configs = 0 then Inr ([], False)
          else (case resolveZones readFile configs (sort (map fst (rng configs))) [] of
                  Inl err \<Rightarrow> Inl err
                | Inr result \<Rightarrow> Inr (result, True)))"


section \<open>Zones from a YAML file\<close>

record yamlZoneEntry =
  yHost :: string
  yPort :: int
  yZone :: string
  yTSIGKey :: string
  yTSIGSecret :: string
  yTSIGSecretFile :: string
  yTSIGAlg :: string
  yMinTTL :: int
  yTimeout :: string

record yamlZonesFile =
  Zones :: "yamlZoneEntry list"

definition zoneAt :: "nat \<Rightarrow> string" where
  "zoneAt i = ''zone['' @ showNat i @ '']''"

definition yamlSecret :: "(string \<Rightarrow> string result) \<Rightarrow> nat \<Rightarrow> yamlZoneEntry \<Rightarrow> string result" where
  "yamlSecret readFile i z =
     (if yTSIGSecretFile z \<noteq> [] then
        (case readFile (yTSIGSecretFile z) of
           Inl ferr \<Rightarrow> Inl (Wrap (zoneAt i @ '': reading tsig-secret-file'') ferr)
         | Inr data \<Rightarrow> Inr (TrimSpace data))
      else Inr (yTSIGSecret z))"

definition yamlTimeout :: "(nat \<Rightarrow> nat \<Rightarrow> nat \<Rightarrow> nat) \<Rightarrow> nat \<Rightarrow> yamlZoneEntry \<Rightarrow> int result" where
  "yamlTimeout frac i z =
     (if yTimeout z \<noteq> [] then
        (case ParseDuration frac (yTimeout z) of
           None \<Rightarrow> Inl (InvalidValue (zoneAt i @ '': invalid timeout'') (yTimeout z))
         | Some d \<Rightarrow> Inr d)
      else Inr 0)"

definition yamlZone ::
  "(nat \<Rightarrow> nat \<Rightarrow> nat \<Rightarrow> nat) \<Rightarrow> (string \<Rightarrow> string result) \<Rightarrow> nat \<Rightarrow> yamlZoneEntry \<Rightarrow> ZoneConfig result"
where
  "yamlZone frac readFile i z =
     (if yHost z = [] then Inl (Errorf (zoneAt i @ '': host is required''))
      else if yZone z = [] then Inl (Errorf (zoneAt i @ '': zone is required''))
      else if yTSIGSecret z \<noteq> [] \<and> yTSIGSecretFile z \<noteq> [] then
        Inl (Errorf (zoneAt i @ '': tsig-secret and tsig-secret-file are mutually exclusive''))
      else (case yamlSecret readFile i z of
              Inl e \<Rightarrow> Inl e
            | Inr secret \<Rightarrow>
                (case yamlTimeout frac i z of
                   Inl e \<Rightarrow> Inl e
                 | Inr timeout \<Rightarrow>
                     Inr \<lparr>zcHost = yHost z, zcPort = yPort z, zcZone = yZone z, zcTSIGKey = yTSIGKey z,
                          zcTSIGSecret = secret, zcTSIGSecretFile = [], zcTSIGAlg = yTSIGAlg z,
                          zcMinTTL = yMinTTL z, zcTimeout = timeout\<rparr>)))"

fun yamlZones ::
  "(nat \<Rightarrow> nat \<Rightarrow> nat \<Rightarrow> nat) \<Rightarrow> (string \<Rightarrow> string result) \<Rightarrow> nat \<Rightarrow> yamlZoneEntry list \<Rightarrow>
   ZoneConfig list \<Rightarrow> ZoneConfig list result"
where
  "yamlZones frac readFile i [] configs = Inr configs"
| "yamlZones frac readFile i (z # zs) configs =
     (case yamlZone frac readFile i z of
        Inl e \<Rightarrow> Inl e
      | Inr zc \<Rightarrow> yamlZones frac readFile (Suc i) zs (configs @ [zc]))"

definition loadZoneConfigsFromFile ::
  "(nat \<Rightarrow> nat \<Rightarrow> nat \<Rightarrow> nat) \<Rightarrow> (string \<Rightarrow> string result) \<Rightarrow> (string \<Rightarrow> yamlZonesFile result) \<Rightarrow> string \<Rightarrow>
   ZoneConfig list result"
where
  "loadZoneConfigsFromFile frac readFile unmarshal path =
     (case readFile path of
        Inl err \<Rightarrow> Inl (Wrap ''reading config file'' err)
      | Inr data \<Rightarrow>
          (case unmarshal data of
             Inl err \<Rightarrow> Inl (Wrap ''parsing config file'' err)
           | Inr raw \<Rightarrow> yamlZones frac readFile 0 (Zones raw) []))"


section \<open>Startup\<close>

datatype launch = LaunchSingle rfc_config | LaunchMulti string "ZoneConfig list"

definition singleZoneFlagsSet :: "flags \<Rightarrow> bool" where
  "singleZoneFlagsSet fl \<longleftrightarrow> fHost fl \<noteq> [] \<or> fZone fl \<noteq> []"

definition singleZone :: "(string \<Rightarrow> string result) \<Rightarrow> flags \<Rightarrow> launch result" where
  "singleZone readFile fl =
     (if fTSIGSecret fl \<noteq> [] \<and> fTSIGSecretFile fl \<noteq> [] then
        Inl (Errorf ''--rfc2136-tsig-secret and --rfc2136-tsig-secret-file are mutually exclusive'')
      else
        (let start = (\<lambda>secret. Inr (LaunchSingle
               \<lparr>Host = fHost fl, Port = fPort fl, Zone = fZone fl, TSIGKeyName = fTSIGKey fl, TSIGSecret = secret,
                TSIGSecretAlg = fTSIGAlg fl, MinTTL = fMinTTL fl, Timeout = fTimeout fl\<rparr>)) in
         if fTSIGSecretFile fl \<noteq> [] then
           (case readFile (fTSIGSecretFile fl) of
              Inl rerr \<Rightarrow> Inl (Wrap ''failed to read TSIG secret file'' rerr)
            | Inr data \<Rightarrow> start (TrimSpace data))
         else start (fTSIGSecret fl)))"

text \<open>The mode detection of \<open>main\<close>: every \<open>os.Exit(1)\<close> is an error with the text that is logged.\<close>

definition selectMode ::
  "(nat \<Rightarrow> nat \<Rightarrow> nat \<Rightarrow> nat) \<Rightarrow> (string \<Rightarrow> string result) \<Rightarrow> (string \<Rightarrow> yamlZonesFile result) \<Rightarrow>
   (string, ZoneConfig) range_order \<Rightarrow> environ \<Rightarrow> flags \<Rightarrow> launch result"
where
  "selectMode frac readFile unmarshal rng environ fl =
     (case loadZoneConfigsFromEnv frac readFile rng environ of
        Inl err \<Rightarrow> Inl (Wrap ''invalid multi-zone env var configuration'' err)
      | Inr (envConfigs, envModeActive) \<Rightarrow>
          if fConfigFile fl \<noteq> [] then
            (if singleZoneFlagsSet fl then
               Inl (Errorf ''--rfc2136-config-file is mutually exclusive with --rfc2136-host / --rfc2136-zone'')
             else if envModeActive then
               Inl (Errorf ''--rfc2136-config-file is mutually exclusive with EXTERNAL_DNS_RFC2136_ZONE_* env vars'')
             else (case loadZoneConfigsFromFile frac readFile unmarshal (fConfigFile fl) of
                     Inl ferr \<Rightarrow> Inl (Wrap ''failed to load zone config file'' ferr)
                   | Inr configs \<Rightarrow> Inr (LaunchMulti ''multi-zone (yaml-file)'' configs)))
          else if envModeActive then
            (if singleZoneFlagsSet fl then
               Inl (Errorf ''EXTERNAL_DNS_RFC2136_ZONE_* env vars are mutually exclusive with --rfc2136-host / --rfc2136-zone'')
             else Inr (LaunchMulti ''multi-zone (env-prefix)'' envConfigs))
          else if fHost fl \<noteq> [] \<and> fZone fl \<noteq> [] then singleZone readFile fl
          else Inl (Errorf ''no RFC2136 configuration provided''))"

definition dockerOpts :: "flags \<Rightarrow> docker_opt list" where
  "dockerOpts fl =
     (if fDockerHost fl \<noteq> [] then [WithHost (fDockerHost fl)] else [])
     @ (if fDockerTLSCert fl \<noteq> [] \<or> fDockerTLSKey fl \<noteq> [] \<or> fDockerTLSCA fl \<noteq> []
        then [WithTLSClientConfig (fDockerTLSCA fl) (fDockerTLSCert fl) (fDockerTLSKey fl)] else [])"

definition controllerConfig :: "flags \<Rightarrow> ctrl_config" where
  "controllerConfig fl =
     \<lparr>Interval = fInterval fl, DebounceDuration = fDebounce fl, BackoffBase = fBackoffBase fl,
      BackoffMax = fBackoffMax fl, DryRun = fDryRun fl, Once = fOnce fl, OwnerID = fOwnerID fl\<rparr>"

definition launchPreflight ::
  "dns_lib \<Rightarrow> (dns_Transfer, dns_Client, 'n) network \<Rightarrow> launch \<Rightarrow> 'n \<Rightarrow> goerror option \<times> 'n"
where
  "launchPreflight lib net l n = (case l of
     LaunchSingle c \<Rightarrow> Preflight lib net (rfc2136_New lib c) n
   | LaunchMulti mode configs \<Rightarrow> multi_Preflight lib net (NewMulti lib configs) n)"

definition launchMethods ::
  "dns_lib \<Rightarrow> (dns_Transfer, dns_Client, 'n) network \<Rightarrow> nat list \<Rightarrow> launch \<Rightarrow> 'n provider"
where
  "launchMethods lib net sched l = (case l of
     LaunchSingle c \<Rightarrow> rfc2136_methods lib net (rfc2136_New lib c)
   | LaunchMulti mode configs \<Rightarrow> multi_methods lib net sched (NewMulti lib configs))"

text \<open>From the parsed flags to the controller, or to an exit with status 1.\<close>

definition startup ::
  "(nat \<Rightarrow> nat \<Rightarrow> nat \<Rightarrow> nat) \<Rightarrow> (string \<Rightarrow> string result) \<Rightarrow> (string \<Rightarrow> yamlZonesFile result) \<Rightarrow>
   (string, ZoneConfig) range_order \<Rightarrow> environ \<Rightarrow> (docker_opt list \<Rightarrow> 'c result) \<Rightarrow> dns_lib \<Rightarrow>
   (dns_Transfer, dns_Client, 'n) network \<Rightarrow> flags \<Rightarrow> 'n \<Rightarrow>
   (launch \<times> (('c, 'h) docker_source, 'n) controller) result"
where
  "startup frac readFile unmarshal rng environ newClient lib net fl n =
     (case selectMode frac readFile unmarshal rng environ fl of
        Inl e \<Rightarrow> Inl e
      | Inr l \<Rightarrow>
          (case NewDockerSource newClient (dockerOpts fl) of
             Inl e \<Rightarrow> Inl (Wrap ''failed to create Docker source'' e)
           | Inr src \<Rightarrow>
               (case (if fSkipPreflight fl then (None, n) else launchPreflight lib net l n) of
                  (Some e, n') \<Rightarrow> Inl (Wrap ''DNS preflight check failed'' e)
                | (None, n') \<Rightarrow> Inr (l, controller_New src n' (controllerConfig fl)))))"

text \<open>\<open>errors.Is(err, context.Canceled)\<close> and the exit status after \<open>Run\<close>.\<close>

fun isCanceled :: "goerror \<Rightarrow> bool" where
  "isCanceled (ContextError m) \<longleftrightarrow> m = ''context canceled''"
| "isCanceled (Wrap m e) \<longleftrightarrow> isCanceled e"
| "isCanceled _ \<longleftrightarrow> False"

definition exitStatus :: "goerror option \<Rightarrow> nat" where
  "exitStatus err = (case err of None \<Rightarrow> 0 | Some e \<Rightarrow> if \<not> isCanceled e then 1 else 0)"

text \<open>The two handlers of the health server: status and body.\<close>

definition healthz :: "nat \<times> string" where
  "healthz = (200, ''ok'' @ [CHR 0x0A])"

definition readyz :: "('s, 'p) controller \<Rightarrow> nat \<times> string" where
  "readyz ctrl = (if IsReady ctrl then (200, ''ok'' @ [CHR 0x0A]) else (503, ''not ready'' @ [CHR 0x0A]))"


section \<open>Which variable sets which field\<close>

definition setterFor :: "string \<Rightarrow> (string \<times> setter) list \<Rightarrow> (string \<times> setter) option" where
  "setterFor rest fs = find (\<lambda>f. HasSuffix rest (''_'' @ fst f)) fs"

lemma applySetter_find:
  "applySetter k rest v fs configs = (case setterFor rest fs of
     None \<Rightarrow> Inr configs
   | Some f \<Rightarrow> applySetter k rest v [f] configs)"
  by (induction k rest v fs configs rule: applySetter.induct) (auto simp: setterFor_def Let_def)

lemma find_perm:
  assumes "mset xs = mset ys" and "\<And>x y. x \<in> set xs \<Longrightarrow> y \<in> set xs \<Longrightarrow> P x \<Longrightarrow> P y \<Longrightarrow> x = y"
  shows "find P xs = find P ys"
proof -
  have s: "set xs = set ys" using assms(1) by (metis set_mset_mset)
  show ?thesis
  proof (cases "find P xs")
    case None
    then show ?thesis using s by (metis find_None_iff)
  next
    case (Some x)
    then have x: "x \<in> set xs" "P x" by (auto simp: find_Some_iff)
    then obtain y where "find P ys = Some y" using s by (metis find_None_iff not_None_eq)
    then have "y \<in> set xs" "P y" using s by (auto simp: find_Some_iff)
    then show ?thesis using assms(2) [of x y] x \<open>find P ys = Some y\<close> Some by simp
  qed
qed

lemma HasSuffix_both: "HasSuffix r a \<Longrightarrow> HasSuffix r b \<Longrightarrow> length a \<le> length b \<Longrightarrow> HasSuffix b a"
  by (auto simp: HasSuffix_iff append_eq_append_conv2)

definition zoneSuffixes :: "string list" where
  "zoneSuffixes = [''TSIG_SECRET_FILE'', ''TSIG_SECRET'', ''TSIG_KEY'', ''TSIG_ALG'', ''MIN_TTL'', ''TIMEOUT'',
     ''HOST'', ''PORT'', ''ZONE'']"

lemma fst_setters: "map fst (zoneFieldSetters frac) = zoneSuffixes"
  by (simp add: zoneFieldSetters_def zoneSuffixes_def)

lemma suffixes_apart:
  "distinct zoneSuffixes \<and> list_all (\<lambda>s. list_all (\<lambda>t. HasSuffix (''_'' @ s) (''_'' @ t) \<longrightarrow> s = t) zoneSuffixes) zoneSuffixes"
  by code_simp

lemma setters_disjoint:
  assumes "a \<in> set (zoneFieldSetters frac)" "b \<in> set (zoneFieldSetters frac)"
    and "HasSuffix rest (''_'' @ fst a)" "HasSuffix rest (''_'' @ fst b)"
  shows "a = b"
proof -
  have in_suffixes: "fst a \<in> set zoneSuffixes" "fst b \<in> set zoneSuffixes"
    using assms(1,2) fst_setters [of frac] by (metis image_eqI list.set_map)+
  have "HasSuffix (''_'' @ fst b) (''_'' @ fst a) \<or> HasSuffix (''_'' @ fst a) (''_'' @ fst b)"
    using HasSuffix_both [OF assms(3,4)] HasSuffix_both [OF assms(4,3)] nat_le_linear by blast
  then have "fst a = fst b" using suffixes_apart in_suffixes unfolding list_all_iff by metis
  moreover have "distinct (map fst (zoneFieldSetters frac))" using suffixes_apart fst_setters by metis
  ultimately show ?thesis using assms(1,2) by (metis eq_key_imp_eq_value prod.collapse)
qed

text \<open>
  The table of zone variables is unambiguous: a variable name ends in the suffix of at most one
  field, so the field it sets does not depend on the order of the table, although the comment on it
  asks for longer suffixes first.
\<close>

lemma setter_order_irrelevant:
  assumes "mset fs = mset (zoneFieldSetters frac)"
  shows "applySetter k rest v fs configs = applySetter k rest v (zoneFieldSetters frac) configs"
proof -
  have "setterFor rest (zoneFieldSetters frac) = setterFor rest fs"
    unfolding setterFor_def using assms setters_disjoint [of _ frac] by (intro find_perm) (simp, metis)
  then show ?thesis using applySetter_find by metis
qed

lemma setter_order_irrelevant_example:
  "applySetter ''X'' ''A_TSIG_SECRET_FILE'' ''/f'' (rev (zoneFieldSetters (\<lambda>_ _ _. 0))) [] =
     Inr [(''A'', noZone\<lparr>zcTSIGSecretFile := ''/f''\<rparr>)]"
  using setter_order_irrelevant [of "rev (zoneFieldSetters (\<lambda>_ _ _. 0))" "\<lambda>_ _ _. 0"]
  by (simp add: zoneFieldSetters_def HasSuffix_def)



section \<open>Zones of the environment\<close>

lemma applySetter_ok: "applySetter k rest v fs configs = Inr c \<Longrightarrow> gomap_ok configs \<Longrightarrow> gomap_ok c"
  by (induction k rest v fs configs rule: applySetter.induct)
    (auto simp: Let_def gomap.invar_update split: if_splits sum.splits option.splits)

lemma scanEnviron_ok: "scanEnviron fs envs configs = Inr c \<Longrightarrow> gomap_ok configs \<Longrightarrow> gomap_ok c"
  by (induction fs envs configs rule: scanEnviron.induct)
    (auto split: if_splits sum.splits prod.splits dest: applySetter_ok)

text \<open>A zone as it is configured and as it is used.\<close>

definition resolved :: "(string \<Rightarrow> string result) \<Rightarrow> ZoneConfig \<Rightarrow> ZoneConfig \<Rightarrow> bool" where
  "resolved readFile zc zc' \<longleftrightarrow>
     zcHost zc \<noteq> [] \<and> zcZone zc \<noteq> []
   \<and> (if zcTSIGSecretFile zc = [] then zc' = zc
      else \<exists>data. readFile (zcTSIGSecretFile zc) = Inr data
             \<and> zc' = zc\<lparr>zcTSIGSecret := TrimSpace data, zcTSIGSecretFile := []\<rparr>)"

lemma resolveZones_Inr:
  "resolveZones readFile configs names acc = Inr zs \<longleftrightarrow>
     (\<exists>rs. zs = acc @ rs \<and> list_all2 (\<lambda>n. resolved readFile (the (map_of configs n))) names rs)"
proof (induction names arbitrary: acc)
  case (Cons n names)
  let ?zc = "the (map_of configs n)"
  have one: "resolved readFile ?zc r \<Longrightarrow> resolveZones readFile configs (n # names) acc =
      resolveZones readFile configs names (acc @ [r])" for r
    by (auto simp: resolved_def Let_def split: if_splits)
  have none: "\<nexists>r. resolved readFile ?zc r \<Longrightarrow> \<exists>e. resolveZones readFile configs (n # names) acc = Inl e"
    by (auto simp: resolved_def Let_def split: if_splits sum.splits)
  have uniq: "resolved readFile ?zc r \<Longrightarrow> resolved readFile ?zc r' \<Longrightarrow> r = r'" for r r'
    by (auto simp: resolved_def split: if_splits)
  show ?case
  proof (cases "\<exists>r. resolved readFile ?zc r")
    case True
    then obtain r where r: "resolved readFile ?zc r" by blast
    then show ?thesis unfolding one [OF r] Cons.IH list_all2_Cons1 using uniq by fastforce
  next
    case False
    then show ?thesis using none unfolding list_all2_Cons1 by fastforce
  qed
qed auto

lemma load_env_Inr:
  "loadZoneConfigsFromEnv frac readFile rng environ = Inr (zs, active) \<longleftrightarrow>
     (\<exists>configs. scanEnviron (zoneFieldSetters frac) environ [] = Inr configs
        \<and> (configs = [] \<and> zs = [] \<and> \<not> active
           \<or> configs \<noteq> [] \<and> active
             \<and> list_all2 (\<lambda>n. resolved readFile (the (map_of configs n))) (sort (map fst (rng configs))) zs))"
proof -
  have flag: "(case r of Inl err \<Rightarrow> Inl err | Inr result \<Rightarrow> Inr (result, True)) = Inr (zs, active) \<longleftrightarrow> r = Inr zs \<and> active"
    for r :: "ZoneConfig list result"
    by (cases r) auto
  show ?thesis
    unfolding loadZoneConfigsFromEnv_def
    by (cases "scanEnviron (zoneFieldSetters frac) environ []") (auto simp: flag resolveZones_Inr)
qed

text \<open>
  C28. Zones from the environment: when loading succeeds, there is one zone per \<open>NAME\<close>, in alphabetical
  order of the names and whatever the map iteration order, each with host and zone set and its
  secret file resolved; the mode counts as active exactly when there is a zone.
\<close>

theorem env_zones_complete:
  assumes "range_ok rng" and "loadZoneConfigsFromEnv frac readFile rng environ = Inr (zs, active)"
  shows "\<exists>configs names. scanEnviron (zoneFieldSetters frac) environ [] = Inr configs
       \<and> sorted names \<and> distinct names \<and> set names = fst ` set configs
       \<and> list_all2 (\<lambda>n. resolved readFile (the (map_of configs n))) names zs
       \<and> (\<forall>zc \<in> set zs. zcHost zc \<noteq> [] \<and> zcZone zc \<noteq> [] \<and> zcTSIGSecretFile zc = [])
       \<and> (active \<longleftrightarrow> zs \<noteq> [])"
proof -
  from assms(2) obtain configs where c: "scanEnviron (zoneFieldSetters frac) environ [] = Inr configs"
    and zs: "configs = [] \<and> zs = [] \<and> \<not> active \<or> configs \<noteq> [] \<and> active
      \<and> list_all2 (\<lambda>n. resolved readFile (the (map_of configs n))) (sort (map fst (rng configs))) zs"
    by (auto simp: load_env_Inr)
  let ?names = "sort (map fst (rng configs))"
  have ok: "gomap_ok configs" using scanEnviron_ok [OF c gomap.invar_empty] .
  have "mset (map fst (rng configs)) = mset (map fst configs)" using assms(1) by simp
  then have "distinct (map fst (rng configs))" using ok mset_eq_imp_distinct_iff unfolding gomap_ok_def by blast
  then have names: "distinct ?names" "set ?names = fst ` set configs" using assms(1) by simp_all
  have len: "length ?names = length configs" using assms(1) by simp
  have all: "list_all2 (\<lambda>n. resolved readFile (the (map_of configs n))) ?names zs"
    using zs assms(1) by (metis len length_0_conv list_all2_Nil2)
  have "zcHost zc \<noteq> [] \<and> zcZone zc \<noteq> [] \<and> zcTSIGSecretFile zc = []" if "zc \<in> set zs" for zc
  proof -
    from that obtain i where "i < length zs" "zs ! i = zc" by (auto simp: in_set_conv_nth)
    then have "resolved readFile (the (map_of configs (?names ! i))) zc" using list_all2_nthD2 [OF all] by blast
    then show ?thesis by (auto simp: resolved_def split: if_splits)
  qed
  moreover have "active \<longleftrightarrow> zs \<noteq> []" using zs list_all2_lengthD [OF all] len by auto
  ultimately show ?thesis using c names all sorted_sort by blast
qed

definition ex_environ :: environ where
  "ex_environ = [''PATH=/bin'', ''EXTERNAL_DNS_RFC2136_ZONE_B_HOST=ns2'', ''EXTERNAL_DNS_RFC2136_ZONE_A_HOST=ns1'',
     ''EXTERNAL_DNS_RFC2136_ZONE_A_ZONE=a.ex'', ''EXTERNAL_DNS_RFC2136_ZONE_B_ZONE=b.ex'',
     ''EXTERNAL_DNS_RFC2136_ZONE_A_PORT=5353'']"

lemma ex_environ_zones:
  "loadZoneConfigsFromEnv (\<lambda>_ _ _. 0) (\<lambda>_. Inl (Errorf ''no files'')) rev ex_environ =
     Inr ([noZone\<lparr>zcHost := ''ns1'', zcZone := ''a.ex'', zcPort := 5353\<rparr>, noZone\<lparr>zcHost := ''ns2'', zcZone := ''b.ex''\<rparr>], True)"
  by code_simp

theorem env_zones_complete_witness:
  "\<exists>configs names. scanEnviron (zoneFieldSetters (\<lambda>_ _ _. 0)) ex_environ [] = Inr configs
     \<and> sorted names \<and> set names = fst ` set configs \<and> length names = 2"
  using env_zones_complete [OF range_ok_rev ex_environ_zones] list_all2_lengthD by fastforce


section \<open>Modes\<close>

lemma singleZone_Inr:
  "singleZone readFile fl = Inr l \<longleftrightarrow> \<not> (fTSIGSecret fl \<noteq> [] \<and> fTSIGSecretFile fl \<noteq> [])
     \<and> (\<exists>secret. (if fTSIGSecretFile fl = [] then secret = fTSIGSecret fl
                  else \<exists>data. readFile (fTSIGSecretFile fl) = Inr data \<and> secret = TrimSpace data)
          \<and> l = LaunchSingle \<lparr>Host = fHost fl, Port = fPort fl, Zone = fZone fl, TSIGKeyName = fTSIGKey fl,
              TSIGSecret = secret, TSIGSecretAlg = fTSIGAlg fl, MinTTL = fMinTTL fl, Timeout = fTimeout fl\<rparr>)"
  by (auto simp: singleZone_def Let_def split: sum.splits)

lemma singleZone_not_multi: "singleZone readFile fl \<noteq> Inr (LaunchMulti m zs)"
  by (simp add: singleZone_Inr)

lemma singleZone_secrets: "singleZone readFile fl = Inr l \<Longrightarrow> fTSIGSecret fl = [] \<or> fTSIGSecretFile fl = []"
  by (auto simp: singleZone_Inr)

text \<open>
  C27. The three ways to configure zones exclude each other: the program starts with the zones of the
  YAML file exactly when a file is given, neither host nor zone is and no zone variable exists and
  the file loads; with the zones of the environment exactly when such variables exist and neither
  file, host nor zone is given; with a single zone exactly when host and zone are given, neither
  file nor zone variables are, and the secret comes from at most one place.  In every other case it
  exits.
\<close>

theorem mode_exclusive:
  "let mode = selectMode frac readFile unmarshal rng environ fl;
       env = loadZoneConfigsFromEnv frac readFile rng environ
   in (mode = Inr (LaunchMulti m zs) \<longleftrightarrow>
         fHost fl = [] \<and> fZone fl = [] \<and>
         (fConfigFile fl \<noteq> [] \<and> m = ''multi-zone (yaml-file)'' \<and> (\<exists>old. env = Inr (old, False))
            \<and> loadZoneConfigsFromFile frac readFile unmarshal (fConfigFile fl) = Inr zs
          \<or> fConfigFile fl = [] \<and> m = ''multi-zone (env-prefix)'' \<and> env = Inr (zs, True)))
    \<and> (mode = Inr (LaunchSingle c) \<longleftrightarrow>
         fHost fl \<noteq> [] \<and> fZone fl \<noteq> [] \<and> fConfigFile fl = [] \<and> (\<exists>old. env = Inr (old, False))
         \<and> (fTSIGSecret fl = [] \<or> fTSIGSecretFile fl = []) \<and> singleZone readFile fl = Inr (LaunchSingle c))"
proof (cases "loadZoneConfigsFromEnv frac readFile rng environ")
  case (Inl e)
  then show ?thesis by (simp add: selectMode_def)
next
  case (Inr p)
  obtain old active where p: "p = (old, active)" by fastforce
  show ?thesis
  proof (cases "fConfigFile fl = []")
    case True
    with Inr p show ?thesis
      using singleZone_not_multi [of readFile fl] singleZone_secrets [of readFile fl]
      by (auto simp: selectMode_def singleZoneFlagsSet_def Let_def)
  next
    case False
    with Inr p show ?thesis
      by (cases "loadZoneConfigsFromFile frac readFile unmarshal (fConfigFile fl)")
        (auto simp: selectMode_def singleZoneFlagsSet_def Let_def)
  qed
qed


section \<open>Zones of a YAML file\<close>

lemma yamlZones_Inr:
  "yamlZones frac readFile i zs acc = Inr cs \<longleftrightarrow>
     (\<exists>rs. cs = acc @ rs \<and> list_all2 (\<lambda>iz c. yamlZone frac readFile (fst iz) (snd iz) = Inr c) (List.enumerate i zs) rs)"
proof (induction zs arbitrary: i acc)
  case (Cons z zs)
  then show ?case by (cases "yamlZone frac readFile i z") (auto simp: list_all2_Cons1)
qed auto

lemma yamlZone_Inr:
  "yamlZone frac readFile i z = Inr c \<Longrightarrow>
     zcHost c = yHost z \<and> zcZone c = yZone z \<and> zcPort c = yPort z \<and> zcMinTTL c = yMinTTL z \<and> yHost z \<noteq> [] \<and> yZone z \<noteq> []
     \<and> zcTSIGSecretFile c = [] \<and> (yTSIGSecret z = [] \<or> yTSIGSecretFile z = [])
     \<and> in_int64 (zcTimeout c)"
  using ParseDuration_range
  by (auto simp: yamlZone_def yamlTimeout_def in_int64_def split: if_splits sum.splits option.splits)

text \<open>
  C29. Zones from a YAML file: loading gives one zone per entry, in the order of the file, and succeeds only
  if every entry has a host and a zone and at most one of a secret and a secret file; the loaded zones
  carry the entry's host, zone, port and minimum TTL and an \<open>int64\<close> timeout.
\<close>

theorem yaml_zones_complete:
  assumes "loadZoneConfigsFromFile frac readFile unmarshal path = Inr cs"
  shows "\<exists>data raw. readFile path = Inr data \<and> unmarshal data = Inr raw
    \<and> list_all2 (\<lambda>z c. zcHost c = yHost z \<and> zcZone c = yZone z \<and> zcPort c = yPort z \<and> zcMinTTL c = yMinTTL z
         \<and> yHost z \<noteq> [] \<and> yZone z \<noteq> [] \<and> zcTSIGSecretFile c = []
         \<and> (yTSIGSecret z = [] \<or> yTSIGSecretFile z = []) \<and> in_int64 (zcTimeout c)) (Zones raw) cs"
proof -
  from assms obtain data raw where d: "readFile path = Inr data" "unmarshal data = Inr raw"
    and "yamlZones frac readFile 0 (Zones raw) [] = Inr cs"
    by (auto simp: loadZoneConfigsFromFile_def split: sum.splits)
  then have "list_all2 (\<lambda>iz c. yamlZone frac readFile (fst iz) (snd iz) = Inr c) (List.enumerate 0 (Zones raw)) cs"
    by (simp add: yamlZones_Inr)
  then have "list_all2 (\<lambda>z c. \<exists>i. yamlZone frac readFile i z = Inr c) (Zones raw) cs"
    by (auto simp: list_all2_conv_all_nth nth_enumerate_eq)
  then show ?thesis using d yamlZone_Inr by (blast intro: list_all2_mono)
qed

definition ex_yaml :: yamlZoneEntry where
  "ex_yaml = \<lparr>yHost = ''ns1'', yPort = 0, yZone = ''a.ex'', yTSIGKey = [], yTSIGSecret = [], yTSIGSecretFile = [],
     yTSIGAlg = [], yMinTTL = 60, yTimeout = ''10s''\<rparr>"

theorem yaml_zones_complete_witness:
  "\<exists>c. loadZoneConfigsFromFile (\<lambda>_ _ _. 0) (\<lambda>_. Inr ''text'') (\<lambda>_. Inr \<lparr>Zones = [ex_yaml]\<rparr>) ''zones.yaml'' = Inr [c]
     \<and> zcZone c = ''a.ex'' \<and> in_int64 (zcTimeout c)"
proof -
  have "ParseDuration (\<lambda>_ _ _. 0) ''10s'' = Some 10000000000" by code_simp
  then obtain c where c: "loadZoneConfigsFromFile (\<lambda>_ _ _. 0) (\<lambda>_. Inr ''text'') (\<lambda>_. Inr \<lparr>Zones = [ex_yaml]\<rparr>) ''zones.yaml'' = Inr [c]"
    by (simp add: loadZoneConfigsFromFile_def yamlZone_def yamlTimeout_def yamlSecret_def ex_yaml_def)
  from yaml_zones_complete [OF c] c show ?thesis by (auto simp: ex_yaml_def)
qed

end
