(* ===== verification/OwnershipSafety.thy ===== *)
theory OwnershipSafety
  imports ManagedZones ControllerLoop MainConfig
begin

text \<open>
  The promise of the program over its whole life: records that are not its own are never touched.  The
  statements here are about every run of the controller's loop, with any failures of the Docker daemon and of the
  DNS servers, over one zone or many.  The set \<open>S\<close> holds the names of other people's records, in lower case and
  fully qualified; it is closed under putting the ownership prefix before a name, as a subtree of names is.
  When no container asks for a name of \<open>S\<close> and no ownership record of the program stands in \<open>S\<close>, the records
  with names in \<open>S\<close> stay exactly as they are.

  What is assumed of the servers is less than in \<open>Rfc2136Server\<close>: a message changes no record at a name it does not
  mention, and a transfer lists only records that are there (\<open>careful_server\<close>).
\<close>


section \<open>Providers that change only what they are told\<close>

text \<open>The name under which a server keeps the records of an endpoint: servers compare names without case.\<close>

definition serverName :: "dns_lib \<Rightarrow> endpoint \<Rightarrow> string" where
  "serverName lib e = ToLower (Fqdn lib (DNSName e))"

definition recordName :: "RR \<Rightarrow> string" where
  "recordName r = ToLower (rrName r)"

text \<open>The records at names of a set.\<close>

definition recordsAt :: "string set \<Rightarrow> RR set \<Rightarrow> RR set" where
  "recordsAt S z = {r \<in> z. recordName r \<in> S}"

definition careful_server ::
  "('t, 'e, 'n) network \<Rightarrow> ('t, 'e) rfc_provider \<Rightarrow> ('n \<Rightarrow> RR set) \<Rightarrow> bool"
where
  "careful_server net p contents \<longleftrightarrow>
     (\<forall>m n res n'. In net (newTransferer p) m (server p) n = (res, n') \<longrightarrow> contents n' = contents n
        \<and> (\<forall>s rrs. res = Inr s \<and> transferred s = Some rrs \<longrightarrow> set rrs \<subseteq> contents n))
   \<and> (\<forall>m n r. recordName r \<notin> recordName ` set (removedRRs m @ insertedRRs m) \<longrightarrow>
        (r \<in> contents (snd (ExchangeContext net (exchanger p) m (server p) n)) \<longleftrightarrow> r \<in> contents n))"

locale careful_provider =
  fixes lib :: dns_lib and pv :: "'n provider" and contents :: "'n \<Rightarrow> RR set"
  assumes records_keep: "Records pv n = (res, n') \<Longrightarrow> contents n' = contents n"
    and records_from: "Records pv n = (Inr eps, n') \<Longrightarrow> e \<in> set eps \<Longrightarrow> \<exists>r \<in> contents n. rrToEndpoint r = Some e"
    and apply_keeps: "length (UpdateOld ch) = length (UpdateNew ch) \<Longrightarrow> ApplyChanges pv n ch = (err, n') \<Longrightarrow>
      recordName r \<notin> serverName lib ` operands ch \<Longrightarrow> r \<in> contents n' \<longleftrightarrow> r \<in> contents n"

lemma message_names:
  assumes "length (UpdateOld ch) = length (UpdateNew ch)"
    and "r \<in> set (removedRRs (snd (buildUpdate lib c ch)) @ insertedRRs (snd (buildUpdate lib c ch)))"
  shows "recordName r \<in> serverName lib ` operands ch"
proof -
  obtain e rrs where e: "e \<in> operands ch" "endpointToRRs lib c e = Inr rrs" "r \<in> set rrs"
    using assms(2) removed_from [OF assms(1)] inserted_from [OF assms(1)]
    unfolding set_append Un_iff set_removedRRs set_insertedRRs operands_def by blast
  then show ?thesis using endpointToRRs_mem(1) [OF e(2,3)] by (auto simp: recordName_def serverName_def)
qed

lemma signed_records:
  "removedRRs (signMsg lib p t m) = removedRRs m" "insertedRRs (signMsg lib p t m) = insertedRRs m"
  by (simp_all add: signMsg_def removedRRs_def insertedRRs_def)

lemma rfc2136_apply_keeps:
  assumes "careful_server net p contents" and "length (UpdateOld ch) = length (UpdateNew ch)"
    and "recordName r \<notin> serverName lib ` operands ch"
  shows "r \<in> contents (snd (snd (rfc2136_ApplyChanges lib net p n ch))) \<longleftrightarrow> r \<in> contents n"
proof -
  let ?m = "signMsg lib p (NowUnix net n) (snd (buildUpdate lib (cfg p) ch))"
  have "recordName r \<notin> recordName ` set (removedRRs ?m @ insertedRRs ?m)"
    unfolding signed_records using message_names [OF assms(2), of _ lib "cfg p"] assms(3) by (metis imageE)
  then have "r \<in> contents (snd (ExchangeContext net (exchanger p) ?m (server p) n)) \<longleftrightarrow> r \<in> contents n"
    using assms(1) unfolding careful_server_def by blast
  then show ?thesis by (auto simp: rfc2136_ApplyChanges_def Let_def split: prod.splits sum.splits)
qed

lemma rfc2136_records_keep:
  assumes "careful_server net p contents" "rfc2136_Records lib net p n = (res, n')"
  shows "contents n' = contents n" "res = Inr eps \<Longrightarrow> e \<in> set eps \<Longrightarrow> \<exists>r \<in> contents n. rrToEndpoint r = Some e"
proof -
  let ?m = "signMsg lib p (NowUnix net n) [SetAxfr (Fqdn lib (Zone (cfg p)))]"
  obtain str where str: "In net (newTransferer p) ?m (server p) n = (str, n')"
    and res: "res = (case str of Inl e \<Rightarrow> Inl (Wrap (''axfr '' @ Zone (cfg p)) e) | Inr env \<Rightarrow> readEnvelopes (Zone (cfg p)) env [])"
    using assms(2) by (auto simp: rfc2136_Records_def Let_def split: prod.splits sum.splits)
  show "contents n' = contents n" using assms(1) str unfolding careful_server_def by blast
  assume eps: "res = Inr eps" "e \<in> set eps"
  then obtain env rrs where env: "str = Inr env" "transferred env = Some rrs" "eps = List.map_filter rrToEndpoint rrs"
    using res by (auto simp: readEnvelopes_Inr split: sum.splits)
  then have "set rrs \<subseteq> contents n" using assms(1) str unfolding careful_server_def by blast
  moreover obtain r where "r \<in> set rrs" "rrToEndpoint r = Some e" using env(3) eps(2) by (force simp: List.map_filter_def)
  ultimately show "\<exists>r \<in> contents n. rrToEndpoint r = Some e" by blast
qed

lemma rfc2136_is_careful:
  assumes "careful_server net p contents"
  shows "careful_provider lib (rfc2136_methods lib net p) contents"
proof unfold_locales
  fix n res n' assume "Records (rfc2136_methods lib net p) n = (res, n')"
  then show "contents n' = contents n" using rfc2136_records_keep(1) [OF assms] by (simp add: rfc2136_methods_def)
next
  fix n eps n' e assume "Records (rfc2136_methods lib net p) n = (Inr eps, n')" "e \<in> set eps"
  then show "\<exists>r \<in> contents n. rrToEndpoint r = Some e"
    using rfc2136_records_keep(2) [OF assms] by (simp add: rfc2136_methods_def)
next
  fix ch n err n' r
  assume "length (UpdateOld ch) = length (UpdateNew ch)" "ApplyChanges (rfc2136_methods lib net p) n ch = (err, n')"
    "recordName r \<notin> serverName lib ` operands ch"
  then show "r \<in> contents n' \<longleftrightarrow> r \<in> contents n"
    using rfc2136_apply_keeps [OF assms, of ch r lib n] by (simp add: rfc2136_methods_def)
qed

text \<open>Many zones: the zones are read in any order, and each gets its part of the change set.\<close>

lemma fetch_keeps:
  assumes "\<forall>ze \<in> set zones. careful_server net (prov ze) contents" "set js \<subseteq> {..<length zones}"
    and "fold (fetchStep lib net zones) js (rs, n) = (rs', n')"
    and "\<And>eps e. Inr eps \<in> set rs \<Longrightarrow> e \<in> set eps \<Longrightarrow> \<exists>r \<in> contents n. rrToEndpoint r = Some e"
  shows "contents n' = contents n \<and> (\<forall>eps e. Inr eps \<in> set rs' \<longrightarrow> e \<in> set eps \<longrightarrow> (\<exists>r \<in> contents n. rrToEndpoint r = Some e))"
  using assms(2-4)
proof (induction js arbitrary: rs n)
  case Nil
  then show ?case by auto
next
  case (Cons i js)
  obtain res n1 where res: "rfc2136_Records lib net (prov (zones ! i)) n = (res, n1)" by fastforce
  have "careful_server net (prov (zones ! i)) contents" using assms(1) Cons.prems(1) by simp
  note one = rfc2136_records_keep [OF this res]
  have "fold (fetchStep lib net zones) js (rs[i := res], n1) = (rs', n')"
    using Cons.prems(2) fetchStep_def [of lib net zones i "(rs, n)"] res by simp
  moreover have "\<exists>r \<in> contents n1. rrToEndpoint r = Some e" if "Inr eps \<in> set (rs[i := res])" "e \<in> set eps" for eps e
  proof -
    have "Inr eps = res \<or> Inr eps \<in> set rs" using that(1) set_update_subset_insert [of rs i res] by blast
    then show ?thesis using one Cons.prems(3) that(2) by metis
  qed
  ultimately show ?case using Cons.IH [of "rs[i := res]" n1] Cons.prems(1) one(1) by simp
qed

lemma mergeResults_from: "mergeResults rs acc = Inr eps \<Longrightarrow> e \<in> set eps \<Longrightarrow> e \<in> set acc \<or> (\<exists>es. Inr es \<in> set rs \<and> e \<in> set es)"
  by (induction rs acc rule: mergeResults.induct) fastforce+

lemma zonePart_fewer: "length (UpdateOld ch) = length (UpdateNew ch) \<Longrightarrow>
    operands (zonePart zones ch z) \<subseteq> operands ch \<and> length (UpdateOld (zonePart zones ch z)) = length (UpdateNew (zonePart zones ch z))"
  by (auto simp: operands_def zonePart_def Let_def dest: set_zip_leftD set_zip_rightD)

lemma dispatch_keeps:
  assumes "\<forall>ze \<in> set zs. careful_server net (prov ze) contents \<and> (\<exists>c. map_of bz (zone ze) = Some c
      \<and> length (UpdateOld c) = length (UpdateNew c) \<and> operands c \<subseteq> operands ch)"
    and "recordName r \<notin> serverName lib ` operands ch"
  shows "r \<in> contents (snd (snd (dispatch lib net bz zs n ws))) \<longleftrightarrow> r \<in> contents n"
  using assms(1)
proof (induction zs arbitrary: n ws)
  case (Cons ze zs)
  then obtain c where c: "map_of bz (zone ze) = Some c" "length (UpdateOld c) = length (UpdateNew c)" "operands c \<subseteq> operands ch"
    by auto
  obtain w1 err n1 where a: "rfc2136_ApplyChanges lib net (prov ze) n c = (w1, err, n1)" by (metis prod_cases3)
  have "recordName r \<notin> serverName lib ` operands c" using assms(2) c(3) by blast
  then have "r \<in> contents n1 \<longleftrightarrow> r \<in> contents n"
    using rfc2136_apply_keeps [OF _ c(2), of net "prov ze" contents r lib n] Cons.prems a by simp
  then show ?case using Cons.IH Cons.prems c(1) a by (cases err) (auto simp: Let_def)
qed simp

lemma multi_records_keep:
  assumes "\<forall>ze \<in> set zones. careful_server net (prov ze) contents" "set sched \<subseteq> {..<length zones}"
    and "multi_Records lib net sched zones n = (res, n')"
  shows "contents n' = contents n" "res = Inr eps \<Longrightarrow> e \<in> set eps \<Longrightarrow> \<exists>r \<in> contents n. rrToEndpoint r = Some e"
proof -
  let ?rs = "replicate (length zones) (Inr []) :: endpoint list result list"
  obtain rs where rs: "fold (fetchStep lib net zones) sched (?rs, n) = (rs, n')" "mergeResults rs [] = res"
    using assms(3) by (auto simp: multi_Records_def split: prod.splits)
  have "contents n' = contents n \<and> (\<forall>eps e. Inr eps \<in> set rs \<longrightarrow> e \<in> set eps \<longrightarrow> (\<exists>r \<in> contents n. rrToEndpoint r = Some e))"
    by (rule fetch_keeps [OF assms(1,2) rs(1)]) (auto split: if_splits)
  then show "contents n' = contents n"
    "res = Inr eps \<Longrightarrow> e \<in> set eps \<Longrightarrow> \<exists>r \<in> contents n. rrToEndpoint r = Some e"
    using mergeResults_from [of rs "[]" eps e] rs(2) by auto
qed

lemma multi_is_careful:
  assumes zs: "\<forall>ze \<in> set zones. careful_server net (prov ze) contents" and sched: "set sched \<subseteq> {..<length zones}"
  shows "careful_provider lib (multi_methods lib net sched zones) contents"
proof unfold_locales
  fix n res n' assume "Records (multi_methods lib net sched zones) n = (res, n')"
  then show "contents n' = contents n" using multi_records_keep(1) [OF zs sched] by (simp add: multi_methods_def)
next
  fix n eps n' e assume "Records (multi_methods lib net sched zones) n = (Inr eps, n')" "e \<in> set eps"
  then show "\<exists>r \<in> contents n. rrToEndpoint r = Some e"
    using multi_records_keep(2) [OF zs sched] by (simp add: multi_methods_def)
next
  fix ch n err n' r
  assume len: "length (UpdateOld ch) = length (UpdateNew ch)" and ap: "ApplyChanges (multi_methods lib net sched zones) n ch = (err, n')"
    and r: "recordName r \<notin> serverName lib ` operands ch"
  obtain ws bz where rt: "routeChanges zones ch = (ws, bz)" by fastforce
  have "\<forall>ze \<in> set zones. careful_server net (prov ze) contents \<and> (\<exists>c. map_of bz (zone ze) = Some c
      \<and> length (UpdateOld c) = length (UpdateNew c) \<and> operands c \<subseteq> operands ch)"
  proof
    fix ze assume ze: "ze \<in> set zones"
    then have "map_of bz (zone ze) = Some (zonePart zones ch (zone ze))"
      using routeChanges_zonePart [OF _ len, of "zone ze" zones] rt by simp
    then show "careful_server net (prov ze) contents \<and> (\<exists>c. map_of bz (zone ze) = Some c
      \<and> length (UpdateOld c) = length (UpdateNew c) \<and> operands c \<subseteq> operands ch)"
      using zs ze zonePart_fewer [OF len, of zones "zone ze"] by blast
  qed
  from dispatch_keeps [OF this r, of n ws] ap show "r \<in> contents n' \<longleftrightarrow> r \<in> contents n"
    by (simp add: multi_methods_def multi_ApplyChanges_def rt)
qed


section \<open>Plans spare other people's names\<close>

definition hostname_like :: "string \<Rightarrow> bool" where
  "hostname_like n \<longleftrightarrow> n \<noteq> [] \<and> CHR 0x5C \<notin> set n \<and> CHR ''|'' \<notin> set n"

text \<open>A record at a name without escapes, and without the separator of the plan's keys.\<close>

definition well_named :: "RR \<Rightarrow> bool" where
  "well_named r \<longleftrightarrow> (\<exists>n. plain_name n \<and> CHR ''|'' \<notin> set n \<and> rrName r = n @ ''.'')"

text \<open>No ownership record of the program at a name of \<open>S\<close>.\<close>

definition owner_free :: "plan \<Rightarrow> string set \<Rightarrow> RR set \<Rightarrow> bool" where
  "owner_free p S z \<longleftrightarrow> (\<forall>r \<in> recordsAt S z. \<forall>h. rrToEndpoint r = Some h \<and> isOwnershipTXT h \<longrightarrow>
     ownershipValue (ownerID p) \<notin> set (Targets h))"

lemma recordsAt_idem [simp]: "recordsAt S (recordsAt S z) = recordsAt S z"
  by (auto simp: recordsAt_def)

lemma owner_free_recordsAt: "owner_free p S (recordsAt S z) \<longleftrightarrow> owner_free p S z"
  by (simp add: owner_free_def)

lemma ownerName_Fqdn:
  assumes "fqdn_law lib" "hostname_like n"
  shows "ToLower (Fqdn lib (ownershipName n)) = ownerPrefix @ ToLower (Fqdn lib n)"
proof -
  have "HasSuffix (ownershipName n) ''.'' \<longleftrightarrow> HasSuffix n ''.''"
    using assms(2) by (cases n rule: rev_cases) (auto simp: HasSuffix_iff ownershipName_def hostname_like_def append_eq_append_conv2)
  moreover have "CHR 0x5C \<notin> set (ownershipName n)" using assms(2) by (simp add: ownershipName_def ownerPrefix_def hostname_like_def)
  ultimately have "Fqdn lib (ownershipName n) = ownerPrefix @ Fqdn lib n"
    using assms by (auto simp: fqdn_law_def hostname_like_def ownershipName_def)
  moreover have "ToLower ownerPrefix = ownerPrefix" by code_simp
  ultimately show ?thesis by (simp add: ToLower_def)
qed

lemma read_name:
  assumes "fqdn_law lib" "well_named r" "rrToEndpoint r = Some e"
  shows "hostname_like (DNSName e)" "serverName lib e = recordName r"
proof -
  obtain n where n: "plain_name n" "CHR ''|'' \<notin> set n" "rrName r = n @ ''.''" using assms(2) by (auto simp: well_named_def)
  have "DNSName e = TrimSuffix (rrName r) ''.''" using assms(3) by (cases r) auto
  then have "DNSName e = n" using n(3) by (simp add: TrimSuffix_def HasSuffix_def)
  then show "hostname_like (DNSName e)" "serverName lib e = recordName r"
    using n plain_Fqdn [OF assms(1) n(1)] by (simp_all add: hostname_like_def plain_name_def serverName_def recordName_def)
qed

lemma plan_spares:
  assumes law: "fqdn_law lib" and closed: "\<And>x. ownerPrefix @ x \<in> S \<longleftrightarrow> x \<in> S" and r: "range_ok rd" "range_ok rc"
    and cur: "\<And>e. e \<in> set cur \<Longrightarrow> \<exists>r \<in> z. rrToEndpoint r = Some e" and named: "\<forall>r \<in> z. well_named r"
    and free: "owner_free p S z" and want: "\<forall>w \<in> set desired. hostname_like (DNSName w) \<and> serverName lib w \<notin> S"
    and e: "e \<in> operands (Calculate rd rc p desired cur)"
  shows "serverName lib e \<notin> S"
proof -
  have comp: "serverName lib (ownershipTXTFor p n) \<notin> S" if "hostname_like n" "ToLower (Fqdn lib n) \<notin> S" for n
    using that closed ownerName_Fqdn [OF law that(1)] by (simp add: serverName_def)
  have here: "hostname_like (DNSName h)" if h: "h \<in> set cur" for h using cur [OF h] named read_name(1) [OF law] by blast
  have owned: "ToLower (Fqdn lib n) \<notin> S" if n: "owns p cur n" "hostname_like n" for n
  proof -
    obtain t where t: "t \<in> set cur" "RecordType t = ''TXT''" "DNSName t = ownershipName n" "ownershipValue (ownerID p) \<in> set (Targets t)"
      using n(1) by (auto simp: owns_def)
    then obtain x where x: "x \<in> z" "rrToEndpoint x = Some t" using cur by blast
    have "isOwnershipTXT t" using t(2,3) by (simp add: isOwnershipTXT_def ownershipName_def)
    then have "recordName x \<notin> S" using free x t(4) by (auto simp: owner_free_def recordsAt_def)
    moreover have "recordName x = ownerPrefix @ ToLower (Fqdn lib n)"
      using read_name(2) [OF law _ x(2)] named x(1) t(3) ownerName_Fqdn [OF law n(2)] by (simp add: serverName_def)
    ultimately show ?thesis using closed by simp
  qed
  consider w where "w \<in> set desired" "e = w \<or> e = ownershipTXTFor p (DNSName w)"
    | w where "w \<in> set desired" "e \<in> set cur" "epKey e = epKey w"
    | h where "h \<in> set cur" "owns p cur (DNSName h)" "e = h \<or> e = ownershipTXTFor p (DNSName h)"
    using e unfolding operands_def Un_iff mem_changes(1-3) [OF r(1)] mem_Delete [OF r(2)]
    by (auto dest!: effective_mem effective_records)
  then show ?thesis
  proof cases
    case 1
    then show ?thesis using want comp [of "DNSName w"] by (auto simp: serverName_def)
  next
    case 2
    then have "DNSName e = DNSName w" using want here [OF 2(2)] epKey_name by (simp add: hostname_like_def)
    then show ?thesis using want 2(1) by (simp add: serverName_def)
  next
    case 3
    then show ?thesis using owned [OF 3(2) here [OF 3(1)]] comp [OF here [OF 3(1)]] by (auto simp: serverName_def)
  qed
qed


section \<open>A cycle\<close>

lemma applyPlan_provider:
  "ctlProvider (snd (applyPlan pv ch c)) \<in> {ctlProvider c, snd (ApplyChanges pv (ctlProvider c) ch)}"
  by (auto simp: applyPlan_def Let_def split: prod.splits option.splits)

context careful_provider
begin

lemma reconcile_protects:
  assumes law: "fqdn_law lib" and closed: "\<And>x. ownerPrefix @ x \<in> S \<longleftrightarrow> x \<in> S" and r: "range_ok rd" "range_ok rc"
    and named: "\<forall>r \<in> contents (ctlProvider c). well_named r" and free: "owner_free (ctlPlan c) S (contents (ctlProvider c))"
    and want: "\<And>desired s'. Endpoints src (ctlSource c) = (Inr desired, s') \<Longrightarrow>
      \<forall>w \<in> set desired. hostname_like (DNSName w) \<and> serverName lib w \<notin> S"
  shows "recordsAt S (contents (ctlProvider (snd (reconcile src pv rd rc c)))) = recordsAt S (contents (ctlProvider c))"
proof (cases "Endpoints src (ctlSource c)"; cases "Records pv (ctlProvider c)")
  fix res s' rec n1 assume E: "Endpoints src (ctlSource c) = (res, s')" and R: "Records pv (ctlProvider c) = (rec, n1)"
  have n1: "contents n1 = contents (ctlProvider c)" by (rule records_keep [OF R])
  show ?thesis
  proof (cases "\<exists>desired cur. res = Inr desired \<and> rec = Inr cur")
    case False
    then have "ctlProvider (snd (reconcile src pv rd rc c)) \<in> {ctlProvider c, n1}"
      using E R by (cases res; cases rec) (auto simp: reconcile_def reconcileBody_def Let_def)
    then show ?thesis using n1 by auto
  next
    case True
    then obtain desired cur where rs: "res = Inr desired" "rec = Inr cur" by blast
    let ?ch = "Calculate rd rc (ctlPlan c) desired cur"
    have spared: "serverName lib e \<notin> S" if "e \<in> operands ?ch" for e
      by (rule plan_spares [OF law closed r _ named free _ that]) (use records_from [of "ctlProvider c" cur n1] R want E rs in auto)
    have "x \<in> contents (snd (ApplyChanges pv n1 ?ch)) \<longleftrightarrow> x \<in> contents n1" if "recordName x \<in> S" for x
    proof -
      have "recordName x \<notin> serverName lib ` operands ?ch" using spared that by auto
      then show ?thesis by (rule apply_keeps [OF length_Updates prod.collapse [symmetric]])
    qed
    then have "recordsAt S (contents (snd (ApplyChanges pv n1 ?ch))) = recordsAt S (contents n1)" by (auto simp: recordsAt_def)
    moreover have "ctlProvider (snd (reconcile src pv rd rc c)) \<in> {n1, snd (ApplyChanges pv n1 ?ch)}"
      using applyPlan_provider [of pv ?ch "c\<lparr>ctlSource := s', ctlProvider := n1, mets := (mets c)\<lparr>recordsManaged := length desired\<rparr>\<rparr>"]
      unfolding reconcile_reads [OF E [unfolded rs] R [unfolded rs]] by simp
    ultimately show ?thesis using n1 by auto
  qed
qed

end


section \<open>Every run\<close>

text \<open>
  What is assumed of each moment of a run: the zones have names without escapes, and no container that could be listed
  then has a label that asks for a name of \<open>S\<close>.  Others may change the zones and the containers at any
  time (\<open>AWorld\<close>); only the records at names of \<open>S\<close> are theirs to leave alone, so that what is shown is about the
  program.
\<close>

definition tame ::
  "('c \<Rightarrow> container list result) \<Rightarrow> dns_lib \<Rightarrow> string set \<Rightarrow> ('n \<Rightarrow> RR set) \<Rightarrow> (('c, 'h) docker_source, 'n) run_state \<Rightarrow> bool"
where
  "tame list lib S contents s \<longleftrightarrow> (\<forall>r \<in> contents (ctlProvider (ctl s)). well_named r)
     \<and> (\<forall>cs. list (client (ctlSource (ctl s))) = Inr cs \<longrightarrow> (\<forall>w \<in> set (snd (containersEndpoints cs)). serverName lib w \<notin> S))"

abbreviation othersRecords :: "string set \<Rightarrow> ('n \<Rightarrow> RR set) \<Rightarrow> ('s, 'n) run_state \<Rightarrow> RR set" where
  "othersRecords S contents s \<equiv> recordsAt S (contents (ctlProvider (ctl s)))"

inductive tame_run ::
  "('c \<Rightarrow> container list result) \<Rightarrow> dns_lib \<Rightarrow> 'n provider \<Rightarrow> string set \<Rightarrow> ('n \<Rightarrow> RR set) \<Rightarrow>
   (('c, 'h) docker_source, 'n) run_state \<Rightarrow> trace \<Rightarrow> (('c, 'h) docker_source, 'n) run_state \<Rightarrow> bool"
  for list lib pv S contents s0
where
  start: "tame list lib S contents s0 \<Longrightarrow> tame_run list lib pv S contents s0 [] s0"
| step: "tame_run list lib pv S contents s0 tr s \<Longrightarrow> run_step (docker_methods list) pv s a s' \<Longrightarrow> tame list lib S contents s' \<Longrightarrow>
    (a = AWorld \<Longrightarrow> othersRecords S contents s' = othersRecords S contents s) \<Longrightarrow>
    tame_run list lib pv S contents s0 ((now s, a) # tr) s'"

lemma tame_run_is_run:
  "tame_run list lib pv S contents s0 tr s \<Longrightarrow> run_from (docker_methods list) pv s0 tr s \<and> tame list lib S contents s"
  by (induction rule: tame_run.induct) (auto intro: run_from.intros)

lemma docker_names:
  assumes "Endpoints (docker_methods list) so = (Inr desired, so')" "w \<in> set desired"
  shows "hostname_like (DNSName w) \<and> (\<exists>cs. list (client so) = Inr cs \<and> w \<in> set (snd (containersEndpoints cs)))"
proof -
  obtain cs where cs: "list (client so) = Inr cs" "desired = snd (containersEndpoints cs)"
    using assms(1) by (auto simp: docker_methods_def docker_Endpoints_def split: sum.splits prod.splits)
  then have "from_labels w"
    using docker_Endpoints_from_labels [of "Inr cs" desired w] assms(2) by (simp add: docker_Endpoints_def split: prod.splits)
  then obtain cid h t l r ws where "parseSingle cid h t l r = (ws, Some w)" by (auto simp: from_labels_def)
  then show ?thesis
    using cs assms(2) isValidHostname_no_backslash isValidHostname_no_bar by (auto simp: hostname_like_def dest!: parseSingle_Some)
qed

context careful_provider
begin

lemma step_protects:
  assumes law: "fqdn_law lib" and closed: "\<And>x. ownerPrefix @ x \<in> S \<longleftrightarrow> x \<in> S"
    and step: "run_step (docker_methods list) pv s a s'" and tame: "tame list lib S contents s"
    and world: "a = AWorld \<Longrightarrow> othersRecords S contents s' = othersRecords S contents s"
    and free: "owner_free p S (contents (ctlProvider (ctl s)))" and p: "a \<noteq> AWorld \<Longrightarrow> p = ctlPlan (ctl s)"
  shows "othersRecords S contents s' = othersRecords S contents s"
  using step
proof cases
  case (finish rd rc r)
  have "recordsAt S (contents (ctlProvider (snd (reconcile (docker_methods list) pv rd rc (ctl s))))) = othersRecords S contents s"
  proof (rule reconcile_protects [OF law closed finish(4,5)])
    show "\<forall>r \<in> contents (ctlProvider (ctl s)). well_named r" using tame by (simp add: tame_def)
    show "owner_free (ctlPlan (ctl s)) S (contents (ctlProvider (ctl s)))" using free p finish(1) by simp
    fix desired so assume "Endpoints (docker_methods list) (ctlSource (ctl s)) = (Inr desired, so)"
    then show "\<forall>w \<in> set desired. hostname_like (DNSName w) \<and> serverName lib w \<notin> S"
      using docker_names [of list "ctlSource (ctl s)" desired so] tame unfolding tame_def by blast
  qed
  then show ?thesis using finish by (auto simp: onReconciled_def Let_def split: prod.splits option.splits)
qed (use world in \<open>auto simp: run_defs\<close>)

lemma run_protects:
  assumes "tame_run list lib pv S contents s0 tr s"
    and law: "fqdn_law lib" and closed: "\<And>x. ownerPrefix @ x \<in> S \<longleftrightarrow> x \<in> S"
    and free: "owner_free (ctlPlan (ctl s0)) S (contents (ctlProvider (ctl s0)))"
  shows "othersRecords S contents s = othersRecords S contents s0"
  using assms(1)
proof (induction rule: tame_run.induct)
  case (step tr s a s')
  have "ctlPlan (ctl s) = ctlPlan (ctl s0)"
    using run_from_plan tame_run_is_run [OF step.hyps(1)] by blast
  moreover have "owner_free (ctlPlan (ctl s0)) S (contents (ctlProvider (ctl s)))"
    using free owner_free_recordsAt step.IH by metis
  ultimately show ?case
    using step_protects [OF law closed step.hyps(2) _ step.hyps(4)] tame_run_is_run [OF step.hyps(1)] step.IH by metis
qed simp

end


section \<open>Instances\<close>

text \<open>The providers of a launch, and the set of names of a subtree.\<close>

definition launchProviders :: "dns_lib \<Rightarrow> launch \<Rightarrow> (dns_Transfer, dns_Client) rfc_provider list" where
  "launchProviders lib l = (case l of LaunchSingle c \<Rightarrow> [rfc2136_New lib c] | LaunchMulti mode configs \<Rightarrow> map prov (NewMulti lib configs))"

lemma launch_is_careful:
  assumes "\<forall>p \<in> set (launchProviders lib l). careful_server net p contents" "set sched \<subseteq> {..<length (launchProviders lib l)}"
  shows "careful_provider lib (launchMethods lib net sched l) contents"
  using assms rfc2136_is_careful multi_is_careful
  by (cases l) (simp_all add: launchProviders_def launchMethods_def)

lemma subtree_closed:
  assumes "\<not> HasPrefix d ownerPrefix"
  shows "ownerPrefix @ x \<in> Collect (inZone d) \<longleftrightarrow> x \<in> Collect (inZone d)"
proof -
  have "HasSuffix (ownerPrefix @ x) (''.'' @ d) \<longleftrightarrow> x = d \<or> HasSuffix x (''.'' @ d)"
    using suffix_after_label [of "''external-dns-docker-owner''" x d] by (simp add: ownerPrefix_def)
  moreover have "ownerPrefix @ x \<noteq> d" using assms by (auto simp: HasPrefix_iff)
  ultimately show ?thesis unfolding inZone_def mem_Collect_eq by blast
qed

text \<open>The example server is careful.\<close>

lemma sameRR_name: "sameRR x r \<Longrightarrow> recordName x = recordName r"
  by (cases "(x, r)" rule: sameRR.cases) (auto simp: recordName_def)

lemma replacedBy_name: "replacedBy x r \<Longrightarrow> recordName x = recordName r"
  using sameRR_name [of x r] by (auto simp: replacedBy_def recordName_def)

lemma fold_keeps:
  assumes "\<And>x z. x \<in> set xs \<Longrightarrow> r \<in> f x z \<longleftrightarrow> r \<in> z" shows "r \<in> fold f xs z \<longleftrightarrow> r \<in> z"
  using assms by (induction xs arbitrary: z) auto

lemma serve_keeps:
  "recordName r \<notin> recordName ` set (removedRRs m @ insertedRRs m) \<Longrightarrow> r \<in> serve m z \<longleftrightarrow> r \<in> z"
proof (induction m z rule: serve.induct)
  case (2 rrs m z)
  have "set rrs \<subseteq> set (removedRRs (RemoveRRs rrs # m))" by (simp add: removedRRs_def)
  then have "\<not> sameRR x r" if "x \<in> set rrs" for x
    using that 2(2) sameRR_name [of x r] by (metis UnI1 image_eqI set_append subsetD)
  then have "r \<in> fold removeRR rrs z \<longleftrightarrow> r \<in> z" by (intro fold_keeps) (simp add: removeRR_def)
  moreover have "recordName r \<notin> recordName ` set (removedRRs m @ insertedRRs m)"
    using 2(2) by (simp add: removedRRs_def insertedRRs_def image_Un)
  ultimately show ?case using 2(1) by simp
next
  case (3 rrs m z)
  have sub: "set rrs \<subseteq> set (insertedRRs (InsertRRs rrs # m))" by (simp add: insertedRRs_def)
  then have "\<not> replacedBy x r \<and> x \<noteq> r" if "x \<in> set rrs" for x
    using that 3(2) replacedBy_name [of x r] by (metis UnI2 image_eqI set_append subsetD)
  then have "r \<in> fold insertRR rrs z \<longleftrightarrow> r \<in> z" by (intro fold_keeps) (auto simp: insertRR_def)
  moreover have "recordName r \<notin> recordName ` set (removedRRs m @ insertedRRs m)"
    using 3(2) by (simp add: removedRRs_def insertedRRs_def image_Un)
  ultimately show ?case using 3(1) by simp
qed (simp_all add: removedRRs_def insertedRRs_def)

lemma ex_server_careful: "careful_server ex_server p set"
  unfolding careful_server_def using serve_keeps by (simp add: ex_server_def set_serveL)

end
