(* ===== verification/GoFlag.thy ===== *)
theory GoFlag
  imports GoTime
begin

text \<open>
  The part of the standard library's \<open>flag\<close> package that the command line program uses: the flag set with
  its four kinds of value, \<open>parseOne\<close> and \<open>Parse\<close> with \<open>ExitOnError\<close>.  A flag's value is kept in a record of
  type \<open>'f\<close>; each flag carries the update of its field.  Integers are read with base 0, so with the
  prefixes and underscores of Go's literals.  Errors end the program, so they carry no text here.
\<close>


section \<open>Integers with base prefix\<close>

text \<open>The value of a digit in any base up to 36, as the loop of \<open>ParseUint\<close> computes it.\<close>

definition digit36 :: "char \<Rightarrow> nat option" where
  "digit36 c =
     (if is_digit c then Some (digit_val c)
      else (let l = of_char (lower_byte c) :: nat in if 97 \<le> l \<and> l \<le> 122 then Some (l - 97 + 10) else None))"

fun uintLoop :: "nat \<Rightarrow> nat \<Rightarrow> string \<Rightarrow> nat option" where
  "uintLoop base n [] = Some n"
| "uintLoop base n (c # cs) =
     (if c = CHR ''_'' then uintLoop base n cs
      else case digit36 c of
        None \<Rightarrow> None
      | Some d \<Rightarrow>
          if base \<le> d \<or> 2 ^ 64 \<le> n * base + d then None else uintLoop base (n * base + d) cs)"

text \<open>\<open>underscoreOK\<close>: an underscore stands between two digits, or between the base prefix and a digit.\<close>

datatype saw = SawStart | SawDigit | SawUnderscore | SawOther

fun underscoreLoop :: "bool \<Rightarrow> saw \<Rightarrow> string \<Rightarrow> bool" where
  "underscoreLoop hex s [] \<longleftrightarrow> s \<noteq> SawUnderscore"
| "underscoreLoop hex s (c # cs) \<longleftrightarrow>
     (if is_digit c \<or> hex \<and> lower_byte c \<in> set ''abcdef'' then underscoreLoop hex SawDigit cs
      else if c = CHR ''_'' then s = SawDigit \<and> underscoreLoop hex SawUnderscore cs
      else s \<noteq> SawUnderscore \<and> underscoreLoop hex SawOther cs)"

definition underscoreOK :: "string \<Rightarrow> bool" where
  "underscoreOK s =
     (case s of
        z # p # cs \<Rightarrow>
          if z = CHR ''0'' \<and> lower_byte p \<in> set ''box'' then underscoreLoop (lower_byte p = CHR ''x'') SawDigit cs
          else underscoreLoop False SawStart s
      | _ \<Rightarrow> underscoreLoop False SawStart s)"

definition basePrefix :: "string \<Rightarrow> nat \<times> string" where
  "basePrefix s = (case s of
     z # cs \<Rightarrow>
       if z \<noteq> CHR ''0'' then (10, s)
       else (case cs of
          p # d # ds \<Rightarrow>
            if lower_byte p = CHR ''b'' then (2, d # ds)
            else if lower_byte p = CHR ''o'' then (8, d # ds)
            else if lower_byte p = CHR ''x'' then (16, d # ds)
            else (8, cs)
        | _ \<Rightarrow> (8, cs))
   | [] \<Rightarrow> (10, []))"

definition ParseUint0 :: "string \<Rightarrow> nat option" where
  "ParseUint0 s =
     (if s = [] then None
      else case basePrefix s of (base, ds) \<Rightarrow>
        (case uintLoop base 0 ds of
           None \<Rightarrow> None
         | Some n \<Rightarrow> if CHR ''_'' \<in> set ds \<and> \<not> underscoreOK s then None else Some n))"

text \<open>\<open>strconv.ParseInt(s, 0, 64)\<close>.\<close>

definition ParseInt0 :: "string \<Rightarrow> int option" where
  "ParseInt0 s =
     (if s = [] then None
      else case parse_sign s of (neg, ds) \<Rightarrow>
        (case ParseUint0 ds of
           None \<Rightarrow> None
         | Some un \<Rightarrow>
             if \<not> neg \<and> un \<ge> 2 ^ 63 \<or> neg \<and> un > 2 ^ 63 then None
             else Some (if neg then - int un else int un)))"

lemma ParseInt0_range: "ParseInt0 s = Some i \<Longrightarrow> in_int64 i"
  by (auto simp: ParseInt0_def in_int64_def split: if_splits prod.splits option.splits)

lemma digit36_digit: "is_digit c \<Longrightarrow> digit36 c = Some (digit_val c) \<and> digit_val c < 10 \<and> c \<noteq> CHR ''_''"
  by (auto simp: digit36_def is_digit_def digit_val_def)

lemma uintLoop_digits:
  assumes "\<forall>c \<in> set s. is_digit c" and "dec_val n s < 2 ^ 64"
  shows "uintLoop 10 n s = Some (dec_val n s)"
  using assms
proof (induction s arbitrary: n)
  case (Cons c s)
  have step: "dec_val n (c # s) = dec_val (n * 10 + digit_val c) s" by (simp add: dec_val_def)
  then have "n * 10 + digit_val c < 2 ^ 64" using dec_val_mono [of "n * 10 + digit_val c" s] Cons.prems(2) by linarith
  then show ?case using Cons digit36_digit [of c] by (simp add: step)
qed (simp add: dec_val_def)

lemma showNat_leading: "0 < n \<Longrightarrow> hd (showNat n) \<noteq> CHR ''0''"
proof (induction n rule: showNat.induct)
  case (1 n)
  show ?case
  proof (cases "n < 10")
    case True
    have "digit_char n \<noteq> CHR ''0''" using digit_char(2) [OF True] 1(2) by (auto simp: digit_val_def)
    then show ?thesis using True by (simp add: showNat.simps [of n])
  next
    case False
    then show ?thesis using 1 by (simp add: showNat.simps [of n] hd_append)
  qed
qed

lemma ParseUint0_showNat:
  assumes "n < 2 ^ 64" shows "ParseUint0 (showNat n) = Some n"
proof (cases "n = 0")
  case False
  then obtain c cs where s: "showNat n = c # cs" "c \<noteq> CHR ''0''"
    using showNat_leading [of n] by (cases "showNat n") auto
  have digits: "\<forall>c \<in> set (showNat n). is_digit c" using showNat_digits by blast
  then have "CHR ''_'' \<notin> set (showNat n)" by (auto simp: is_digit_def)
  moreover have "uintLoop 10 0 (showNat n) = Some n"
    using uintLoop_digits [OF digits, of 0] dec_val_showNat assms by simp
  ultimately show ?thesis using s by (simp add: ParseUint0_def basePrefix_def)
next
  case True
  have "ParseUint0 (showNat 0) = Some 0" by code_simp
  then show ?thesis using True by simp
qed

lemma ParseInt0_itoa: "in_int64 i \<Longrightarrow> ParseInt0 (itoa i) = Some i"
  by (auto simp: ParseInt0_def itoa_def in_int64_def ParseUint0_showNat)


section \<open>Flag sets\<close>

datatype 'f flag_value =
    StringFlag "string \<Rightarrow> 'f \<Rightarrow> 'f"
  | IntFlag "int \<Rightarrow> 'f \<Rightarrow> 'f"
  | BoolFlag "bool \<Rightarrow> 'f \<Rightarrow> 'f"
  | DurationFlag "int \<Rightarrow> 'f \<Rightarrow> 'f"

type_synonym 'f flag_set = "(string \<times> 'f flag_value) list"

fun IsBoolFlag :: "'f flag_value \<Rightarrow> bool" where
  "IsBoolFlag (BoolFlag upd) = True"
| "IsBoolFlag _ = False"

fun SetFlag :: "(nat \<Rightarrow> nat \<Rightarrow> nat \<Rightarrow> nat) \<Rightarrow> 'f flag_value \<Rightarrow> string \<Rightarrow> ('f \<Rightarrow> 'f) option" where
  "SetFlag frac (StringFlag upd) s = Some (upd s)"
| "SetFlag frac (IntFlag upd) s = map_option upd (ParseInt0 s)"
| "SetFlag frac (BoolFlag upd) s = map_option upd (ParseBool s)"
| "SetFlag frac (DurationFlag upd) s = map_option upd (ParseDuration frac s)"

datatype 'f flag_step = FlagsDone "string list" | FlagHelp | FlagError | FlagSeen 'f "string list"

text \<open>The name of a flag argument and its value after \<open>=\<close>, which cannot be its first character.\<close>

definition splitFlag :: "string \<Rightarrow> string \<times> string \<times> bool" where
  "splitFlag name = (case CutByte (tl name) CHR ''='' of (b, value, hasValue) \<Rightarrow> (hd name # b, value, hasValue))"

definition assignFlag ::
  "(nat \<Rightarrow> nat \<Rightarrow> nat \<Rightarrow> nat) \<Rightarrow> 'f flag_value \<Rightarrow> string \<Rightarrow> string list \<Rightarrow> 'f \<Rightarrow> 'f flag_step"
where
  "assignFlag frac f value args fl =
     (case SetFlag frac f value of None \<Rightarrow> FlagError | Some upd \<Rightarrow> FlagSeen (upd fl) args)"

definition parseOne ::
  "(nat \<Rightarrow> nat \<Rightarrow> nat \<Rightarrow> nat) \<Rightarrow> 'f flag_set \<Rightarrow> string list \<Rightarrow> 'f \<Rightarrow> 'f flag_step"
where
  "parseOne frac formal args fl = (case args of
     [] \<Rightarrow> FlagsDone []
   | s # rest \<Rightarrow>
       if length s < 2 \<or> hd s \<noteq> CHR ''-'' then FlagsDone args
       else if s = ''--'' then FlagsDone rest
       else
         (let name = drop (if s ! 1 = CHR ''-'' then 2 else 1) s in
          if name = [] \<or> hd name = CHR ''-'' \<or> hd name = CHR ''='' then FlagError
          else (case splitFlag name of (n, value, hasValue) \<Rightarrow>
            (case map_of formal n of
               None \<Rightarrow> if n = ''help'' \<or> n = ''h'' then FlagHelp else FlagError
             | Some f \<Rightarrow>
                 if IsBoolFlag f then assignFlag frac f (if hasValue then value else ''true'') rest fl
                 else if hasValue then assignFlag frac f value rest fl
                 else (case rest of
                         [] \<Rightarrow> FlagError
                       | v # rest' \<Rightarrow> assignFlag frac f v rest' fl)))))"

lemma assignFlag_rest: "assignFlag frac f v args fl = FlagSeen fl' rest \<Longrightarrow> rest = args"
  by (auto simp: assignFlag_def split: option.splits)

lemma parseOne_shorter: "parseOne frac formal args fl = FlagSeen fl' rest \<Longrightarrow> length rest < length args"
  by (auto simp: parseOne_def Let_def dest!: assignFlag_rest split: list.splits if_splits prod.splits option.splits)

text \<open>\<open>flag.Parse\<close>: the exit status (0 after help, 2 after an error), or the values and the remaining arguments.\<close>

function FlagParse ::
  "(nat \<Rightarrow> nat \<Rightarrow> nat \<Rightarrow> nat) \<Rightarrow> 'f flag_set \<Rightarrow> string list \<Rightarrow> 'f \<Rightarrow> nat + 'f \<times> string list"
where
  "FlagParse frac formal args fl =
     (case parseOne frac formal args fl of
        FlagSeen fl' rest \<Rightarrow> FlagParse frac formal rest fl'
      | FlagsDone rest \<Rightarrow> Inr (fl, rest)
      | FlagHelp \<Rightarrow> Inl 0
      | FlagError \<Rightarrow> Inl 2)"
  by pat_completeness auto
termination
  by (relation "measure (\<lambda>(_, _, args, _). length args)") (auto dest: parseOne_shorter)

declare FlagParse.simps [simp del]


section \<open>Spelling of flags\<close>

text \<open>The ways to write one flag on the command line.\<close>

datatype spelling = Joined bool string string | Apart bool string string | Alone bool string

fun flagName :: "spelling \<Rightarrow> string" where
  "flagName (Joined two n v) = n"
| "flagName (Apart two n v) = n"
| "flagName (Alone two n) = n"

fun flagText :: "spelling \<Rightarrow> string" where
  "flagText (Joined two n v) = v"
| "flagText (Apart two n v) = v"
| "flagText (Alone two n) = ''true''"

definition dashes :: "bool \<Rightarrow> string" where
  "dashes two = (if two then ''--'' else ''-'')"

fun spell :: "spelling \<Rightarrow> string list" where
  "spell (Joined two n v) = [dashes two @ n @ ''='' @ v]"
| "spell (Apart two n v) = [dashes two @ n, v]"
| "spell (Alone two n) = [dashes two @ n]"

text \<open>
  A spelling that the flag set understands: a boolean flag takes its value after \<open>=\<close> only, and without one it is set.
\<close>

fun understood :: "(nat \<Rightarrow> nat \<Rightarrow> nat \<Rightarrow> nat) \<Rightarrow> 'f flag_set \<Rightarrow> spelling \<Rightarrow> bool" where
  "understood frac formal (Joined two n v) =
     (case map_of formal n of None \<Rightarrow> False | Some f \<Rightarrow> SetFlag frac f v \<noteq> None)"
| "understood frac formal (Apart two n v) =
     (case map_of formal n of None \<Rightarrow> False | Some f \<Rightarrow> \<not> IsBoolFlag f \<and> SetFlag frac f v \<noteq> None)"
| "understood frac formal (Alone two n) = (case map_of formal n of None \<Rightarrow> False | Some f \<Rightarrow> IsBoolFlag f)"

lemma IsBoolFlag_set: "IsBoolFlag f \<Longrightarrow> SetFlag frac f ''true'' \<noteq> None"
  by (cases f) (auto simp: ParseBool_def)

lemma understood_set:
  assumes "understood frac formal a"
  obtains f upd where "map_of formal (flagName a) = Some f" "SetFlag frac f (flagText a) = Some upd"
  using assms IsBoolFlag_set by (cases a) (auto split: option.splits)

definition assign :: "(nat \<Rightarrow> nat \<Rightarrow> nat \<Rightarrow> nat) \<Rightarrow> 'f flag_set \<Rightarrow> spelling \<Rightarrow> 'f \<Rightarrow> 'f" where
  "assign frac formal a = the (SetFlag frac (the (map_of formal (flagName a))) (flagText a))"

definition good_name :: "string \<Rightarrow> bool" where
  "good_name n \<longleftrightarrow> n \<noteq> [] \<and> hd n \<noteq> CHR ''-'' \<and> CHR ''='' \<notin> set n"

lemma splitFlag_joined: "good_name n \<Longrightarrow> splitFlag (n @ ''='' @ v) = (n, v, True)"
  by (cases n) (auto simp: good_name_def splitFlag_def CutByte_append)

lemma CutByte_none: "c \<notin> set s \<Longrightarrow> CutByte s c = (s, [], False)"
  by (induction s) auto

lemma splitFlag_apart: "good_name n \<Longrightarrow> splitFlag n = (n, [], False)"
  by (cases n) (auto simp: good_name_def splitFlag_def CutByte_none)

lemma dashes_head:
  assumes "n \<noteq> []" "hd n \<noteq> CHR ''-''"
  shows "\<not> length (dashes two @ n) < 2 \<and> hd (dashes two @ n) = CHR ''-'' \<and> dashes two @ n \<noteq> ''--''
    \<and> drop (if (dashes two @ n) ! 1 = CHR ''-'' then 2 else 1) (dashes two @ n) = n"
  using assms by (cases n) (auto simp: dashes_def)

lemma parseOne_dashed:
  assumes "n \<noteq> []" "hd n \<noteq> CHR ''-''" "hd n \<noteq> CHR ''=''" "splitFlag n = (m, v, given)" "map_of formal m = Some f"
  shows "parseOne frac formal ((dashes two @ n) # args) fl =
    (if IsBoolFlag f then assignFlag frac f (if given then v else ''true'') args fl
     else if given then assignFlag frac f v args fl
     else (case args of [] \<Rightarrow> FlagError | w # args' \<Rightarrow> assignFlag frac f w args' fl))"
proof -
  define s where "s = dashes two @ n"
  have "\<not> length s < 2" "hd s = CHR ''-''" "s \<noteq> ''--''" "drop (if s ! 1 = CHR ''-'' then 2 else 1) s = n"
    using dashes_head [OF assms(1,2), of two] unfolding s_def by blast+
  then show ?thesis unfolding s_def [symmetric] parseOne_def Let_def using assms by simp
qed

lemma parseOne_spelling:
  assumes "understood frac formal a" and "good_name (flagName a)"
  shows "parseOne frac formal (spell a @ args) fl = FlagSeen (assign frac formal a fl) args"
proof -
  let ?n = "flagName a"
  obtain f upd where f: "map_of formal ?n = Some f" "SetFlag frac f (flagText a) = Some upd"
    using understood_set [OF assms(1)] by blast
  then have set: "assignFlag frac f (flagText a) args fl = FlagSeen (assign frac formal a fl) args"
    by (simp add: assignFlag_def assign_def)
  have n: "?n \<noteq> []" "hd ?n \<noteq> CHR ''-''" "hd ?n \<noteq> CHR ''=''"
    using assms(2) by (cases ?n; auto simp: good_name_def)+
  show ?thesis
  proof (cases a)
    case (Joined two m v)
    then show ?thesis
      using parseOne_dashed [of "?n @ ''='' @ v" ?n v True formal f frac two args fl] splitFlag_joined [OF assms(2)] n f set
      by simp
  next
    case (Apart two m v)
    then have "\<not> IsBoolFlag f" using assms(1) f by simp
    then show ?thesis
      using parseOne_dashed [of ?n ?n "[]" False formal f frac two "v # args" fl] splitFlag_apart [OF assms(2)] n f set Apart
      by simp
  next
    case (Alone two m)
    then have "IsBoolFlag f" using assms(1) f by simp
    then show ?thesis
      using parseOne_dashed [of ?n ?n "[]" False formal f frac two args fl] splitFlag_apart [OF assms(2)] n f set Alone
      by simp
  qed
qed

lemma understood_known: "understood frac formal a \<Longrightarrow> flagName a \<in> fst ` set formal"
  using map_of_eq_None_iff [of formal "flagName a"] by (cases a) (auto split: option.splits)

text \<open>Arguments that spell known flags are read back one by one, later ones over earlier ones.\<close>

lemma FlagParse_spellings:
  assumes "\<forall>a \<in> set as. understood frac formal a" and "\<forall>n \<in> fst ` set formal. good_name n"
  shows "FlagParse frac formal (concat (map spell as)) fl = Inr (fold (assign frac formal) as fl, [])"
  using assms(1)
proof (induction as arbitrary: fl)
  case Nil
  show ?case by (simp add: FlagParse.simps [of _ _ "[]"] parseOne_def)
next
  case (Cons a as)
  have "flagName a \<in> fst ` set formal" using Cons.prems understood_known [of frac formal a] by simp
  then have "parseOne frac formal (spell a @ concat (map spell as)) fl =
      FlagSeen (assign frac formal a fl) (concat (map spell as))"
    using Cons.prems assms(2) by (intro parseOne_spelling) auto
  then show ?case using Cons by (subst FlagParse.simps) simp
qed

text \<open>The text of the last occurrence of a flag.\<close>

definition lastText :: "string \<Rightarrow> spelling list \<Rightarrow> string option" where
  "lastText n as = map_option flagText (find (\<lambda>a. flagName a = n) (rev as))"

lemma lastText_snoc: "lastText n (as @ [a]) = (if flagName a = n then Some (flagText a) else lastText n as)"
  by (simp add: lastText_def)

text \<open>The field \<open>sel\<close> belongs to the flag \<open>n\<close>, whose text \<open>val\<close> reads; no other flag changes it.\<close>

fun keeps :: "('f \<Rightarrow> 'v) \<Rightarrow> 'f flag_value \<Rightarrow> bool" where
  "keeps sel (StringFlag upd) \<longleftrightarrow> (\<forall>v fl. sel (upd v fl) = sel fl)"
| "keeps sel (IntFlag upd) \<longleftrightarrow> (\<forall>v fl. sel (upd v fl) = sel fl)"
| "keeps sel (BoolFlag upd) \<longleftrightarrow> (\<forall>v fl. sel (upd v fl) = sel fl)"
| "keeps sel (DurationFlag upd) \<longleftrightarrow> (\<forall>v fl. sel (upd v fl) = sel fl)"

locale flag_field =
  fixes frac :: "nat \<Rightarrow> nat \<Rightarrow> nat \<Rightarrow> nat" and formal :: "'f flag_set" and n :: string
    and sel :: "'f \<Rightarrow> 'v" and val :: "string \<Rightarrow> 'v option"
  assumes own: "map_of formal n = Some f \<Longrightarrow> SetFlag frac f s = Some upd \<Longrightarrow> val s = Some (sel (upd fl))"
    and others: "map_of formal m = Some f \<Longrightarrow> m \<noteq> n \<Longrightarrow> keeps sel f"
begin

lemma keeps_SetFlag: "keeps sel f \<Longrightarrow> SetFlag frac f s = Some upd \<Longrightarrow> sel (upd fl) = sel fl"
  by (cases f) auto

lemma assign_field:
  assumes "understood frac formal a"
  shows "sel (assign frac formal a fl) = (if flagName a = n then the (val (flagText a)) else sel fl)"
proof -
  obtain f upd where f: "map_of formal (flagName a) = Some f" "SetFlag frac f (flagText a) = Some upd"
    using understood_set [OF assms] by blast
  then have "assign frac formal a fl = upd fl" by (simp add: assign_def)
  then show ?thesis using own [of f "flagText a" upd fl] others [of "flagName a" f] f keeps_SetFlag by auto
qed

lemma field_last_wins:
  assumes "\<forall>a \<in> set as. understood frac formal a"
  shows "sel (fold (assign frac formal) as fl) =
    (case lastText n as of None \<Rightarrow> sel fl | Some s \<Rightarrow> the (val s))"
  using assms
proof (induction as rule: rev_induct)
  case (snoc a as)
  then show ?case using assign_field [of a] by (simp add: lastText_snoc)
qed (simp add: lastText_def)

end

end
