(* ===== verification/MainFlags.thy ===== *)
theory MainFlags
  imports GoFlag MainConfig
begin

text \<open>
  The flags of \<open>cmd/external-dns-docker/main.go\<close> and their parsing: each flag with its name, its kind and the
  field of the record \<open>flags\<close> it sets, in the order of the source; the environment gives the defaults.

  Shown here: the command line goes before the environment, and the last of several occurrences counts.
\<close>

definition flagTable :: "flags flag_set" where
  "flagTable =
     [(''rfc2136-host'', StringFlag (\<lambda>v fl. fl\<lparr>fHost := v\<rparr>)),
      (''rfc2136-port'', IntFlag (\<lambda>v fl. fl\<lparr>fPort := v\<rparr>)),
      (''rfc2136-zone'', StringFlag (\<lambda>v fl. fl\<lparr>fZone := v\<rparr>)),
      (''rfc2136-tsig-key'', StringFlag (\<lambda>v fl. fl\<lparr>fTSIGKey := v\<rparr>)),
      (''rfc2136-tsig-secret'', StringFlag (\<lambda>v fl. fl\<lparr>fTSIGSecret := v\<rparr>)),
      (''rfc2136-tsig-secret-file'', StringFlag (\<lambda>v fl. fl\<lparr>fTSIGSecretFile := v\<rparr>)),
      (''rfc2136-tsig-alg'', StringFlag (\<lambda>v fl. fl\<lparr>fTSIGAlg := v\<rparr>)),
      (''rfc2136-min-ttl'', IntFlag (\<lambda>v fl. fl\<lparr>fMinTTL := v\<rparr>)),
      (''rfc2136-timeout'', DurationFlag (\<lambda>v fl. fl\<lparr>fTimeout := v\<rparr>)),
      (''rfc2136-config-file'', StringFlag (\<lambda>v fl. fl\<lparr>fConfigFile := v\<rparr>)),
      (''docker-host'', StringFlag (\<lambda>v fl. fl\<lparr>fDockerHost := v\<rparr>)),
      (''docker-tls-ca'', StringFlag (\<lambda>v fl. fl\<lparr>fDockerTLSCA := v\<rparr>)),
      (''docker-tls-cert'', StringFlag (\<lambda>v fl. fl\<lparr>fDockerTLSCert := v\<rparr>)),
      (''docker-tls-key'', StringFlag (\<lambda>v fl. fl\<lparr>fDockerTLSKey := v\<rparr>)),
      (''interval'', DurationFlag (\<lambda>v fl. fl\<lparr>fInterval := v\<rparr>)),
      (''debounce'', DurationFlag (\<lambda>v fl. fl\<lparr>fDebounce := v\<rparr>)),
      (''once'', BoolFlag (\<lambda>v fl. fl\<lparr>fOnce := v\<rparr>)),
      (''dry-run'', BoolFlag (\<lambda>v fl. fl\<lparr>fDryRun := v\<rparr>)),
      (''owner-id'', StringFlag (\<lambda>v fl. fl\<lparr>fOwnerID := v\<rparr>)),
      (''skip-preflight'', BoolFlag (\<lambda>v fl. fl\<lparr>fSkipPreflight := v\<rparr>)),
      (''reconcile-backoff-base'', DurationFlag (\<lambda>v fl. fl\<lparr>fBackoffBase := v\<rparr>)),
      (''reconcile-backoff-max'', DurationFlag (\<lambda>v fl. fl\<lparr>fBackoffMax := v\<rparr>)),
      (''health-port'', IntFlag (\<lambda>v fl. fl\<lparr>fHealthPort := v\<rparr>)),
      (''metrics-path'', StringFlag (\<lambda>v fl. fl\<lparr>fMetricsPath := v\<rparr>)),
      (''shutdown-timeout'', DurationFlag (\<lambda>v fl. fl\<lparr>fShutdownTimeout := v\<rparr>)),
      (''log-level'', StringFlag (\<lambda>v fl. fl\<lparr>fLogLevel := v\<rparr>))]"

definition parseFlags ::
  "(nat \<Rightarrow> nat \<Rightarrow> nat \<Rightarrow> nat) \<Rightarrow> environ \<Rightarrow> string list \<Rightarrow> nat + flags \<times> string list"
where
  "parseFlags frac environ args = FlagParse frac flagTable args (flagDefaults frac environ)"

lemma flagTable_names: "\<forall>n \<in> fst ` set flagTable. good_name n"
  by (simp add: flagTable_def good_name_def)

lemma flag_fieldI:
  assumes "\<And>s upd fl. SetFlag frac (the (map_of flagTable n)) s = Some upd \<Longrightarrow> val s = Some (sel (upd fl))"
    and "list_all (\<lambda>(m, f). m = n \<or> keeps sel f) flagTable"
  shows "flag_field frac flagTable n sel val"
proof
  show "map_of flagTable n = Some f \<Longrightarrow> SetFlag frac f s = Some upd \<Longrightarrow> val s = Some (sel (upd fl))" for f s upd fl
    using assms(1) by simp
  show "map_of flagTable m = Some f \<Longrightarrow> m \<noteq> n \<Longrightarrow> keeps sel f" for m f
    using assms(2) by (auto simp: list_all_iff dest: map_of_SomeD)
qed

interpretation hostFlag: flag_field frac flagTable "''rfc2136-host''" fHost Some
  by (rule flag_fieldI) (auto simp: flagTable_def)

interpretation portFlag: flag_field frac flagTable "''rfc2136-port''" fPort ParseInt0
  by (rule flag_fieldI) (auto simp: flagTable_def)

interpretation zoneFlag: flag_field frac flagTable "''rfc2136-zone''" fZone Some
  by (rule flag_fieldI) (auto simp: flagTable_def)

interpretation TSIGKeyFlag: flag_field frac flagTable "''rfc2136-tsig-key''" fTSIGKey Some
  by (rule flag_fieldI) (auto simp: flagTable_def)

interpretation TSIGSecretFlag: flag_field frac flagTable "''rfc2136-tsig-secret''" fTSIGSecret Some
  by (rule flag_fieldI) (auto simp: flagTable_def)

interpretation TSIGSecretFileFlag: flag_field frac flagTable "''rfc2136-tsig-secret-file''" fTSIGSecretFile Some
  by (rule flag_fieldI) (auto simp: flagTable_def)

interpretation TSIGAlgFlag: flag_field frac flagTable "''rfc2136-tsig-alg''" fTSIGAlg Some
  by (rule flag_fieldI) (auto simp: flagTable_def)

interpretation minTTLFlag: flag_field frac flagTable "''rfc2136-min-ttl''" fMinTTL ParseInt0
  by (rule flag_fieldI) (auto simp: flagTable_def)

interpretation timeoutFlag: flag_field frac flagTable "''rfc2136-timeout''" fTimeout "ParseDuration frac"
  by (rule flag_fieldI) (auto simp: flagTable_def)

interpretation configFileFlag: flag_field frac flagTable "''rfc2136-config-file''" fConfigFile Some
  by (rule flag_fieldI) (auto simp: flagTable_def)

interpretation dockerHostFlag: flag_field frac flagTable "''docker-host''" fDockerHost Some
  by (rule flag_fieldI) (auto simp: flagTable_def)

interpretation dockerTLSCAFlag: flag_field frac flagTable "''docker-tls-ca''" fDockerTLSCA Some
  by (rule flag_fieldI) (auto simp: flagTable_def)

interpretation dockerTLSCertFlag: flag_field frac flagTable "''docker-tls-cert''" fDockerTLSCert Some
  by (rule flag_fieldI) (auto simp: flagTable_def)

interpretation dockerTLSKeyFlag: flag_field frac flagTable "''docker-tls-key''" fDockerTLSKey Some
  by (rule flag_fieldI) (auto simp: flagTable_def)

interpretation intervalFlag: flag_field frac flagTable "''interval''" fInterval "ParseDuration frac"
  by (rule flag_fieldI) (auto simp: flagTable_def)

interpretation debounceFlag: flag_field frac flagTable "''debounce''" fDebounce "ParseDuration frac"
  by (rule flag_fieldI) (auto simp: flagTable_def)

interpretation onceFlag: flag_field frac flagTable "''once''" fOnce ParseBool
  by (rule flag_fieldI) (auto simp: flagTable_def)

interpretation dryRunFlag: flag_field frac flagTable "''dry-run''" fDryRun ParseBool
  by (rule flag_fieldI) (auto simp: flagTable_def)

interpretation ownerIDFlag: flag_field frac flagTable "''owner-id''" fOwnerID Some
  by (rule flag_fieldI) (auto simp: flagTable_def)

interpretation skipPreflightFlag: flag_field frac flagTable "''skip-preflight''" fSkipPreflight ParseBool
  by (rule flag_fieldI) (auto simp: flagTable_def)

interpretation backoffBaseFlag: flag_field frac flagTable "''reconcile-backoff-base''" fBackoffBase "ParseDuration frac"
  by (rule flag_fieldI) (auto simp: flagTable_def)

interpretation backoffMaxFlag: flag_field frac flagTable "''reconcile-backoff-max''" fBackoffMax "ParseDuration frac"
  by (rule flag_fieldI) (auto simp: flagTable_def)

interpretation healthPortFlag: flag_field frac flagTable "''health-port''" fHealthPort ParseInt0
  by (rule flag_fieldI) (auto simp: flagTable_def)

interpretation metricsPathFlag: flag_field frac flagTable "''metrics-path''" fMetricsPath Some
  by (rule flag_fieldI) (auto simp: flagTable_def)

interpretation shutdownTimeoutFlag: flag_field frac flagTable "''shutdown-timeout''" fShutdownTimeout "ParseDuration frac"
  by (rule flag_fieldI) (auto simp: flagTable_def)

interpretation logLevelFlag: flag_field frac flagTable "''log-level''" fLogLevel Some
  by (rule flag_fieldI) (auto simp: flagTable_def)

lemmas fields_last_win =
  hostFlag.field_last_wins portFlag.field_last_wins zoneFlag.field_last_wins TSIGKeyFlag.field_last_wins
  TSIGSecretFlag.field_last_wins TSIGSecretFileFlag.field_last_wins TSIGAlgFlag.field_last_wins
  minTTLFlag.field_last_wins timeoutFlag.field_last_wins configFileFlag.field_last_wins
  dockerHostFlag.field_last_wins dockerTLSCAFlag.field_last_wins dockerTLSCertFlag.field_last_wins
  dockerTLSKeyFlag.field_last_wins intervalFlag.field_last_wins debounceFlag.field_last_wins
  onceFlag.field_last_wins dryRunFlag.field_last_wins ownerIDFlag.field_last_wins
  skipPreflightFlag.field_last_wins backoffBaseFlag.field_last_wins backoffMaxFlag.field_last_wins
  healthPortFlag.field_last_wins metricsPathFlag.field_last_wins shutdownTimeoutFlag.field_last_wins
  logLevelFlag.field_last_wins

text \<open>
  What a flag has to be: the value of its last occurrence on the command line, or without one the value that its
  environment variable gives, or the fallback.
\<close>

definition stringSetting :: "environ \<Rightarrow> spelling list \<Rightarrow> string \<Rightarrow> string \<Rightarrow> string \<Rightarrow> string" where
  "stringSetting environ as n var fallback = (case lastText n as of Some s \<Rightarrow> s | None \<Rightarrow> envOr environ var fallback)"

definition intSetting :: "environ \<Rightarrow> spelling list \<Rightarrow> string \<Rightarrow> string \<Rightarrow> int \<Rightarrow> int" where
  "intSetting environ as n var fallback =
     (case lastText n as of Some s \<Rightarrow> the (ParseInt0 s) | None \<Rightarrow> envOrInt environ var fallback)"

definition int64Setting :: "environ \<Rightarrow> spelling list \<Rightarrow> string \<Rightarrow> string \<Rightarrow> int \<Rightarrow> int" where
  "int64Setting environ as n var fallback =
     (case lastText n as of Some s \<Rightarrow> the (ParseInt0 s) | None \<Rightarrow> envOrInt64 environ var fallback)"

definition boolSetting :: "environ \<Rightarrow> spelling list \<Rightarrow> string \<Rightarrow> string \<Rightarrow> bool \<Rightarrow> bool" where
  "boolSetting environ as n var fallback =
     (case lastText n as of Some s \<Rightarrow> the (ParseBool s) | None \<Rightarrow> envOrBool environ var fallback)"

definition durationSetting ::
  "(nat \<Rightarrow> nat \<Rightarrow> nat \<Rightarrow> nat) \<Rightarrow> environ \<Rightarrow> spelling list \<Rightarrow> string \<Rightarrow> string \<Rightarrow> int \<Rightarrow> int"
where
  "durationSetting frac environ as n var fallback =
     (case lastText n as of Some s \<Rightarrow> the (ParseDuration frac s) | None \<Rightarrow> envOrDuration frac environ var fallback)"

text \<open>
  C26. The command line goes before the environment: arguments that spell known flags, with one dash or two and
  with the value after \<open>=\<close> or in the next argument, or for boolean flags after \<open>=\<close> or left out, are all read, and each of the
  26 flags has the value of its last occurrence, or without one the value that its environment variable
  gives, or its fallback; no flag or variable sets a field that is not its own.
\<close>

theorem command_line_overrides:
  assumes "\<forall>a \<in> set as. understood frac flagTable a"
  shows "parseFlags frac environ (concat (map spell as)) = Inr (
      \<lparr>fHost = stringSetting environ as ''rfc2136-host'' ''EXTERNAL_DNS_RFC2136_HOST'' [],
       fPort = intSetting environ as ''rfc2136-port'' ''EXTERNAL_DNS_RFC2136_PORT'' 53,
       fZone = stringSetting environ as ''rfc2136-zone'' ''EXTERNAL_DNS_RFC2136_ZONE'' [],
       fTSIGKey = stringSetting environ as ''rfc2136-tsig-key'' ''EXTERNAL_DNS_RFC2136_TSIG_KEY'' [],
       fTSIGSecret = stringSetting environ as ''rfc2136-tsig-secret'' ''EXTERNAL_DNS_RFC2136_TSIG_SECRET'' [],
       fTSIGSecretFile = stringSetting environ as ''rfc2136-tsig-secret-file'' ''EXTERNAL_DNS_RFC2136_TSIG_SECRET_FILE'' [],
       fTSIGAlg = stringSetting environ as ''rfc2136-tsig-alg'' ''EXTERNAL_DNS_RFC2136_TSIG_ALG'' ''hmac-sha256'',
       fMinTTL = int64Setting environ as ''rfc2136-min-ttl'' ''EXTERNAL_DNS_RFC2136_MIN_TTL'' 0,
       fTimeout = durationSetting frac environ as ''rfc2136-timeout'' ''EXTERNAL_DNS_RFC2136_TIMEOUT'' 10000000000,
       fConfigFile = stringSetting environ as ''rfc2136-config-file'' ''EXTERNAL_DNS_RFC2136_CONFIG_FILE'' [],
       fDockerHost = stringSetting environ as ''docker-host'' ''EXTERNAL_DNS_DOCKER_HOST'' [],
       fDockerTLSCA = stringSetting environ as ''docker-tls-ca'' ''EXTERNAL_DNS_DOCKER_TLS_CA'' [],
       fDockerTLSCert = stringSetting environ as ''docker-tls-cert'' ''EXTERNAL_DNS_DOCKER_TLS_CERT'' [],
       fDockerTLSKey = stringSetting environ as ''docker-tls-key'' ''EXTERNAL_DNS_DOCKER_TLS_KEY'' [],
       fInterval = durationSetting frac environ as ''interval'' ''EXTERNAL_DNS_INTERVAL'' 60000000000,
       fDebounce = durationSetting frac environ as ''debounce'' ''EXTERNAL_DNS_DEBOUNCE'' 5000000000,
       fOnce = boolSetting environ as ''once'' ''EXTERNAL_DNS_ONCE'' False,
       fDryRun = boolSetting environ as ''dry-run'' ''EXTERNAL_DNS_DRY_RUN'' False,
       fOwnerID = stringSetting environ as ''owner-id'' ''EXTERNAL_DNS_OWNER_ID'' [],
       fSkipPreflight = boolSetting environ as ''skip-preflight'' ''EXTERNAL_DNS_SKIP_PREFLIGHT'' False,
       fBackoffBase = durationSetting frac environ as ''reconcile-backoff-base'' ''EXTERNAL_DNS_RECONCILE_BACKOFF_BASE'' 5000000000,
       fBackoffMax = durationSetting frac environ as ''reconcile-backoff-max'' ''EXTERNAL_DNS_RECONCILE_BACKOFF_MAX'' 300000000000,
       fHealthPort = intSetting environ as ''health-port'' ''EXTERNAL_DNS_HEALTH_PORT'' 8080,
       fMetricsPath = stringSetting environ as ''metrics-path'' ''EXTERNAL_DNS_METRICS_PATH'' ''/metrics'',
       fShutdownTimeout = durationSetting frac environ as ''shutdown-timeout'' ''EXTERNAL_DNS_SHUTDOWN_TIMEOUT'' 30000000000,
       fLogLevel = stringSetting environ as ''log-level'' ''EXTERNAL_DNS_LOG_LEVEL'' ''info''\<rparr>, [])"
proof -
  have "parseFlags frac environ (concat (map spell as)) = Inr (fold (assign frac flagTable) as (flagDefaults frac environ), [])"
    using FlagParse_spellings [OF assms flagTable_names, of "flagDefaults frac environ"] by (simp add: parseFlags_def)
  then show ?thesis
    by (simp add: flags.equality fields_last_win [OF assms] flagDefaults_def stringSetting_def intSetting_def int64Setting_def
        boolSetting_def durationSetting_def cong: option.case_cong)
qed

theorem command_line_overrides_witness:
  "\<exists>fl. parseFlags (\<lambda>_ _ _. 0) [''EXTERNAL_DNS_RFC2136_HOST=ns1'', ''EXTERNAL_DNS_RFC2136_ZONE=ex'']
       [''--rfc2136-host=ns2'', ''-dry-run=true'', ''--once'', ''--rfc2136-host'', ''ns3''] = Inr (fl, [])
     \<and> fHost fl = ''ns3'' \<and> fZone fl = ''ex'' \<and> fDryRun fl \<and> fOnce fl"
proof -
  let ?as = "[Joined True ''rfc2136-host'' ''ns2'', Joined False ''dry-run'' ''true'', Alone True ''once'', Apart True ''rfc2136-host'' ''ns3'']"
  let ?env = "[''EXTERNAL_DNS_RFC2136_HOST=ns1'', ''EXTERNAL_DNS_RFC2136_ZONE=ex'']"
  have "\<forall>a \<in> set ?as. understood (\<lambda>_ _ _. 0) flagTable a" by (simp add: flagTable_def ParseBool_def)
  moreover have "envOr ?env ''EXTERNAL_DNS_RFC2136_ZONE'' [] = ''ex''" by code_simp
  ultimately show ?thesis
    using command_line_overrides [of ?as "\<lambda>_ _ _. 0" ?env]
    by (auto simp: lastText_def dashes_def ParseBool_def stringSetting_def boolSetting_def)
qed

section \<open>Examples of command lines\<close>

text \<open>The command line of the quick start in the \<open>README\<close> names two flags that do not exist: exit status 2.\<close>

definition readme_args :: "string list" where
  "readme_args = [''--rfc2136-host=ns1.example.com'', ''--rfc2136-zone=example.com.'',
     ''--rfc2136-tsig-keyname=external-dns-docker'', ''--rfc2136-tsig-secret=YOUR_BASE64_SECRET_HERE'',
     ''--rfc2136-tsig-secret-alg=hmac-sha256'']"

lemma readme_quick_start_exits: "parseFlags (\<lambda>_ _ _. 0) [] readme_args = Inl 2"
  by code_simp

text \<open>A boolean flag does not take the next argument: parsing stops there and the flags after it are not read.\<close>

lemma bool_flag_stops_parsing:
  "\<exists>fl. parseFlags (\<lambda>_ _ _. 0) [] [''--dry-run'', ''false'', ''--rfc2136-host=ns1''] =
     Inr (fl, [''false'', ''--rfc2136-host=ns1'']) \<and> fDryRun fl \<and> fHost fl = []"
proof -
  have "parseFlags (\<lambda>_ _ _. 0) [] [''--dry-run'', ''false'', ''--rfc2136-host=ns1''] =
      Inr ((flagDefaults (\<lambda>_ _ _. 0) [])\<lparr>fDryRun := True\<rparr>, [''false'', ''--rfc2136-host=ns1''])"
    by code_simp
  then show ?thesis by (simp add: flagDefaults_def envOr_def Getenv_def)
qed

end
