(* ===== verification/Watcher.thy ===== *)
theory Watcher
  imports DockerSource
begin

text \<open>
  The goroutine of \<open>DockerSource.Watch\<close> (\<open>pkg/source/docker.go\<close>) as a step relation, for its place beside the
  controller's loop.  It is inside \<open>runEventLoop\<close> (\<open>Listening\<close>), in the \<open>select\<close> after it with the deadline of
  the reconnect wait (\<open>Ended\<close>), or has returned.  One step is one case of a \<open>select\<close>; the time, whether the context
  is done and the registered handlers are those of the moment.

  Shown here: the steps are exactly the runs of the functions \<open>runEventLoop\<close> and \<open>Watch\<close>, in both directions.
\<close>

datatype watch_phase = Listening | Ended int | WatchReturned

datatype watch_action = WMsg | WErr "goerror option" | WDone | WReconnect | WReturn

record 'h watcher =
  wphase :: watch_phase
  wlog :: "'h watch_log"

definition watch_init :: "'h watch_log \<Rightarrow> 'h watcher" where
  "watch_init l = \<lparr>wphase = Listening, wlog = l\<rparr>"

definition warnStream :: "goerror option \<Rightarrow> 'h watch_log \<Rightarrow> 'h watch_log" where
  "warnStream err l = (case err of None \<Rightarrow> l | Some e \<Rightarrow> l\<lparr>streamWarnings := streamWarnings l @ [e]\<rparr>)"

definition countReconnect :: "'h watch_log \<Rightarrow> 'h watch_log" where
  "countReconnect l = l\<lparr>reconnects := Suc (reconnects l)\<rparr>"

inductive watch_step ::
  "'h list \<Rightarrow> int \<Rightarrow> int \<Rightarrow> bool \<Rightarrow> 'h watcher \<Rightarrow> watch_action \<Rightarrow> 'h watcher \<Rightarrow> bool"
  for hs wait t canceled
where
  message: "wphase w = Listening \<Longrightarrow>
    watch_step hs wait t canceled w WMsg (w\<lparr>wlog := notify hs (wlog w)\<rparr>)"
| stream_end: "wphase w = Listening \<Longrightarrow>
    watch_step hs wait t canceled w (WErr err) (w\<lparr>wphase := Ended (t + wait), wlog := warnStream err (wlog w)\<rparr>)"
| loop_done: "wphase w = Listening \<Longrightarrow> canceled \<Longrightarrow>
    watch_step hs wait t canceled w WDone (w\<lparr>wphase := Ended (t + wait)\<rparr>)"
| reconnect: "wphase w = Ended d \<Longrightarrow> d \<le> t \<Longrightarrow>
    watch_step hs wait t canceled w WReconnect (w\<lparr>wphase := Listening, wlog := countReconnect (wlog w)\<rparr>)"
| return: "wphase w = Ended d \<Longrightarrow> canceled \<Longrightarrow>
    watch_step hs wait t canceled w WReturn (w\<lparr>wphase := WatchReturned\<rparr>)"

inductive_cases watch_stepE: "watch_step hs wait t canceled w a w'"

text \<open>A run at any times; the actions are listed latest first.\<close>

inductive watch_from :: "'h list \<Rightarrow> int \<Rightarrow> 'h watcher \<Rightarrow> watch_action list \<Rightarrow> 'h watcher \<Rightarrow> bool"
  for hs wait w0
where
  start: "watch_from hs wait w0 [] w0"
| step: "watch_from hs wait w0 tr w \<Longrightarrow> watch_step hs wait t canceled w a w' \<Longrightarrow> watch_from hs wait w0 (a # tr) w'"

text \<open>The connections of a run: those that ended in a reconnection, and what the last one has received.\<close>

fun connections :: "watch_action list \<Rightarrow> (select_event list \<times> bool) list \<times> select_event list" where
  "connections [] = ([], [])"
| "connections (a # tr) = (case connections tr of (cs, es) \<Rightarrow>
     (case a of
        WMsg \<Rightarrow> (cs, es @ [SelMsg])
      | WErr err \<Rightarrow> (cs, es @ [SelErr err])
      | WDone \<Rightarrow> (cs, es @ [SelDone])
      | WReconnect \<Rightarrow> (cs @ [(es, False)], [])
      | WReturn \<Rightarrow> (cs, es)))"


section \<open>Steps are runs of the functions\<close>

lemma runEventLoop_snoc:
  "runEventLoop hs es l = (Waiting, l') \<Longrightarrow> runEventLoop hs (es @ [e]) l = runEventLoop hs [e] l'"
  by (induction hs es l rule: runEventLoop.induct) auto

lemma runEventLoop_one:
  "runEventLoop hs [SelErr err] l = (StreamEnded, warnStream err l)"
  by (cases err) (simp_all add: warnStream_def)

lemma Watch_snoc:
  assumes "\<forall>c \<in> set cs. stream_end (fst c) \<noteq> Waiting \<and> \<not> snd c" and "runEventLoop hs es (snd (Watch hs cs l)) = (x, l')" "x \<noteq> Waiting"
  shows "Watch hs (cs @ [(es, False)]) l = (False, countReconnect l')" "Watch hs (cs @ [(es, True)]) l = (True, l')"
  using Watch_counts [OF assms(1), of hs l] assms(2,3) by (cases x; simp add: countReconnect_def)+

text \<open>What the functions say of a state of the goroutine.\<close>

definition watch_inv :: "'h list \<Rightarrow> 'h watch_log \<Rightarrow> (select_event list \<times> bool) list \<Rightarrow> select_event list \<Rightarrow> 'h watcher \<Rightarrow> bool" where
  "watch_inv hs l cs es w \<longleftrightarrow>
     (\<forall>c \<in> set cs. stream_end (fst c) \<noteq> Waiting \<and> \<not> snd c)
   \<and> (\<exists>x. runEventLoop hs es (snd (Watch hs cs l)) = (x, wlog w) \<and> (x = Waiting \<longleftrightarrow> wphase w = Listening))"

lemma watch_step_inv:
  assumes "watch_step hs wait t canceled w a w'" and "connections tr = (cs, es)" and "watch_inv hs l cs es w"
    and "connections (a # tr) = (cs', es')"
  shows "watch_inv hs l cs' es' w'"
proof -
  obtain x where x: "runEventLoop hs es (snd (Watch hs cs l)) = (x, wlog w)" "x = Waiting \<longleftrightarrow> wphase w = Listening"
    and cs: "\<forall>c \<in> set cs. stream_end (fst c) \<noteq> Waiting \<and> \<not> snd c" using assms(3) by (auto simp: watch_inv_def)
  have e: "stream_end es = x" using runEventLoop_counts [of hs es "snd (Watch hs cs l)"] x(1) by simp
  show ?thesis
    using assms(1)
  proof cases
    case (reconnect d)
    then show ?thesis using assms(2,4) Watch_snoc [OF cs x(1)] x(2) cs e by (auto simp: watch_inv_def)
  next
    case message
    then show ?thesis using assms(2,4) runEventLoop_snoc [of hs es] x cs by (auto simp: watch_inv_def)
  next
    case (stream_end err)
    then show ?thesis using assms(2,4) runEventLoop_snoc [of hs es] x cs by (auto simp: watch_inv_def runEventLoop_one)
  next
    case loop_done
    then show ?thesis using assms(2,4) runEventLoop_snoc [of hs es] x cs by (auto simp: watch_inv_def)
  next
    case (return d)
    then show ?thesis using assms(2,4) x cs by (auto simp: watch_inv_def)
  qed
qed

lemma watch_from_inv:
  "watch_from hs wait (watch_init l) tr w \<Longrightarrow> connections tr = (cs, es) \<Longrightarrow> watch_inv hs l cs es w"
proof (induction arbitrary: cs es rule: watch_from.induct)
  case start
  then show ?case by (simp add: watch_inv_def watch_init_def)
next
  case (step tr w t canceled a w')
  obtain cs0 es0 where c: "connections tr = (cs0, es0)" by fastforce
  show ?case by (rule watch_step_inv [OF step.hyps(2) c step.IH [OF c] step.prems])
qed


section \<open>Runs of the functions are steps\<close>

lemma watch_append:
  "watch_from hs wait w tr2 w' \<Longrightarrow> watch_from hs wait w0 tr1 w \<Longrightarrow> watch_from hs wait w0 (tr2 @ tr1) w'"
  by (induction rule: watch_from.induct) (auto intro: watch_from.step)

lemma watch_one: "watch_step hs wait t canceled w a w' \<Longrightarrow> watch_from hs wait w [a] w'"
  by (rule watch_from.step [OF watch_from.start])

lemma ended_by:
  "watch_step hs wait t canceled (watch_init l) a w \<Longrightarrow> wphase w = Ended d \<Longrightarrow>
     \<exists>tr u. watch_from hs wait (watch_init l) tr u \<and> wlog u = wlog w \<and> (\<exists>d. wphase u = Ended d)"
  using watch_one by blast

lemma loop_steps:
  assumes "runEventLoop hs es l = (x, l')"
  shows "\<exists>tr w. watch_from hs wait (watch_init l) tr w \<and> wlog w = l'
     \<and> (if x = Waiting then wphase w = Listening else \<exists>d. wphase w = Ended d)"
  using assms
proof (induction hs es l rule: runEventLoop.induct)
  case (1 hs l)
  have "watch_from hs wait (watch_init l) [] (watch_init l)" by (rule watch_from.start)
  with 1 show ?case by (intro exI [of _ "[]"] exI [of _ "watch_init l"]) (auto simp: watch_init_def)
next
  case (2 hs es l)
  then show ?case using ended_by [OF watch_step.loop_done [of "watch_init l" True hs wait 0]] by (simp add: watch_init_def)
next
  case (3 hs e es l)
  then show ?case
    using ended_by [OF watch_step.stream_end [of "watch_init l" hs wait 0 False "Some e"]]
    by (simp add: watch_init_def warnStream_def)
next
  case (4 hs es l)
  then show ?case
    using ended_by [OF watch_step.stream_end [of "watch_init l" hs wait 0 False None]]
    by (simp add: watch_init_def warnStream_def)
next
  case (5 hs es l)
  have "watch_from hs wait (watch_init l) [WMsg] (watch_init (notify hs l))"
    using watch_one [OF watch_step.message [of "watch_init l" hs wait 0 False]] by (simp add: watch_init_def)
  then show ?case using 5 watch_append by fastforce
qed

lemma Watch_steps:
  assumes "Watch hs cs l = (True, l')"
  shows "\<exists>tr w. watch_from hs wait (watch_init l) tr w \<and> wphase w = WatchReturned \<and> wlog w = l'"
  using assms
proof (induction hs cs l rule: Watch.induct)
  case (2 hs es finished rest l)
  obtain x l1 where r: "runEventLoop hs es l = (x, l1)" by fastforce
  then have x: "x \<noteq> Waiting" using 2(3) by auto
  then obtain tr w d where w: "watch_from hs wait (watch_init l) tr w" "wlog w = l1" "wphase w = Ended d"
    using loop_steps [OF r, of wait] by auto
  show ?case
  proof (cases finished)
    case True
    then have "l' = l1" using 2(3) r x by (cases x) auto
    then show ?thesis
      using watch_append [OF watch_one [OF watch_step.return [OF w(3), of True hs wait 0]] w(1)] w(2) by fastforce
  next
    case False
    have "w\<lparr>wphase := Listening, wlog := countReconnect (wlog w)\<rparr> = watch_init (countReconnect l1)"
      using w(2) by (simp add: watch_init_def)
    then have "watch_from hs wait w [WReconnect] (watch_init (countReconnect l1))"
      using watch_one [OF watch_step.reconnect [OF w(3), of d hs wait False]] by simp
    note again = watch_append [OF this w(1)]
    have "Watch hs rest (countReconnect l1) = (True, l')"
      using 2(3) r x False by (cases x) (auto simp: countReconnect_def)
    then obtain tr' w' where "watch_from hs wait (watch_init (countReconnect l1)) tr' w'" "wphase w' = WatchReturned" "wlog w' = l'"
      using 2(1,2) r x False by (cases x) (auto simp: countReconnect_def)
    then show ?thesis using watch_append [OF _ again] by blast
  qed
qed simp

text \<open>
  The goroutine and the functions agree: in every state the goroutine can reach, its log is the one that
  \<open>Watch\<close> and \<open>runEventLoop\<close> compute for the connections so far, and it has left \<open>runEventLoop\<close> or returned
  exactly when they say so; and every call of \<open>Watch\<close> that returns is a run of the goroutine that returns with
  the same log.
\<close>

lemma watch_steps_agree:
  shows "(watch_from hs wait (watch_init l) tr w \<and> connections tr = (cs, es) \<longrightarrow>
       (\<exists>x l1. Watch hs cs l = (False, l1) \<and> runEventLoop hs es l1 = (x, wlog w) \<and> (x = Waiting \<longleftrightarrow> wphase w = Listening))
     \<and> (wphase w = WatchReturned \<longrightarrow> Watch hs (cs @ [(es, True)]) l = (True, wlog w)))
   \<and> (Watch hs cs' l = (True, l') \<longrightarrow>
       (\<exists>tr' w'. watch_from hs wait (watch_init l) tr' w' \<and> wphase w' = WatchReturned \<and> wlog w' = l'))"
proof -
  have "(\<exists>x l1. Watch hs cs l = (False, l1) \<and> runEventLoop hs es l1 = (x, wlog w) \<and> (x = Waiting \<longleftrightarrow> wphase w = Listening))
     \<and> (wphase w = WatchReturned \<longrightarrow> Watch hs (cs @ [(es, True)]) l = (True, wlog w))"
    if run: "watch_from hs wait (watch_init l) tr w" "connections tr = (cs, es)"
  proof -
    obtain x where x: "runEventLoop hs es (snd (Watch hs cs l)) = (x, wlog w)" "x = Waiting \<longleftrightarrow> wphase w = Listening"
      and cs: "\<forall>c \<in> set cs. stream_end (fst c) \<noteq> Waiting \<and> \<not> snd c"
      using watch_from_inv [OF run] by (auto simp: watch_inv_def)
    have "Watch hs cs l = (False, snd (Watch hs cs l))" using Watch_counts [OF cs, of hs l] by (simp add: Let_def)
    then show ?thesis using x Watch_snoc(2) [OF cs x(1)] by fastforce
  qed
  then show ?thesis using Watch_steps by blast
qed

lemma watch_steps_agree_example:
  "\<exists>tr w. watch_from [''h''] 5 (watch_init \<lparr>calls = [], dockerEventsTotal = 0, streamWarnings = [], reconnects = 0\<rparr>) tr w
     \<and> wphase w = WatchReturned \<and> calls (wlog w) = [''h''] \<and> reconnects (wlog w) = 1"
proof -
  let ?l = "\<lparr>calls = [], dockerEventsTotal = 0, streamWarnings = [], reconnects = 0\<rparr> :: string watch_log"
  have "Watch [''h''] [([SelErr None], False), ([SelMsg, SelDone], True)] ?l =
      (True, \<lparr>calls = [''h''], dockerEventsTotal = 1, streamWarnings = [], reconnects = 1\<rparr>)"
    by (simp add: notify_def)
  then show ?thesis
    using watch_steps_agree [of "[''h'']" 5 ?l "[]" "watch_init ?l" "[]" "[]"] by fastforce
qed

end
