(* ===== verification/MainRun.thy ===== *)
theory MainRun
  imports MainFlags ControllerLoop Watcher
begin

text \<open>
  The life of the program after its configuration, \<open>cmd/external-dns-docker/main.go\<close>: the health server,
  and \<open>main\<close> from the first line to the exit.

  Without \<open>--once\<close> three goroutines and the health server run side by side, and every interleaving of their steps
  is a run of \<open>main_step\<close>: the controller's loop (\<open>run_step\<close>), the Docker watcher (\<open>watch_step\<close>) whose messages call
  the registered handlers, and the main goroutine, which starts \<open>Run\<close>, waits for it to return and
  then for the watcher or the shutdown timeout, whichever is first.  The watcher is started before \<open>Run\<close> registers
  its handler, so messages may arrive that call no handler.  A signal cancels the context (\<open>ACancel\<close>).

  Shown here: no message of the Docker daemon goes without a cycle; the program ends only after a signal,
  with status 0 and its Docker client closed, and never later than the shutdown timeout after the
  loop returned; with \<open>--once\<close> the status tells whether the cycle failed; the health server's routes.
\<close>


section \<open>The health server\<close>

datatype handler = HealthzHandler | ReadyzHandler | PromHandler

type_synonym mux = "(string \<times> handler) list"

text \<open>
  \<open>ServeMux.Handle\<close> on literal patterns (no method, no wildcard): \<open>None\<close> is its panic, on a pattern without a
  slash and on one that is registered already.
\<close>

definition muxHandle :: "string \<Rightarrow> handler \<Rightarrow> mux \<Rightarrow> mux option" where
  "muxHandle pat h m =
     (if CHR ''/'' \<notin> set pat \<or> pat \<in> fst ` set m then None else Some (m @ [(pat, h)]))"

record http_server =
  srvAddr :: string
  srvHandler :: mux

datatype health = HealthOff | HealthOn http_server | HealthPanic

definition startHealthServer :: "int \<Rightarrow> string \<Rightarrow> health" where
  "startHealthServer port metricsPath =
     (if port = 0 then HealthOff
      else case Option.bind (muxHandle ''/healthz'' HealthzHandler [])
             (\<lambda>m. Option.bind (muxHandle ''/readyz'' ReadyzHandler m) (muxHandle metricsPath PromHandler)) of
        None \<Rightarrow> HealthPanic
      | Some m \<Rightarrow> HealthOn \<lparr>srvAddr = '':'' @ itoa port, srvHandler = m\<rparr>)"

text \<open>Status and body of an answer; the metrics handler is a library's.\<close>

definition respond :: "(string \<Rightarrow> nat \<times> string) \<Rightarrow> ('s, 'p) controller \<Rightarrow> handler \<Rightarrow> string \<Rightarrow> nat \<times> string" where
  "respond prom ctrl h path = (case h of
     HealthzHandler \<Rightarrow> healthz | ReadyzHandler \<Rightarrow> readyz ctrl | PromHandler \<Rightarrow> prom path)"

text \<open>
  The request paths that \<open>ServeMux\<close> gives to a handler, for patterns that are plain absolute paths and request paths
  without empty or dot segments: a path that is registered, else a redirection when it is registered
  with a slash added, else the longest registered directory above it.
\<close>

definition literalPattern :: "string \<Rightarrow> bool" where
  "literalPattern pat \<longleftrightarrow> HasPrefix pat ''/'' \<and> set pat \<inter> set '' {}'' = {} \<and> CHR 0x09 \<notin> set pat"

datatype mux_answer = Handled handler | RedirectTo string | NotFound

definition muxServe :: "mux \<Rightarrow> string \<Rightarrow> mux_answer" where
  "muxServe m path = (case map_of m path of
     Some h \<Rightarrow> Handled h
   | None \<Rightarrow>
       if \<not> HasSuffix path ''/'' \<and> map_of m (path @ ''/'') \<noteq> None then RedirectTo (path @ ''/'')
       else (case sort_key (\<lambda>ph. - int (length (fst ph))) (filter (\<lambda>ph. HasSuffix (fst ph) ''/'' \<and> HasPrefix path (fst ph)) m) of
               [] \<Rightarrow> NotFound
             | ph # _ \<Rightarrow> Handled (snd ph)))"

lemma startHealthServer_on:
  "startHealthServer port path = HealthOn srv \<longleftrightarrow>
     port \<noteq> 0 \<and> CHR ''/'' \<in> set path \<and> path \<noteq> ''/healthz'' \<and> path \<noteq> ''/readyz''
     \<and> srv = \<lparr>srvAddr = '':'' @ itoa port,
          srvHandler = [(''/healthz'', HealthzHandler), (''/readyz'', ReadyzHandler), (path, PromHandler)]\<rparr>"
  by (auto simp: startHealthServer_def muxHandle_def)

text \<open>
  The routes of a server that was started: the two probes are answered whatever the metrics path is, and
  when it is not a directory every other path is not found.
\<close>

lemma health_routes:
  assumes "startHealthServer port path = HealthOn srv" "literalPattern path"
  shows "muxServe (srvHandler srv) ''/healthz'' = Handled HealthzHandler"
    and "muxServe (srvHandler srv) ''/readyz'' = Handled ReadyzHandler"
    and "muxServe (srvHandler srv) path = Handled PromHandler"
    and "\<not> HasSuffix path ''/'' \<Longrightarrow> req \<notin> {''/healthz'', ''/readyz'', path} \<Longrightarrow> muxServe (srvHandler srv) req = NotFound"
proof -
  have srv: "srvHandler srv = [(''/healthz'', HealthzHandler), (''/readyz'', ReadyzHandler), (path, PromHandler)]"
      "path \<noteq> ''/healthz''" "path \<noteq> ''/readyz''"
    using assms(1) unfolding startHealthServer_on by auto
  show "muxServe (srvHandler srv) ''/healthz'' = Handled HealthzHandler"
    "muxServe (srvHandler srv) ''/readyz'' = Handled ReadyzHandler" "muxServe (srvHandler srv) path = Handled PromHandler"
    using srv by (auto simp: muxServe_def)
  have dirs: "\<not> HasSuffix ''/healthz'' ''/''" "\<not> HasSuffix ''/readyz'' ''/''" by (simp_all add: HasSuffix_def)
  assume req: "\<not> HasSuffix path ''/''" "req \<notin> {''/healthz'', ''/readyz'', path}"
  have "p \<notin> {''/healthz'', ''/readyz'', path}" if "HasSuffix p ''/''" for p using that dirs req(1) by blast
  moreover have "HasSuffix (req @ ''/'') ''/''" by (simp add: HasSuffix_def)
  ultimately have "map_of (srvHandler srv) (req @ ''/'') = None" unfolding srv by (auto split: if_splits)
  moreover have "map_of (srvHandler srv) req = None" using req(2) unfolding srv by simp
  ultimately show "muxServe (srvHandler srv) req = NotFound"
    using dirs req(1) unfolding muxServe_def by (simp add: srv)
qed

lemma metrics_path_clash: "port \<noteq> 0 \<Longrightarrow> startHealthServer port ''/healthz'' = HealthPanic"
  by (simp add: startHealthServer_def muxHandle_def)


section \<open>From the arguments to the controller\<close>

text \<open>The exit status, or the running parts.  A panic exits with status 2.\<close>

definition mainStart ::
  "(nat \<Rightarrow> nat \<Rightarrow> nat \<Rightarrow> nat) \<Rightarrow> (string \<Rightarrow> string result) \<Rightarrow> (string \<Rightarrow> yamlZonesFile result) \<Rightarrow>
   (string, ZoneConfig) range_order \<Rightarrow> (docker_opt list \<Rightarrow> 'c result) \<Rightarrow> dns_lib \<Rightarrow>
   (dns_Transfer, dns_Client, 'n) network \<Rightarrow> environ \<Rightarrow> string list \<Rightarrow> 'n \<Rightarrow>
   nat + flags \<times> launch \<times> (('c, 'h) docker_source, 'n) controller \<times> health"
where
  "mainStart frac readFile unmarshal rng newClient lib net environ args n =
     (case parseFlags frac environ args of
        Inl status \<Rightarrow> Inl status
      | Inr (fl, _) \<Rightarrow>
          (case startup frac readFile unmarshal rng environ newClient lib net fl n of
             Inl err \<Rightarrow> Inl 1
           | Inr (l, c) \<Rightarrow>
               (case startHealthServer (fHealthPort fl) (fMetricsPath fl) of
                  HealthPanic \<Rightarrow> Inl 2
                | srv \<Rightarrow> Inr (fl, l, c, srv))))"


text \<open>The line logged before \<open>Run\<close>: its attributes in order.  The number of zones stays 0 in single-zone mode.\<close>

datatype log_value = LString string | LInt int | LDuration int | LBool bool

definition launchMode :: "launch \<Rightarrow> string" where
  "launchMode l = (case l of LaunchSingle c \<Rightarrow> ''single-zone'' | LaunchMulti mode configs \<Rightarrow> mode)"

definition launchZones :: "launch \<Rightarrow> nat" where
  "launchZones l = (case l of LaunchSingle c \<Rightarrow> 0 | LaunchMulti mode configs \<Rightarrow> length configs)"

definition startLog :: "flags \<Rightarrow> launch \<Rightarrow> (string \<times> log_value) list" where
  "startLog fl l =
     (let common = [(''interval'', LDuration (fInterval fl)), (''dry-run'', LBool (fDryRun fl)), (''once'', LBool (fOnce fl))]
      in if launchZones l > 0 then
           [(''mode'', LString (launchMode l)), (''zones'', LInt (int (launchZones l)))] @ common
         else
           [(''mode'', LString (launchMode l)), (''rfc2136-host'', LString (fHost fl)),
            (''rfc2136-zone'', LString (fZone fl))] @ common)"

text \<open>
  A configuration file without entries is accepted: there is no zone to check or to write to, every read and
  write succeeds, and nothing is ever published.
\<close>

lemma no_zones_nothing_published:
  "readFile path = Inr text \<Longrightarrow> unmarshal text = Inr \<lparr>Zones = []\<rparr> \<Longrightarrow>
     loadZoneConfigsFromFile frac readFile unmarshal path = Inr []"
  "launchPreflight lib net (LaunchMulti mode []) n = (None, n)"
  "Records (launchMethods lib net [] (LaunchMulti mode [])) n = (Inr [], n)"
  "ApplyChanges (launchMethods lib net [] (LaunchMulti mode [])) n ch = (None, n)"
  by (auto simp: loadZoneConfigsFromFile_def launchPreflight_def launchMethods_def NewMulti_def multi_methods_def
      multi_Records_def multi_ApplyChanges_def split: prod.splits)


section \<open>Run and shutdown\<close>

text \<open>
  \<open>MainStart\<close>: the watcher has been started, \<open>Run\<close> has not registered its handler yet.  \<open>MainWait\<close>: \<open>Run\<close> has
  returned, with the deadline of the shutdown timeout.
\<close>

datatype main_phase = MainStart | MainRun | MainWait int | MainExit nat

datatype main_action =
    MLoop action
  | MWatch watch_action
  | MRunStarts
  | MRunReturns
  | MShutdownComplete
  | MShutdownTimeout
  | MServeFails
  | MServerStops

text \<open>
  The goroutines of the health server: one serves until \<open>ListenAndServe\<close> fails, which is only logged, the other
  shuts the server down when the context is done.  Nothing waits for either.
\<close>

datatype server_state = ServerOff | Serving | ServeFailed | ServerStopped

record ('c, 'h, 'p) main_state =
  loop :: "(('c, 'h) docker_source, 'p) run_state"
  mphase :: main_phase
  watcher :: "'h watcher"
  healthServer :: server_state
  clientClosed :: bool
  closeWarning :: "goerror option"

abbreviation loopSource :: "('c, 'h, 'p) main_state \<Rightarrow> ('c, 'h) docker_source" where
  "loopSource m \<equiv> ctlSource (ctl (loop m))"

definition running :: "('c, 'h, 'p) main_state \<Rightarrow> bool" where
  "running m \<longleftrightarrow> (case mphase m of MainExit k \<Rightarrow> False | _ \<Rightarrow> True)"

definition no_watch_log :: "'h watch_log" where
  "no_watch_log = \<lparr>calls = [], dockerEventsTotal = 0, streamWarnings = [], reconnects = 0\<rparr>"

definition main_init :: "int \<Rightarrow> health \<Rightarrow> (('c, 'h) docker_source, 'p) controller \<Rightarrow> ('c, 'h, 'p) main_state" where
  "main_init t hs c =
     \<lparr>loop = \<lparr>ctl = c, now = t, phase = Selecting, nextTimer = None, debounceTimer = None, firing = 0,
        reconcileCh = False, ctxDone = False, consecutiveErrors = 0\<rparr>,
      mphase = MainStart, watcher = watch_init no_watch_log,
      healthServer = (case hs of HealthOn srv \<Rightarrow> Serving | _ \<Rightarrow> ServerOff), clientClosed = False, closeWarning = None\<rparr>"

text \<open>\<open>Run\<close> registers its handler and arms its timer.\<close>

definition runStarts :: "('h, 's) source \<Rightarrow> 'h \<Rightarrow> ('s, 'p) run_state \<Rightarrow> ('s, 'p) run_state" where
  "runStarts src h s = (run_init src h (now s) (ctl s))\<lparr>ctxDone := ctxDone s\<rparr>"

text \<open>Every registered handler is the controller's.\<close>

definition callHandlers :: "'h list \<Rightarrow> ('s, 'p) run_state \<Rightarrow> ('s, 'p) run_state" where
  "callHandlers hs s = fold (\<lambda>_. onEvent) hs s"

text \<open>\<open>os.Exit\<close> skips the deferred calls, a return from \<open>main\<close> makes them: an error of \<open>Close\<close> is logged.\<close>

definition afterRun :: "int \<Rightarrow> goerror \<Rightarrow> ('c, 'h, 'p) main_state \<Rightarrow> ('c, 'h, 'p) main_state" where
  "afterRun shutdownTimeout err m =
     (if exitStatus (Some err) \<noteq> 0 then m\<lparr>mphase := MainExit (exitStatus (Some err))\<rparr>
      else m\<lparr>mphase := MainWait (now (loop m) + shutdownTimeout)\<rparr>)"

definition mainReturns :: "('c \<Rightarrow> goerror option) \<Rightarrow> ('c, 'h, 'p) main_state \<Rightarrow> ('c, 'h, 'p) main_state" where
  "mainReturns close m =
     m\<lparr>mphase := MainExit 0, clientClosed := True, closeWarning := docker_Close close (loopSource m)\<rparr>"

text \<open>
  The loop's actions that are possible: its handler is called by the watcher only, and before \<open>Run\<close> starts only time
  passes, the world changes or a signal arrives.
\<close>

definition mayStep :: "('c, 'h, 'p) main_state \<Rightarrow> action \<Rightarrow> bool" where
  "mayStep m a \<longleftrightarrow> running m \<and> a \<noteq> AEvent \<and> (mphase m = MainStart \<longrightarrow> a \<in> {ATick, AWorld, ACancel})"

text \<open>The world outside changes neither the registered handlers nor the configured wait.\<close>

definition sourceKept :: "('c, 'h) docker_source \<Rightarrow> ('c, 'h) docker_source \<Rightarrow> bool" where
  "sourceKept s s' \<longleftrightarrow> handlers s' = handlers s \<and> reconnectWait s' = reconnectWait s"

inductive main_step ::
  "('c \<Rightarrow> container list result) \<Rightarrow> ('c \<Rightarrow> goerror option) \<Rightarrow> 'p provider \<Rightarrow> 'h \<Rightarrow> int \<Rightarrow>
   ('c, 'h, 'p) main_state \<Rightarrow> main_action \<Rightarrow> ('c, 'h, 'p) main_state \<Rightarrow> bool"
  for list close pv h shutdownTimeout
where
  loop_step: "run_step (docker_methods list) pv (loop m) a s \<Longrightarrow> mayStep m a \<Longrightarrow>
    (a = AWorld \<Longrightarrow> sourceKept (loopSource m) (ctlSource (ctl s))) \<Longrightarrow>
    main_step list close pv h shutdownTimeout m (MLoop a) (m\<lparr>loop := s\<rparr>)"
| watch: "watch_step (handlers (loopSource m)) (reconnectWait (loopSource m)) (now (loop m)) (ctxDone (loop m)) (watcher m) b w \<Longrightarrow>
    running m \<Longrightarrow>
    main_step list close pv h shutdownTimeout m (MWatch b)
      (m\<lparr>watcher := w, loop := (if b = WMsg then callHandlers (handlers (loopSource m)) (loop m) else loop m)\<rparr>)"
| run_starts: "mphase m = MainStart \<Longrightarrow>
    main_step list close pv h shutdownTimeout m MRunStarts
      (m\<lparr>loop := runStarts (docker_methods list) h (loop m), mphase := MainRun\<rparr>)"
| run_returns: "mphase m = MainRun \<Longrightarrow> phase (loop m) = Returned err \<Longrightarrow>
    main_step list close pv h shutdownTimeout m MRunReturns (afterRun shutdownTimeout err m)"
| shutdown_complete: "mphase m = MainWait d \<Longrightarrow> wphase (watcher m) = WatchReturned \<Longrightarrow>
    main_step list close pv h shutdownTimeout m MShutdownComplete (mainReturns close m)"
| shutdown_timeout: "mphase m = MainWait d \<Longrightarrow> d \<le> now (loop m) \<Longrightarrow>
    main_step list close pv h shutdownTimeout m MShutdownTimeout (mainReturns close m)"
| serve_fails: "healthServer m = Serving \<Longrightarrow> running m \<Longrightarrow>
    main_step list close pv h shutdownTimeout m MServeFails (m\<lparr>healthServer := ServeFailed\<rparr>)"
| server_stops: "healthServer m = Serving \<Longrightarrow> ctxDone (loop m) \<Longrightarrow> running m \<Longrightarrow>
    main_step list close pv h shutdownTimeout m MServerStops (m\<lparr>healthServer := ServerStopped\<rparr>)"

inductive_cases main_stepE: "main_step list close pv h shutdownTimeout m a m'"

text \<open>A run, with the times of its actions, latest first.\<close>

inductive main_from ::
  "('c \<Rightarrow> container list result) \<Rightarrow> ('c \<Rightarrow> goerror option) \<Rightarrow> 'p provider \<Rightarrow> 'h \<Rightarrow> int \<Rightarrow>
   ('c, 'h, 'p) main_state \<Rightarrow> (int \<times> main_action) list \<Rightarrow> ('c, 'h, 'p) main_state \<Rightarrow> bool"
  for list close pv h shutdownTimeout m0
where
  start: "main_from list close pv h shutdownTimeout m0 [] m0"
| step: "main_from list close pv h shutdownTimeout m0 tr m \<Longrightarrow> main_step list close pv h shutdownTimeout m a m' \<Longrightarrow>
    main_from list close pv h shutdownTimeout m0 ((now (loop m), a) # tr) m'"

text \<open>With \<open>--once\<close> no watcher runs and \<open>Run\<close> is one cycle: the status, and whether the client is closed.\<close>

definition mainOnce ::
  "('h, 's) source \<Rightarrow> 'p provider \<Rightarrow> (string, endpoint) range_order \<Rightarrow> (string, endpoint) range_order \<Rightarrow>
   ('s, 'p) controller \<Rightarrow> (nat \<times> bool) option"
where
  "mainOnce src pv rd rc c =
     map_option (\<lambda>r. (exitStatus (fst r), exitStatus (fst r) = 0)) (Run_once src pv rd rc c)"


section \<open>The exit\<close>

lemma callHandlers_keeps [simp]:
  "phase (callHandlers hs s) = phase s" "now (callHandlers hs s) = now s" "ctxDone (callHandlers hs s) = ctxDone s"
  "ctl (callHandlers hs s) = ctl s"
proof -
  have "phase (callHandlers hs s) = phase s \<and> now (callHandlers hs s) = now s \<and> ctxDone (callHandlers hs s) = ctxDone s
      \<and> ctl (callHandlers hs s) = ctl s"
    unfolding callHandlers_def by (induction hs arbitrary: s) (simp_all add: onEvent_def)
  then show "phase (callHandlers hs s) = phase s" "now (callHandlers hs s) = now s" "ctxDone (callHandlers hs s) = ctxDone s"
    "ctl (callHandlers hs s) = ctl s" by simp_all
qed

lemma runStarts_sel [simp]:
  "phase (runStarts src h s) = Selecting" "now (runStarts src h s) = now s" "ctxDone (runStarts src h s) = ctxDone s"
  "nextTimer (runStarts src h s) = Some (now s)" "debounceTimer (runStarts src h s) = None"
  "ctlCfg (ctl (runStarts src h s)) = ctlCfg (ctl s)"
  by (simp_all add: runStarts_def)

text \<open>What holds in every state of a run without \<open>--once\<close>.\<close>

definition main_inv :: "int \<Rightarrow> ('c, 'h, 'p) main_state \<Rightarrow> bool" where
  "main_inv shutdownTimeout m \<longleftrightarrow>
     (\<forall>e. phase (loop m) = Returned e \<longrightarrow> ctxDone (loop m) \<and> e = ContextError ''context canceled'')
   \<and> (mphase m \<notin> {MainStart, MainRun} \<longrightarrow> ctxDone (loop m) \<and> (\<exists>e. phase (loop m) = Returned e))
   \<and> (\<forall>d. mphase m = MainWait d \<longrightarrow> d \<le> now (loop m) + shutdownTimeout)
   \<and> (\<forall>k. mphase m = MainExit k \<longrightarrow> k = 0) \<and> (clientClosed m \<longleftrightarrow> \<not> running m)
   \<and> (wphase (watcher m) = WatchReturned \<or> healthServer m = ServerStopped \<longrightarrow> ctxDone (loop m))"

lemma exit_canceled [simp]: "exitStatus (Some (ContextError ''context canceled'')) = 0"
  by (simp add: exitStatus_def)

lemma run_step_mono:
  assumes "run_step src pv s a s'"
  shows "now s \<le> now s'" "ctxDone s \<Longrightarrow> ctxDone s'" "phase s = Returned e \<Longrightarrow> phase s' = Returned e"
    "phase s' = Returned e \<Longrightarrow> phase s = Returned e \<or> ctxDone s' \<and> e = ContextError ''context canceled''"
  using assms by (cases rule: run_step.cases; auto simp: run_defs split: prod.splits option.splits)+

lemma watch_step_returned:
  "watch_step hs wait t canceled w b w' \<Longrightarrow> wphase w' = WatchReturned \<Longrightarrow> canceled"
  by (erule watch_stepE) auto

lemma main_step_inv: "main_step list close pv h t m a m' \<Longrightarrow> main_inv t m \<Longrightarrow> main_inv t m'"
proof (erule main_stepE)
  fix b s assume s: "run_step (docker_methods list) pv (loop m) b s" "m' = m\<lparr>loop := s\<rparr>" "main_inv t m"
  show "main_inv t m'"
    using s(3) run_step_mono(1,2) [OF s(1)] run_step_mono(3,4) [OF s(1)] unfolding s(2) main_inv_def
    by (fastforce simp: running_def)
next
  fix b w assume "watch_step (handlers (loopSource m)) (reconnectWait (loopSource m)) (now (loop m)) (ctxDone (loop m)) (watcher m) b w"
    "m' = m\<lparr>watcher := w, loop := (if b = WMsg then callHandlers (handlers (loopSource m)) (loop m) else loop m)\<rparr>" "main_inv t m"
  then show "main_inv t m'" using watch_step_returned [of "handlers (loopSource m)"] by (auto simp: main_inv_def running_def)
next
  fix err assume "m' = afterRun t err m" "mphase m = MainRun" "phase (loop m) = Returned err" "main_inv t m"
  then show "main_inv t m'" by (auto simp: main_inv_def afterRun_def running_def)
qed (auto simp: main_inv_def mainReturns_def running_def)

lemma main_from_inv: "main_from list close pv h t m0 tr m \<Longrightarrow> main_inv t m0 \<Longrightarrow> main_inv t m"
  by (induction rule: main_from.induct) (auto intro: main_step_inv)

lemma main_init_inv: "main_inv t (main_init t0 hs c)"
  by (simp add: main_init_def main_inv_def running_def watch_init_def split: health.splits)

lemma main_append:
  "main_from list close pv h t m tr2 m' \<Longrightarrow> main_from list close pv h t m0 tr1 m \<Longrightarrow>
     main_from list close pv h t m0 (tr2 @ tr1) m'"
proof (induction rule: main_from.induct)
  case (step tr u a u')
  then show ?case using main_from.step by fastforce
qed simp

lemma main_one: "main_step list close pv h t m a m' \<Longrightarrow> main_from list close pv h t m [(now (loop m), a)] m'"
  by (rule main_from.step [OF main_from.start])

text \<open>
  The program ends with status 0 by time \<open>b\<close>, by the passage of time, the end of a cycle in progress and the
  steps of the main goroutine alone: the goroutine of \<open>Watch\<close> need not return.
\<close>

definition endingActions :: "main_action set" where
  "endingActions = {MLoop ATick, MLoop AReturn, MRunStarts, MRunReturns, MShutdownTimeout} \<union> range (\<lambda>r. MLoop (AFinish r))"

definition ends_by ::
  "('c \<Rightarrow> container list result) \<Rightarrow> ('c \<Rightarrow> goerror option) \<Rightarrow> 'p provider \<Rightarrow> 'h \<Rightarrow> int \<Rightarrow>
   ('c, 'h, 'p) main_state \<Rightarrow> int \<Rightarrow> bool"
where
  "ends_by list close pv h t m b \<longleftrightarrow>
     (\<exists>tr m'. main_from list close pv h t m tr m' \<and> mphase m' = MainExit 0 \<and> clientClosed m' \<and> now (loop m') \<le> b
        \<and> snd ` set tr \<subseteq> endingActions)"

lemma ends_by_step:
  assumes "main_step list close pv h t m a u" "ends_by list close pv h t u b" "a \<in> endingActions"
  shows "ends_by list close pv h t m b"
proof -
  obtain tr m' where "main_from list close pv h t u tr m'" "mphase m' = MainExit 0" "clientClosed m'" "now (loop m') \<le> b"
      "snd ` set tr \<subseteq> endingActions"
    using assms(2) by (auto simp: ends_by_def)
  moreover have "main_from list close pv h t m (tr @ [(now (loop m), a)]) m'" "snd ` set (tr @ [(now (loop m), a)]) \<subseteq> endingActions"
    using main_append [OF calculation(1) main_one [OF assms(1)]] calculation(5) assms(3) by simp_all
  ultimately show ?thesis unfolding ends_by_def by blast
qed

lemma wait_ends:
  assumes "mphase m = MainWait d" shows "ends_by list close pv h t m (max d (now (loop m)))"
proof -
  let ?u = "m\<lparr>loop := (loop m)\<lparr>now := max d (now (loop m))\<rparr>\<rparr>"
  have "main_step list close pv h t m (MLoop ATick) ?u"
    using assms by (intro main_step.loop_step tick_to) (simp_all add: mayStep_def running_def)
  moreover have "main_step list close pv h t ?u MShutdownTimeout (mainReturns close ?u)"
    using assms by (intro main_step.shutdown_timeout [of _ d]) simp_all
  then have "ends_by list close pv h t ?u (max d (now (loop m)))"
    using main_one [of list close pv h t ?u] unfolding ends_by_def by (fastforce simp: mainReturns_def endingActions_def)
  ultimately show ?thesis using ends_by_step by (fastforce simp: endingActions_def)
qed

lemma returned_ends:
  assumes "mphase m = MainRun" "phase (loop m) = Returned (ContextError ''context canceled'')"
  shows "ends_by list close pv h t m (now (loop m) + max 0 t)"
proof -
  have "main_step list close pv h t m MRunReturns (m\<lparr>mphase := MainWait (now (loop m) + t)\<rparr>)"
    using main_step.run_returns [OF assms, of list close pv h t] by (simp add: afterRun_def)
  moreover have "max (now (loop m) + t) (now (loop m)) = now (loop m) + max 0 t" by simp
  ultimately show ?thesis
    using ends_by_step wait_ends [of "m\<lparr>mphase := MainWait (now (loop m) + t)\<rparr>" "now (loop m) + t" list close pv h t]
    by (fastforce simp: endingActions_def)
qed

lemma selecting_ends:
  assumes "mphase m = MainRun" "phase (loop m) = Selecting" "ctxDone (loop m)"
  shows "ends_by list close pv h t m (now (loop m) + max 0 t)"
proof -
  let ?s = "(loop m)\<lparr>phase := Returned (ContextError ''context canceled''), nextTimer := None\<rparr>"
  have "main_step list close pv h t m (MLoop AReturn) (m\<lparr>loop := ?s\<rparr>)"
    using assms run_step.return by (intro main_step.loop_step) (auto simp: mayStep_def running_def)
  then show ?thesis
    using ends_by_step returned_ends [of "m\<lparr>loop := ?s\<rparr>" list close pv h t] assms(1) by (fastforce simp: endingActions_def)
qed

lemma reconciling_ends:
  assumes "mphase m = MainRun" "phase (loop m) = Reconciling" "ctxDone (loop m)"
  shows "ends_by list close pv h t m (now (loop m) + max 0 t)"
proof -
  let ?r = "reconcile (docker_methods list) pv (\<lambda>m. m) (\<lambda>m. m) (ctl (loop m))" let ?s = "onReconciled ?r (loop m)"
  have "main_step list close pv h t m (MLoop (AFinish (fst ?r))) (m\<lparr>loop := ?s\<rparr>)"
    using assms(1)
    by (intro main_step.loop_step run_step.finish [OF assms(2) range_ok_id range_ok_id refl]) (simp_all add: mayStep_def running_def)
  moreover have "phase ?s = Selecting" "ctxDone ?s" "now ?s = now (loop m)"
    using assms(3) by (auto simp: onReconciled_def Let_def split: prod.splits option.splits)
  ultimately show ?thesis
    using ends_by_step selecting_ends [of "m\<lparr>loop := ?s\<rparr>" list close pv h t] assms(1) by (fastforce simp: endingActions_def)
qed

lemma starting_ends:
  assumes "mphase m = MainStart" "ctxDone (loop m)"
  shows "ends_by list close pv h t m (now (loop m) + max 0 t)"
proof -
  let ?u = "m\<lparr>loop := runStarts (docker_methods list) h (loop m), mphase := MainRun\<rparr>"
  have "main_step list close pv h t m MRunStarts ?u" by (rule main_step.run_starts [OF assms(1)])
  moreover have "ends_by list close pv h t ?u (now (loop m) + max 0 t)"
    using selecting_ends [of ?u list close pv h t] assms(2) by simp
  ultimately show ?thesis using ends_by_step by (fastforce simp: endingActions_def)
qed

text \<open>
  C25. Shutdown: when the program runs without \<open>--once\<close>, it ends only after a signal and with status 0, its
  Docker client is closed exactly when it ends, and neither the watcher nor the health server is
  stopped before the signal; and once the signal has come, whatever the program is doing, it can end within
  the shutdown timeout of that moment, even if the Docker watcher never returns.
\<close>

theorem main_shuts_down:
  assumes "main_from list close pv h shutdownTimeout (main_init t0 hs c) tr m"
  shows "(\<forall>k. mphase m = MainExit k \<longrightarrow> k = 0 \<and> ctxDone (loop m)) \<and> (clientClosed m \<longleftrightarrow> \<not> running m)
    \<and> (wphase (watcher m) = WatchReturned \<or> healthServer m = ServerStopped \<longrightarrow> ctxDone (loop m))
    \<and> (ctxDone (loop m) \<and> running m \<longrightarrow>
         ends_by list close pv h shutdownTimeout m (now (loop m) + max 0 shutdownTimeout))"
proof -
  have inv: "main_inv shutdownTimeout m" using main_from_inv [OF assms main_init_inv] .
  have "ends_by list close pv h shutdownTimeout m (now (loop m) + max 0 shutdownTimeout)"
    if "ctxDone (loop m)" "running m"
  proof (cases "mphase m")
    case MainStart
    then show ?thesis using that(1) by (rule starting_ends)
  next
    case MainRun
    show ?thesis
    proof (cases "phase (loop m)")
      case Selecting
      show ?thesis by (rule selecting_ends [OF MainRun Selecting that(1)])
    next
      case Reconciling
      show ?thesis by (rule reconciling_ends [OF MainRun Reconciling that(1)])
    next
      case (Returned e)
      then have "e = ContextError ''context canceled''" using inv by (simp add: main_inv_def)
      then show ?thesis using returned_ends [OF MainRun] Returned by simp
    qed
  next
    case (MainWait d)
    then have "max d (now (loop m)) \<le> now (loop m) + max 0 shutdownTimeout"
      using inv by (auto simp: main_inv_def max_def)
    then show ?thesis using wait_ends [OF MainWait, of list close pv h shutdownTimeout] unfolding ends_by_def by fastforce
  next
    case (MainExit k)
    then show ?thesis using that(2) by (simp add: running_def)
  qed
  then show ?thesis using inv by (auto simp: main_inv_def)
qed

definition ex_docker_ctl :: "((container list, string) docker_source, fake_provider) controller" where
  "ex_docker_ctl = controller_New (newDockerSourceWithClient []) (fake_New []) ex_ctl_cfg"

theorem main_shuts_down_witness:
  "\<exists>m. main_from Inr (\<lambda>_. None) (fake_methods rev) ''h'' 30 (main_init 7 HealthOff ex_docker_ctl) [(7, MLoop ACancel)] m
   \<and> ends_by Inr (\<lambda>_. None) (fake_methods rev) ''h'' 30 m 37"
proof -
  let ?i = "main_init 7 HealthOff ex_docker_ctl" let ?m = "?i\<lparr>loop := (loop ?i)\<lparr>ctxDone := True\<rparr>\<rparr>"
  have "main_step Inr (\<lambda>_. None) (fake_methods rev) ''h'' 30 ?i (MLoop ACancel) ?m"
    by (rule main_step.loop_step [OF run_step.cancel]) (simp_all add: main_init_def mayStep_def running_def)
  from main_one [OF this] have r: "main_from Inr (\<lambda>_. None) (fake_methods rev) ''h'' 30 ?i [(7, MLoop ACancel)] ?m"
    by (simp add: main_init_def)
  from main_shuts_down [OF r] have "ends_by Inr (\<lambda>_. None) (fake_methods rev) ''h'' 30 ?m 37"
    by (simp add: main_init_def running_def)
  with r show ?thesis by blast
qed

text \<open>With \<open>--once\<close>, the exit status is 1 exactly when the cycle failed for another reason than cancellation.\<close>

lemma once_status:
  assumes "Once (ctlCfg c)"
  shows "\<exists>k. mainOnce src pv rd rc c = Some (k, k = 0) \<and> k \<le> 1
    \<and> (k = 1 \<longleftrightarrow> (\<exists>e. fst (reconcile src pv rd rc c) = Some e \<and> \<not> isCanceled e))"
  using assms by (auto simp: mainOnce_def Run_once_def exitStatus_def split: option.splits)

end
