(* ===== verification/MainEvents.thy ===== *)
theory MainEvents
  imports MainRun
begin

text \<open>
  From the Docker daemon to the controller's loop.  The run of the whole program contains a run of the
  controller's loop, with one event per message of the Docker daemon; so what is shown of the loop holds
  of the program, and every message leads to a cycle: through the handler and its debounce timer,
  or, when it came before the handler was registered, through the first cycle.
\<close>


section \<open>The loop's run inside the program's run\<close>

fun loopTrace :: "(int \<times> main_action) list \<Rightarrow> trace" where
  "loopTrace [] = []"
| "loopTrace ((t, MLoop a) # tr) = (t, a) # loopTrace tr"
| "loopTrace ((t, MWatch WMsg) # tr) = (t, AEvent) # loopTrace tr"
| "loopTrace ((t, MRunStarts) # tr) = []"
| "loopTrace (_ # tr) = loopTrace tr"

lemma reconcile_docker_source [simp]: "ctlSource (snd (reconcile (docker_methods list) pv rd rc c)) = ctlSource c"
  by (auto simp: reconcile_def reconcileBody_def finishReconcile_def applyPlan_def docker_methods_def Let_def
      split: prod.splits sum.splits option.splits if_splits)

lemma run_step_source:
  "run_step (docker_methods list) pv s a s' \<Longrightarrow> a \<noteq> AWorld \<Longrightarrow> ctlSource (ctl s') = ctlSource (ctl s)"
  by (erule run_stepE) (auto simp: run_defs split: prod.splits option.splits,
      (metis reconcile_docker_source snd_conv)+)

lemma loopTrace_watch: "loopTrace ((t, MWatch b) # tr) = (if b = WMsg then (t, AEvent) # loopTrace tr else loopTrace tr)"
  by (cases b) simp_all

text \<open>Before \<open>Run\<close> starts no handler is registered; afterwards the loop has run from its start.\<close>

definition main_loop_inv ::
  "('c \<Rightarrow> container list result) \<Rightarrow> 'p provider \<Rightarrow> 'h \<Rightarrow> ctrl_config \<Rightarrow> (int \<times> main_action) list \<Rightarrow> ('c, 'h, 'p) main_state \<Rightarrow> bool"
where
  "main_loop_inv list pv h cf tr m \<longleftrightarrow> MLoop AEvent \<notin> snd ` set tr \<and> ctlCfg (ctl (loop m)) = cf
     \<and> handlers (loopSource m) = (if mphase m = MainStart then [] else [h])
     \<and> (mphase m = MainStart \<or> (\<exists>s. ctlCfg (ctl s) = cf \<and>
          run_from (docker_methods list) pv (runStarts (docker_methods list) h s) (loopTrace tr) (loop m)))"

lemma main_loop_step:
  assumes "main_step list close pv h t m a m'" and inv: "main_loop_inv list pv h cf tr m"
  shows "main_loop_inv list pv h cf ((now (loop m), a) # tr) m'"
  using assms(1)
proof cases
  case (loop_step b s)
  have "handlers (ctlSource (ctl s)) = handlers (loopSource m)"
    using loop_step(3,5) run_step_source [OF loop_step(3)] by (cases "b = AWorld") (auto simp: sourceKept_def)
  then show ?thesis
    using inv loop_step run_step_cfg [OF loop_step(3)] run_from.step [OF _ loop_step(3)]
    by (auto simp: main_loop_inv_def mayStep_def)
next
  case (watch b w)
  let ?hs = "handlers (loopSource m)"
  have "mphase m \<noteq> MainStart \<Longrightarrow> callHandlers ?hs (loop m) = onEvent (loop m)" "mphase m = MainStart \<Longrightarrow> callHandlers ?hs (loop m) = loop m"
    using inv by (simp_all add: main_loop_inv_def callHandlers_def)
  moreover have "ctl (onEvent (loop m)) = ctl (loop m)" by (simp add: onEvent_def)
  ultimately show ?thesis
    using inv watch run_from.step [OF _ run_step.event, of "docker_methods list" pv _ "loopTrace tr" "loop m"]
    by (auto simp: main_loop_inv_def loopTrace_watch)
next
  case run_starts
  let ?s = "runStarts (docker_methods list) h (loop m)"
  have "handlers (ctlSource (ctl ?s)) = handlers (loopSource m) @ [h]"
    by (simp add: runStarts_def run_init_def docker_methods_def docker_AddEventHandler_def)
  then show ?thesis using inv run_starts run_from.start [of "docker_methods list" pv ?s] by (auto simp: main_loop_inv_def)
next
  case (run_returns err)
  then show ?thesis using inv by (auto simp: main_loop_inv_def afterRun_def)
qed (use inv in \<open>auto simp: main_loop_inv_def mainReturns_def\<close>)

lemma main_loop_run:
  assumes "main_from list close pv h t (main_init t0 hs c) tr m" "handlers (ctlSource c) = []"
  shows "main_loop_inv list pv h (ctlCfg c) tr m"
  using assms
proof (induction rule: main_from.induct)
  case start
  then show ?case by (simp add: main_loop_inv_def main_init_def)
next
  case (step tr m a m')
  show ?case by (rule main_loop_step [OF step.hyps(2) step.IH [OF step.prems]])
qed


section \<open>Messages\<close>

text \<open>A message that no cycle has started after, and the time of the latest message.\<close>

fun messageUnserved :: "(int \<times> main_action) list \<Rightarrow> bool" where
  "messageUnserved [] = False"
| "messageUnserved ((t, a) # tr) =
     (if a = MWatch WMsg then True else if a = MLoop AStartTimer \<or> a = MLoop AStartEvent then False else messageUnserved tr)"

fun lastMessage :: "(int \<times> main_action) list \<Rightarrow> int option" where
  "lastMessage [] = None"
| "lastMessage ((t, a) # tr) = (if a = MWatch WMsg then Some t else lastMessage tr)"

definition noCycle :: "trace \<Rightarrow> bool" where
  "noCycle tr \<longleftrightarrow> snd ` set tr \<inter> {AStartTimer, AStartEvent} = {}"

text \<open>Such a message is an unserved event of the loop, or the loop has not had its first cycle.\<close>

lemma messageUnserved_loop:
  "messageUnserved tr \<Longrightarrow> MLoop AEvent \<notin> snd ` set tr \<Longrightarrow> unserved (loopTrace tr) \<or> noCycle (loopTrace tr)"
  by (induction tr rule: loopTrace.induct) (auto simp: noCycle_def split: if_splits)

lemma lastMessage_loop:
  "lastEvent (loopTrace tr) = Some t \<Longrightarrow> MLoop AEvent \<notin> snd ` set tr \<Longrightarrow> lastMessage tr = Some t"
  by (induction tr rule: loopTrace.induct) (auto split: if_splits)

lemma first_cycle_due:
  assumes "run_from src pv s0 tr s" "noCycle tr" "phase s0 = Selecting" "nextTimer s0 = Some (now s0)"
  shows "phase s \<noteq> Reconciling \<and> (phase s = Selecting \<longrightarrow> nextTimer s = Some (now s0)) \<and> now s0 \<le> now s"
  using assms
proof (induction rule: run_from.induct)
  case (step tr s a s')
  then have IH: "phase s \<noteq> Reconciling" "phase s = Selecting \<longrightarrow> nextTimer s = Some (now s0)" "now s0 \<le> now s"
    by (simp_all add: noCycle_def)
  have a: "a \<noteq> AStartTimer" "a \<noteq> AStartEvent" using step.prems(1) by (auto simp: noCycle_def)
  from step.hyps(2) show ?case using IH a by (cases rule: run_step.cases) (auto simp: run_defs)
qed simp


section \<open>Every message leads to a cycle\<close>

text \<open>From \<open>m\<close> the loop's own actions and the passage of time until \<open>b\<close> lead to the start of a cycle.\<close>

definition cycle_starts_by ::
  "('c \<Rightarrow> container list result) \<Rightarrow> ('c \<Rightarrow> goerror option) \<Rightarrow> 'p provider \<Rightarrow> 'h \<Rightarrow> int \<Rightarrow>
   ('c, 'h, 'p) main_state \<Rightarrow> int \<Rightarrow> bool"
where
  "cycle_starts_by list close pv h t m b \<longleftrightarrow>
     (\<exists>u a tr m'. main_from list close pv h t m ((u, MLoop a) # tr) m' \<and> a \<in> {AStartTimer, AStartEvent}
        \<and> phase (loop m') = Reconciling \<and> now (loop m') \<le> b \<and> snd ` set tr \<subseteq> MLoop ` {ATick, AExpire, ASend})"

lemma run_in_main:
  assumes "run_from (docker_methods list) pv (loop m) tr s" "mphase m = MainRun" "snd ` set tr \<inter> {AEvent, AWorld} = {}"
  shows "main_from list close pv h t m (map (apsnd MLoop) tr) (m\<lparr>loop := s\<rparr>)"
  using assms
proof (induction rule: run_from.induct)
  case start
  then show ?case using main_from.start [of list close pv h t m] by simp
next
  case (step tr s a s')
  then have "main_from list close pv h t m (map (apsnd MLoop) tr) (m\<lparr>loop := s\<rparr>)" by simp
  moreover have "main_step list close pv h t (m\<lparr>loop := s\<rparr>) (MLoop a) (m\<lparr>loop := s'\<rparr>)"
    using step.hyps(2) step.prems by (intro main_step.loop_step [of list pv "m\<lparr>loop := s\<rparr>" a s', simplified])
      (auto simp: mayStep_def running_def)
  ultimately show ?case using main_from.step by fastforce
qed

lemma cycle_within_main:
  assumes "cycle_within (docker_methods list) pv (loop m) b" "mphase m = MainRun"
  shows "cycle_starts_by list close pv h t m b"
proof -
  obtain u tr s where r: "run_from (docker_methods list) pv (loop m) ((u, AStartEvent) # tr) s" "phase s = Reconciling" "now s \<le> b"
      "snd ` set tr \<subseteq> {ATick, AExpire, ASend}"
    using assms(1) by (auto simp: cycle_within_def)
  then have "main_from list close pv h t m ((u, MLoop AStartEvent) # map (apsnd MLoop) tr) (m\<lparr>loop := s\<rparr>)"
    using run_in_main [OF r(1) assms(2)] by fastforce
  moreover have "snd ` set (map (apsnd MLoop) tr) \<subseteq> MLoop ` {ATick, AExpire, ASend}"
    using r(4) by (force simp: image_iff)
  ultimately show ?thesis unfolding cycle_starts_by_def using r(2,3) by fastforce
qed

lemma first_cycle_main:
  assumes "mphase m = MainRun" "phase (loop m) = Selecting" "nextTimer (loop m) = Some d" "d \<le> now (loop m)"
  shows "cycle_starts_by list close pv h t m (now (loop m))"
proof -
  let ?s = "(loop m)\<lparr>phase := Reconciling, nextTimer := None\<rparr>"
  have "main_step list close pv h t m (MLoop AStartTimer) (m\<lparr>loop := ?s\<rparr>)"
    using assms run_step.start_timer [OF assms(2-4)] by (intro main_step.loop_step) (auto simp: mayStep_def running_def)
  from main_one [OF this] show ?thesis unfolding cycle_starts_by_def by fastforce
qed

text \<open>
  C8. No Docker event is lost, end to end: when the program runs without \<open>--once\<close> and the Docker daemon has sent a
  message after which no cycle has started, and the loop waits in its \<open>select\<close>, then the loop's own
  actions alone lead to the start of a cycle, no later than \<open>DebounceDuration\<close> after the latest message or at
  once if that has passed.  This includes messages that came before \<open>Run\<close> registered its handler.
\<close>

theorem docker_message_leads_to_cycle:
  assumes "main_from list close pv h shutdownTimeout (main_init t0 hs c) tr m" and "handlers (ctlSource c) = []"
    and "mphase m = MainRun" "phase (loop m) = Selecting" and "messageUnserved tr" "lastMessage tr = Some t"
  shows "cycle_starts_by list close pv h shutdownTimeout m (max (t + DebounceDuration (ctlCfg c)) (now (loop m)))"
proof -
  let ?src = "docker_methods list"
  obtain s where none: "MLoop AEvent \<notin> snd ` set tr" and cf: "ctlCfg (ctl s) = ctlCfg c"
    and run: "run_from ?src pv (runStarts ?src h s) (loopTrace tr) (loop m)"
    using main_loop_run [OF assms(1,2)] assms(3) by (auto simp: main_loop_inv_def)
  from messageUnserved_loop [OF assms(5) none] show ?thesis
  proof
    assume un: "unserved (loopTrace tr)"
    then obtain u where u: "lastEvent (loopTrace tr) = Some u" using unserved_lastEvent by blast
    then have "u = t" using lastMessage_loop [OF u none] assms(6) by simp
    then show ?thesis
      using unserved_to_cycle [OF run _ un assms(4) u] cf by (intro cycle_within_main [OF _ assms(3)]) simp
  next
    assume "noCycle (loopTrace tr)"
    from first_cycle_due [OF run this] have "nextTimer (loop m) = Some (now s)" "now s \<le> now (loop m)" using assms(4) by simp_all
    from first_cycle_main [OF assms(3,4) this, of list close pv h shutdownTimeout] show ?thesis
      unfolding cycle_starts_by_def by fastforce
  qed
qed

text \<open>An example: a message, and only then the registration of the handler.\<close>

theorem docker_message_leads_to_cycle_witness:
  "\<exists>m. main_from Inr (\<lambda>_. None) (fake_methods rev) ''h'' 30 (main_init 7 HealthOff ex_docker_ctl)
       [(7, MRunStarts), (7, MWatch WMsg)] m
     \<and> cycle_starts_by Inr (\<lambda>_. None) (fake_methods rev) ''h'' 30 m 5000000007"
proof -
  let ?i = "main_init 7 HealthOff ex_docker_ctl" let ?step = "main_step Inr (\<lambda>_. None) (fake_methods rev) ''h'' 30"
  let ?u = "?i\<lparr>watcher := (watcher ?i)\<lparr>wlog := notify [] (wlog (watcher ?i))\<rparr>\<rparr>"
  let ?m = "?u\<lparr>loop := runStarts (docker_methods Inr) ''h'' (loop ?u), mphase := MainRun\<rparr>"
  have hs: "handlers (ctlSource ex_docker_ctl) = []" "DebounceDuration (ctlCfg ex_docker_ctl) = 5000000000"
    by (simp_all add: ex_docker_ctl_def controller_New_def newDockerSourceWithClient_def Let_def ex_ctl_cfg_def applyDefaults_def)
  have i: "mphase ?i = MainStart" "wphase (watcher ?i) = Listening" "running ?i" "now (loop ?i) = 7"
      "handlers (loopSource ?i) = []"
    by (simp_all add: main_init_def watch_init_def running_def hs)
  have "?step ?i (MWatch WMsg) ?u"
    using main_step.watch [OF watch_step.message [OF i(2)] i(3), of Inr "\<lambda>_. None" "fake_methods rev" "''h''" 30] i(5)
    by (simp add: callHandlers_def)
  from main_one [OF this] have "main_from Inr (\<lambda>_. None) (fake_methods rev) ''h'' 30 ?i [(7, MWatch WMsg)] ?u" using i(4) by simp
  from main_from.step [OF this main_step.run_starts] have
    r: "main_from Inr (\<lambda>_. None) (fake_methods rev) ''h'' 30 ?i [(7, MRunStarts), (7, MWatch WMsg)] ?m"
    using i(1,4) by simp
  from docker_message_leads_to_cycle [OF r hs(1), of 7] have "cycle_starts_by Inr (\<lambda>_. None) (fake_methods rev) ''h'' 30 ?m 5000000007"
    using i(4) hs(2) by simp
  with r show ?thesis by blast
qed

end
