(* ===== verification/Spec2Isabelle.thy ===== *)
theory Spec2Isabelle
  imports FakeProvider FakeSource PlanLimits OwnershipSafety MainEvents
begin

text \<open>
  Verification of external-dns-docker, a daemon that publishes DNS records for Docker containers.

  The program.  A source lists the wanted records (\<open>pkg/source\<close>: the Docker daemon's container
  labels), a provider lists and changes the records of DNS zones (\<open>pkg/provider\<close>: RFC 2136 updates and
  AXFR, for one zone or several), the plan compares the two (\<open>pkg/plan\<close>) and the controller runs cycles
  of reading, comparing and writing, periodically, on container events and with backoff after
  failures (\<open>pkg/controller\<close>).  The command line program (\<open>cmd/external-dns-docker\<close>) reads flags, environment
  and zone files, wires the parts together and ends them.  A record is the program's own when a TXT
  record next to it carries its owner ID; the central promise is that other records are never touched.

  The theories, in order.

  \<^item> \<open>Prelude\<close>: errors as values, \<open>int64\<close> wrap-around, Go maps as association lists with an explicit
    iteration order for \<open>range\<close>, and the contract \<open>map_store\<close> of a map.
  \<^item> \<open>GoStrings\<close>, \<open>GoNet\<close>, \<open>GoTime\<close>, \<open>GoFlag\<close>: what the program uses of \<open>strings\<close>, \<open>strconv\<close>, \<open>regexp\<close>, \<open>net\<close>,
    \<open>time\<close> and \<open>flag\<close>.  Strings are byte strings.  \<open>ToLower\<close> is the ASCII case; the regular
    expressions are the two of the source.  The contract \<open>flag_field\<close> says which flag a field belongs to.
  \<^item> \<open>Endpoint\<close> (\<open>pkg/endpoint/endpoint.go\<close>), \<open>Plan\<close> (\<open>pkg/plan\<close>): the records and the diff engine, with
    what a change set contains, ownership safety, independence of the map order, and the fixed
    points.
  \<^item> \<open>Provider\<close> (\<open>pkg/provider/provider.go\<close>): the interface, the abstract effect \<open>apply_spec\<close> of a change
    set on a zone, and the contract \<open>zone_provider\<close>, from which convergence is proved and that the desired records
    are published when nobody else's record is in the way.  \<open>FakeProvider\<close>
    (\<open>pkg/provider/fake/fake.go\<close>) implements the contract.
  \<^item> \<open>PlanLimits\<close>: two behaviours over several cycles that come from keeping ownership per name, and the
    ambiguity of the plan's key \<open>DNSName|RecordType\<close>.
  \<^item> \<open>Rfc2136\<close> (\<open>rfc2136.go\<close>), \<open>MultiZone\<close> (\<open>multizone.go\<close>): conversion to and from resource records, the
    messages sent, error paths, and routing by zone.
  \<^item> \<open>Rfc2136Server\<close>: a DNS server whose answers mean what RFC 2136 says (\<open>server_law\<close>), and that over such a
    server the RFC 2136 provider refines \<open>apply_spec\<close> as a transaction, and implements \<open>zone_provider\<close> when the
    server can be reached (\<open>available\<close>).
    \<open>MultiZoneServer\<close>: the same for several zones (\<open>multi_law\<close>) and the multi-zone provider.
    \<open>ManagedZones\<close>: that the plans of the program can be carried out and their messages are accepted, from
    conditions on the wanted records and on what the zones hold, so that one cycle settles one zone or many.
    \<open>OwnershipSafety\<close>: the contract \<open>careful_provider\<close> of a provider that changes only what it is told, both
    providers keep it, and that over every run of the loop other people's records stay as they are.
  \<^item> \<open>Source\<close>, \<open>FakeSource\<close>, \<open>DockerSource\<close> (\<open>pkg/source\<close>): the interface with its contract
    \<open>endpoint_source\<close>, and the two sources: label parsing and validation, event notification.  \<open>Watcher\<close>: the
    goroutine that watches Docker events as a step relation, equivalent to the functions of \<open>DockerSource\<close>.
  \<^item> \<open>Controller\<close>, \<open>ControllerLoop\<close> (\<open>pkg/controller/controller.go\<close>): one cycle as a function, and the loop
    as a step relation over every interleaving of timers, event handler and loop.
  \<^item> \<open>MainConfig\<close>, \<open>MainFlags\<close>, \<open>MainRun\<close> (\<open>cmd/external-dns-docker/main.go\<close>): the environment and the two
    zone configurations, the choice of the mode and the wiring; the flag table and its parsing; the
    health server and its routes, and the main goroutine, the controller's loop and the Docker watcher side by
    side as one step relation, up to the exit.  \<open>MainEvents\<close>: the loop's run inside the program's run, and
    that every Docker message is followed by a cycle.
  \<^item> This theory: the parts together, from command line and container labels to the records in one zone and in
    many, what never happens to the records of others, and how one long hostname stops all publishing.

  Not code of the repository and therefore arguments of the definitions: the DNS library's constants and
  \<open>Fqdn\<close> (record \<open>dns_lib\<close>, with the law \<open>fqdn_law\<close>), the two DNS transports and the clock (record
  \<open>network\<close>), the Docker client
  (\<open>newClient\<close>, \<open>list\<close>), the file system (\<open>readFile\<close>), the YAML library (\<open>unmarshal\<close>) and the
  floating-point expression of \<open>time.ParseDuration\<close> (\<open>frac\<close>).

  What is assumed of DNS servers, where a theorem is about what they hold.  \<open>server_law\<close>: a complete transfer lists the
  zone; an update answered with NOERROR has been carried out as RFC 2136 3.4.2 says, one answered with another code has
  not, and one without an answer is done or not.  It speaks only of messages that are \<open>acceptable\<close> (four record
  types, inside the zone, lower case, no CNAME beside another record, no second record in the set of a name and
  type) and \<open>sendable\<close> (a plain form within the DNS size limits), and only of records of the four types.  \<open>available\<close>:
  transfers complete and such messages are not refused; it is a hypothesis of its own.  \<open>multi_law\<close>: the same for
  every zone, and an update changes only its zone.  \<open>careful_server\<close>, for the safety of other people's records in
  every run: a message changes no record at a name it does not mention.  \<open>name_limit_law\<close>: a message with a
  name of more than 255 octets is not sent.

  Bounds.  No fuel is used: every loop of the program is a structural recursion or has a termination
  proof (the indexed label loop ends because a label map is finite, flag parsing because every flag
  takes an argument).  \<open>int64\<close> values are integers with \<open>wrap64\<close> where the code can overflow, TTLs on
  the wire are 32-bit words, type codes 16-bit words.

  Not modelled: Prometheus and the logger (the values given to them are kept), the wording of log lines, the
  HTTP protocol (the routes are modelled for patterns that are plain paths), the delivery of signals (a
  signal is the cancellation of the context), the duration of a DNS operation in progress.  In the loop a cycle is one
  step: nobody else changes a zone between the cycle's read and its write, and the time of the next cycle is
  not cut at the largest \<open>int64\<close>.  The handler list of
  the Docker source is read and appended to atomically in the model; the code has no lock there.
\<close>


section \<open>Docker labels to DNS records\<close>




lemma docker_desired:
  assumes "list (client s) = Inr containers" "desired = snd (containersEndpoints containers)"
  shows "Endpoints (docker_methods list) s = (Inr desired, s)" "w \<in> set desired \<Longrightarrow> from_labels w"
  using assms docker_Endpoints_from_labels [of "Inr containers" desired w]
  by (simp_all add: docker_methods_def docker_Endpoints_def split: prod.splits)




definition ex_web :: container where
  "ex_web = \<lparr>ID = ''0123'', cLabels = [(''external-dns.io/hostname'', ''a.ex''), (''external-dns.io/target'', ''10.0.0.1'')]\<rparr>"

definition ex_zone_cfg :: rfc_config where
  "ex_zone_cfg = \<lparr>Host = ''ns.ex'', Port = 53, Zone = ''ex'', TSIGKeyName = [], TSIGSecret = [],
     TSIGSecretAlg = ''hmac-sha256'', MinTTL = 0, Timeout = 10000000000\<rparr>"

definition ex_flags :: flags where
  "ex_flags = (flagDefaults (\<lambda>_ _ _. 0) [])\<lparr>fHost := ''ns.ex'', fZone := ''ex''\<rparr>"




lemma ex_web_endpoints: "snd (containersEndpoints [ex_web]) = [ex_A ''a.ex'' ''10.0.0.1'']"
  by code_simp







section \<open>Several zones\<close>















section \<open>Other people's records\<close>

text \<open>
  C3. The central promise, over every run: whatever the interleaving of timers, events and cycles, however the Docker
  daemon and the DNS servers fail, and whoever else changes the zones, the program changes no record at a
  name that no container asks for and that carries no ownership record of its own.  The names are any set \<open>S\<close>
  that is closed under the ownership prefix, in one zone or many; of the servers only \<open>careful_server\<close>
  is assumed.  The runs are those in which no name in the zones has a backslash or the key separator \<open>|\<close>
  (\<open>tame\<close>, \<open>well_named\<close>); with the separator the plan's key is ambiguous, see \<open>PlanLimits\<close>.
\<close>

theorem others_records_survive:
  assumes law: "fqdn_law lib" "\<forall>p \<in> set (launchProviders lib l). careful_server net p contents"
    and sched: "set sched \<subseteq> {..<length (launchProviders lib l)}"
    and closed: "\<And>x. ownerPrefix @ x \<in> S \<longleftrightarrow> x \<in> S"
    and free: "owner_free (ctlPlan (ctl s0)) S (contents (ctlProvider (ctl s0)))"
    and run: "tame_run list lib (launchMethods lib net sched l) S contents s0 tr s"
  shows "recordsAt S (contents (ctlProvider (ctl s))) = recordsAt S (contents (ctlProvider (ctl s0)))"
  using careful_provider.run_protects [OF launch_is_careful [OF law(2) sched] run law(1) closed free] .

text \<open>An example: a mail host in the zone, and a cycle that publishes the container.\<close>

definition ex_mail :: RR where
  "ex_mail = RR_A \<lparr>hdrName = ''mail.ex.'', Rrtype = 1, Class = 1, hdrTtl = 300\<rparr> [10, 9, 9, 9]"

definition ex_mail_start :: "((container list, unit) docker_source, RR list) run_state" where
  "ex_mail_start = run_init (docker_methods Inr) () 7
     (controller_New \<lparr>client = [ex_web], handlers = [], reconnectWait = 5000000000\<rparr> [ex_mail] (controllerConfig ex_flags))"

definition ex_mail_end :: "((container list, unit) docker_source, RR list) run_state" where
  "ex_mail_end = onReconciled (reconcile (docker_methods Inr) (launchMethods ex_lib ex_server [] (LaunchSingle ex_zone_cfg))
     (\<lambda>m. m) (\<lambda>m. m) (ctl ex_mail_start)) (ex_mail_start\<lparr>phase := Reconciling, nextTimer := None\<rparr>)"

lemma ex_mail_run:
  "map rrName (ctlProvider (ctl ex_mail_end)) = [''external-dns-docker-owner.a.ex.'', ''a.ex.'', ''mail.ex.'']"
  "client (ctlSource (ctl ex_mail_end)) = [ex_web]" "ctlProvider (ctl ex_mail_start) = [ex_mail]"
  "client (ctlSource (ctl ex_mail_start)) = [ex_web]"
  by code_simp+

lemma ex_well_named:
  assumes "rrName r \<in> {''external-dns-docker-owner.a.ex.'', ''a.ex.'', ''mail.ex.''}" shows "well_named r"
proof -
  have ex: "well_named r" if "rrName r = n @ ''.''" "plain_name n" "CHR ''|'' \<notin> set n" for n
    using that unfolding well_named_def by blast
  show ?thesis
    using assms ex [of "''external-dns-docker-owner.a.ex''"] ex [of "''a.ex''"] ex [of "''mail.ex''"]
    by (auto simp: plain_name_def HasSuffix_def)
qed

theorem others_records_survive_witness:
  "ex_mail \<in> set (ctlProvider (ctl ex_mail_end)) \<and> length (ctlProvider (ctl ex_mail_end)) = 3"
proof -
  let ?S = "Collect (inZone ''mail.ex.'')" and ?l = "LaunchSingle ex_zone_cfg"
  let ?pv = "launchMethods ex_lib ex_server [] ?l" and ?u = "ex_mail_start\<lparr>phase := Reconciling, nextTimer := None\<rparr>"
  have out: "serverName ex_lib (ex_A ''a.ex'' ''10.0.0.1'') \<notin> ?S" unfolding mem_Collect_eq by code_simp
  have tame: "tame Inr ex_lib ?S set s" if "set (map rrName (ctlProvider (ctl s))) \<subseteq> {''external-dns-docker-owner.a.ex.'', ''a.ex.'', ''mail.ex.''}"
      "client (ctlSource (ctl s)) = [ex_web]" for s :: "((container list, unit) docker_source, RR list) run_state"
    using that out ex_well_named by (auto simp: tame_def ex_web_endpoints)
  have "rrName ex_mail = ''mail.ex.''" by (simp add: ex_mail_def)
  then have t: "tame Inr ex_lib ?S set ex_mail_start" "tame Inr ex_lib ?S set ?u" "tame Inr ex_lib ?S set ex_mail_end"
    using ex_mail_run by (auto intro!: tame)
  have s1: "run_step (docker_methods Inr) ?pv ex_mail_start AStartTimer ?u"
    by (rule run_step.start_timer [of _ 7]) (simp_all add: ex_mail_start_def)
  have "run_step (docker_methods Inr) ?pv ?u (AFinish (fst (reconcile (docker_methods Inr) ?pv (\<lambda>m. m) (\<lambda>m. m) (ctl ?u)))) ex_mail_end"
    using run_step.finish [of ?u "\<lambda>m. m" "\<lambda>m. m" "docker_methods Inr" ?pv, OF _ range_ok_id range_ok_id refl]
    by (simp add: ex_mail_end_def)
  from tame_run.step [OF tame_run.step [OF tame_run.start [OF t(1)] s1 t(2)] this t(3)]
  obtain tr where run: "tame_run Inr ex_lib ?pv ?S set ex_mail_start tr ex_mail_end" by blast
  have closed: "ownerPrefix @ x \<in> ?S \<longleftrightarrow> x \<in> ?S" for x by (rule subtree_closed) (simp add: HasPrefix_def ownerPrefix_def)
  have free: "owner_free (ctlPlan (ctl ex_mail_start)) ?S (set (ctlProvider (ctl ex_mail_start)))"
    by (simp add: ex_mail_run(3) owner_free_def recordsAt_def) (simp add: ex_mail_def isOwnershipTXT_def)
  have "recordName ex_mail \<in> ?S" unfolding mem_Collect_eq by code_simp
  then have "ex_mail \<in> set (ctlProvider (ctl ex_mail_end))"
    using others_records_survive [OF ex_lib_law _ _ closed free run] ex_server_careful ex_mail_run(3)
    by (auto simp: recordsAt_def)
  moreover have "length (ctlProvider (ctl ex_mail_end)) = 3" using arg_cong [OF ex_mail_run(1), of length] by simp
  ultimately show ?thesis by blast
qed


section \<open>A name that is too long for its ownership record\<close>

text \<open>
  What is assumed of the DNS library: a message with a name of more than 255 octets on the wire (RFC 1035 3.1; a name
  without escapes has one octet more there than characters) is not sent, the call returns an error.
\<close>

definition name_limit_law :: "('t, 'e, 'n) network \<Rightarrow> ('t, 'e) rfc_provider \<Rightarrow> bool" where
  "name_limit_law net p \<longleftrightarrow>
     (\<forall>m n. (\<exists>r \<in> set (removedRRs m @ insertedRRs m). CHR 0x5C \<notin> set (rrName r) \<and> 255 < length (rrName r) + 1) \<longrightarrow>
        (\<exists>e. ExchangeContext net (exchanger p) m (server p) n = (Inl e, n)))"

lemma docker_valid_name:
  assumes "Endpoints (docker_methods list) so = (Inr desired, so')" "w \<in> set desired"
  shows "isValidHostname (DNSName w)"
proof -
  obtain cs where "list (client so) = Inr cs" "w \<in> set (snd (containersEndpoints cs))" using docker_names [OF assms] by blast
  then have "from_labels w" using docker_desired(2) by blast
  then show ?thesis by (auto simp: from_labels_def dest!: parseSingle_Some)
qed

lemma ownership_name_length:
  assumes "fqdn_law lib" "CHR 0x5C \<notin> set n" "n \<noteq> []"
  shows "length (Fqdn lib (ownershipName n)) = length (TrimSuffix n ''.'') + 27" "CHR 0x5C \<notin> set (Fqdn lib (ownershipName n))"
proof -
  have o: "CHR 0x5C \<notin> set (ownershipName n)" "length ownerPrefix = 26" using assms(2) by (simp_all add: ownershipName_def ownerPrefix_def)
  have "Fqdn lib (ownershipName n) = TrimSuffix (ownershipName n) ''.'' @ ''.''"
    using assms(1) o(1) unfolding fqdn_law_def by (auto simp: TrimSuffix_def HasSuffix_iff)
  also have "\<dots> = ownerPrefix @ TrimSuffix n ''.'' @ ''.''"
    using TrimSuffix_ownershipName [OF assms(3)] by (simp add: ownershipName_def)
  finally have f: "Fqdn lib (ownershipName n) = ownerPrefix @ TrimSuffix n ''.'' @ ''.''" .
  then show "length (Fqdn lib (ownershipName n)) = length (TrimSuffix n ''.'') + 27" using o(2) by simp
  have "set (Fqdn lib (ownershipName n)) \<subseteq> set (ownershipName n) \<union> {CHR ''.''}"
    using assms(1) o(1) by (auto simp: fqdn_law_def split: if_splits)
  then show "CHR 0x5C \<notin> set (Fqdn lib (ownershipName n))" using o(1) by auto
qed

text \<open>A created record brings its ownership record into the message, under the longer name.\<close>

lemma created_companion_in_message:
  assumes "range_ok rd" "effective desired w" "epKey w \<notin> epKey ` set (filterOwnershipTXTs cur)"
    and ch: "ch = Calculate rd rc p desired cur"
  shows "\<not> IsEmpty ch \<and> (\<exists>r \<in> set (insertedRRs (snd (buildUpdate lib c ch))). rrName r = Fqdn lib (ownershipName (DNSName w)))"
proof -
  let ?t = "ownershipTXTFor p (DNSName w)" and ?r = "RR_TXT (rrHeader lib c (ownershipTXTFor p (DNSName w))) [ownershipValue (ownerID p)]"
  have t: "?t \<in> set (Create ch)" unfolding ch mem_Create [OF assms(1)] using assms(2,3) by blast
  have "endpointToRRs lib c ?t = Inr [?r]" by (simp add: TXT_record)
  then have "InsertRRs [?r] \<in> set (snd (buildUpdate lib c ch))"
    unfolding ch buildUpdate_calls [OF length_Updates] using t [unfolded ch] by (auto intro!: bexI [of _ ?t])
  then have "?r \<in> set (insertedRRs (snd (buildUpdate lib c ch)))" unfolding set_insertedRRs by (meson list.set_intros(1))
  moreover have "rrName ?r = Fqdn lib (ownershipName (DNSName w))" by (simp add: rrHeader_def)
  moreover have "\<not> IsEmpty ch" using t by (auto simp: IsEmpty_iff)
  ultimately show ?thesis by blast
qed

text \<open>
  C35. A container with a valid but long name keeps every record of the zone from being written: a hostname of 228 to
  253 characters is accepted, but the name of its ownership record is 26 characters longer and has no form on
  the wire.  As long as such a record is to be created, every cycle that is not a dry run fails, and nothing of
  its plan is done, neither for this container nor for any other.
\<close>

theorem long_hostname_blocks_publishing:
  assumes law: "fqdn_law lib" "name_limit_law net p"
    and src: "Endpoints (docker_methods list) (ctlSource c) = (Inr desired, so)"
    and cur: "rfc2136_Records lib net p (ctlProvider c) = (Inr cur, n)"
    and w: "effective desired w" "epKey w \<notin> epKey ` set (filterOwnershipTXTs cur)" "228 \<le> length (TrimSuffix (DNSName w) ''.'')"
    and r: "range_ok rd" and dry: "\<not> DryRun (ctlCfg c)"
  shows "isValidHostname (DNSName w)
    \<and> fst (reconcile (docker_methods list) (rfc2136_methods lib net p) rd rc c) \<noteq> None
    \<and> ctlProvider (snd (reconcile (docker_methods list) (rfc2136_methods lib net p) rd rc c)) = n"
proof -
  let ?ch = "Calculate rd rc (ctlPlan c) desired cur" let ?m = "snd (buildUpdate lib (cfg p) ?ch)"
  have valid: "isValidHostname (DNSName w)" using docker_valid_name [OF src] effective_mem [OF w(1)] by blast
  then have "CHR 0x5C \<notin> set (DNSName w)" by (rule isValidHostname_no_backslash)
  moreover have "DNSName w \<noteq> []" using w(3) by (auto simp: TrimSuffix_def HasSuffix_def)
  ultimately have name: "length (Fqdn lib (ownershipName (DNSName w))) = length (TrimSuffix (DNSName w) ''.'') + 27"
    "CHR 0x5C \<notin> set (Fqdn lib (ownershipName (DNSName w)))" using ownership_name_length [OF law(1)] by blast+
  obtain x where x: "x \<in> set (insertedRRs ?m)" "rrName x = Fqdn lib (ownershipName (DNSName w))" and ne: "\<not> IsEmpty ?ch"
    using created_companion_in_message [OF r w(1,2) refl] by blast
  have "x \<in> set (insertedRRs (signMsg lib p (NowUnix net n) ?m))" using x(1) by (simp add: signed_records)
  moreover have "CHR 0x5C \<notin> set (rrName x)" "255 < length (rrName x) + 1" using name w(3) by (simp_all add: x(2))
  ultimately have "\<exists>r \<in> set (removedRRs (signMsg lib p (NowUnix net n) ?m) @ insertedRRs (signMsg lib p (NowUnix net n) ?m)).
      CHR 0x5C \<notin> set (rrName r) \<and> 255 < length (rrName r) + 1" by auto
  then obtain e where "ExchangeContext net (exchanger p) (signMsg lib p (NowUnix net n) ?m) (server p) n = (Inl e, n)"
    using law(2) unfolding name_limit_law_def by blast
  then have "ApplyChanges (rfc2136_methods lib net p) n ?ch = (Some (Wrap ''dns update exchange'' e), n)"
    using ne by (auto simp: rfc2136_methods_def rfc2136_ApplyChanges_def Let_def split: prod.splits)
  moreover have "Records (rfc2136_methods lib net p) (ctlProvider c) = (Inr cur, n)" using cur by (simp add: rfc2136_methods_def)
  ultimately show ?thesis
    using valid ne dry reconcile_reads [OF src, of "rfc2136_methods lib net p" cur n rd rc]
    by (auto simp: applyPlan_def finishReconcile_def Let_def split: prod.splits)
qed

text \<open>An example: the container of before and one with a name of four labels, 228 characters in all.\<close>

definition ex_label :: "nat \<Rightarrow> string" where
  "ex_label k = replicate k CHR ''1''"

definition ex_long_name :: string where
  "ex_long_name = ex_label 57 @ ''.'' @ ex_label 56 @ ''.'' @ ex_label 56 @ ''.'' @ ex_label 56"

definition ex_long :: container where
  "ex_long = \<lparr>ID = ''4567'', cLabels = [(''external-dns.io/hostname'', ex_long_name), (''external-dns.io/target'', ''10.0.0.2'')]\<rparr>"

definition ex_strict_server :: "('t, 'e, RR list) network" where
  "ex_strict_server = ex_server\<lparr>ExchangeContext := (\<lambda>_ m _ n.
     if list_all (\<lambda>r. length (rrName r) + 1 \<le> 255) (removedRRs m @ insertedRRs m) then (Inr 0, serveL m n)
     else (Inl (ExternalError ''domain name exceeded 255 wire-format octets''), n))\<rparr>"

definition ex_long_controller :: "((container list, unit) docker_source, RR list) controller" where
  "ex_long_controller =
     controller_New \<lparr>client = [ex_web, ex_long], handlers = [], reconnectWait = 5000000000\<rparr> [] (controllerConfig ex_flags)"

lemma SplitByte_whole: "c \<notin> set l \<Longrightarrow> SplitByte c l = [l]"
  by (induction l) auto

lemma ex_long_valid:
  "length ex_long_name = 228" "TrimSuffix ex_long_name ''.'' = ex_long_name" "TrimSpace ex_long_name = ex_long_name"
  "isValidHostname ex_long_name"
proof -
  show len: "length ex_long_name = 228" by (simp add: ex_long_name_def ex_label_def)
  have l: "ex_label (Suc k) \<noteq> []" "hd (ex_label (Suc k)) = CHR ''1''" "last (ex_label (Suc k)) = CHR ''1''"
      "CHR ''.'' \<notin> set (ex_label k)" "length (ex_label k) = k" for k
    by (simp_all add: ex_label_def)
  have num: "(57::nat) = Suc 56" "(56::nat) = Suc 55" by simp_all
  have "ex_label 57 \<noteq> []" "ex_label 56 \<noteq> []" "hd (ex_label 57) = CHR ''1''" "last (ex_label 56) = CHR ''1''"
    unfolding num by (rule l)+
  then have ends: "ex_long_name \<noteq> []" "hd ex_long_name = CHR ''1''" "last ex_long_name = CHR ''1''"
    by (simp_all add: ex_long_name_def hd_append)
  show trim: "TrimSuffix ex_long_name ''.'' = ex_long_name"
  proof -
    have "last ex_long_name = CHR ''.''" if "HasSuffix ex_long_name ''.''"
      using that unfolding HasSuffix_iff by (metis last_snoc)
    then show ?thesis unfolding TrimSuffix_id_iff using ends(3) by auto
  qed
  show "TrimSpace ex_long_name = ex_long_name" by (rule no_space_ends) (simp_all add: ends num_char_def is_digit_def)
  have label: "MatchAnchored labelRE (ex_label k)" if "0 < k" "k \<le> 63" for k
    using that by (simp add: labelRE_iff ex_label_def alnum_def alnum_hyphen_def)
  have "SplitByte CHR ''.'' ex_long_name = [ex_label 57, ex_label 56, ex_label 56, ex_label 56]"
    using l(4) by (simp add: ex_long_name_def SplitByte_append SplitByte_whole)
  then show "isValidHostname ex_long_name" by (simp add: isValidHostname_def Let_def trim len label ends(1))
qed

lemma ex_long_endpoints:
  "snd (containersEndpoints [ex_web, ex_long]) = [ex_A ''a.ex'' ''10.0.0.1'', ex_A ex_long_name ''10.0.0.2'']"
proof -
  have t: "TrimSpace ''10.0.0.2'' = ''10.0.0.2''" "TrimSpace [] = []" "isValidTarget ''10.0.0.2''" "InferRecordType ''10.0.0.2'' = ''A''"
    by code_simp+
  have k: "indexedKey ''hostname'' 0 = ''external-dns.io/hostname-0''" "labelHostname = ''external-dns.io/hostname''"
    "labelTarget = ''external-dns.io/target''" "labelTTL = ''external-dns.io/ttl''" "labelRecordType = ''external-dns.io/record-type''"
    by code_simp+
  have "ex_long_name \<noteq> []" using ex_long_valid(1) by auto
  then have "parseSingle cid ex_long_name ''10.0.0.2'' [] [] = ([], Some (ex_A ex_long_name ''10.0.0.2''))" for cid
    by (simp add: parseSingle_def ex_long_valid(3,4) t ex_A_def endpoint_New_def)
  moreover have "indexedLoop cid (cLabels ex_long) 0 = ([], [])" for cid
    by (subst indexedLoop_unfold) (simp add: ex_long_def k)
  ultimately have "snd (endpointsFromLabels cid (cLabels ex_long)) = [ex_A ex_long_name ''10.0.0.2'']" for cid
    by (simp add: endpointsFromLabels_def) (simp add: ex_long_def k labelGet_def)
  moreover have "snd (containersEndpoints [ex_web, c]) =
      snd (containersEndpoints [ex_web]) @ snd (endpointsFromLabels (shortID (ID c)) (cLabels c))" for c
    by (simp add: containersEndpoints_eq)
  ultimately show ?thesis using ex_web_endpoints by simp
qed

theorem long_hostname_blocks_publishing_witness:
  "isValidHostname ex_long_name
   \<and> fst (reconcile (docker_methods Inr) (rfc2136_methods ex_lib ex_strict_server ex_rfc) (\<lambda>m. m) rev ex_long_controller) \<noteq> None
   \<and> ctlProvider (snd (reconcile (docker_methods Inr) (rfc2136_methods ex_lib ex_strict_server ex_rfc) (\<lambda>m. m) rev ex_long_controller)) = []"
proof -
  let ?w = "ex_A ex_long_name ''10.0.0.2''" and ?ws = "[ex_A ''a.ex'' ''10.0.0.1'', ex_A ex_long_name ''10.0.0.2'']"
  have ct: "client (ctlSource ex_long_controller) = [ex_web, ex_long]" "ctlProvider ex_long_controller = []"
    by (simp_all add: ex_long_controller_def controller_New_def Let_def)
  have "\<not> fDryRun ex_flags" by (simp add: ex_flags_def flagDefaults_def envOrBool_def Getenv_def)
  then have dry: "\<not> DryRun (ctlCfg ex_long_controller)"
    by (simp add: ex_long_controller_def controller_New_def Let_def controllerConfig_def)
  have src: "Endpoints (docker_methods Inr) (ctlSource ex_long_controller) = (Inr ?ws, ctlSource ex_long_controller)"
    by (rule docker_desired(1) [OF _ ex_long_endpoints [symmetric]]) (simp add: ct)
  have cur: "rfc2136_Records ex_lib ex_strict_server ex_rfc (ctlProvider ex_long_controller) = (Inr [], [])"
    by (simp add: ct rfc2136_Records_def ex_strict_server_def ex_server_def Let_def)
  have law: "name_limit_law ex_strict_server ex_rfc"
    unfolding name_limit_law_def by (auto simp: ex_strict_server_def list_all_iff not_le)
  have n: "DNSName ?w = ex_long_name" by (simp add: ex_A_def)
  have "effective ?ws ?w" by (simp add: effective_def)
  then show ?thesis
    using long_hostname_blocks_publishing [OF ex_lib_law law src cur, of ?w "\<lambda>m. m" rev] dry range_ok_id
    by (simp add: n filterOwnershipTXTs_def ex_long_valid(1,2))
qed

end
